(* ===== verification/Prelude.thy ===== *)
theory Prelude
  imports Main "HOL-Library.Word"
begin

text \<open>
  What every component shares: the names of the machine integers of the C and C++ code, the
  little-endian byte layout of its packed structs (the host and both firmware images are
  little-endian and copy structs with \<^verbatim>\<open>memcpy\<close>), generic lemmas on lists, and the collections
  of simplification rules the component theories add to:
  \<^item> \<open>wire_simps\<close>: the bytes of multi-byte fields and the reads that put them together again;
  \<^item> \<open>code_defs\<close>: the definitions of constants of the source (\<^verbatim>\<open>#define\<close>, \<^verbatim>\<open>constexpr\<close>).
\<close>

unbundle bit_operations_syntax

named_theorems wire_simps "bytes of multi-byte fields and reads of them"
named_theorems code_defs "constants of the source"

type_synonym u8 = "8 word"
type_synonym u16 = "16 word"
type_synonym u32 = "32 word"
type_synonym u64 = "64 word"
type_synonym bytes = "u8 list"

lemma conj3I: "A \<Longrightarrow> B \<Longrightarrow> C \<Longrightarrow> A \<and> B \<and> C"
  and conj4I: "A \<Longrightarrow> B \<Longrightarrow> C \<Longrightarrow> D \<Longrightarrow> A \<and> B \<and> C \<and> D"
  and conj5I: "A \<Longrightarrow> B \<Longrightarrow> C \<Longrightarrow> D \<Longrightarrow> E \<Longrightarrow> A \<and> B \<and> C \<and> D \<and> E"
  and conj6I: "A \<Longrightarrow> B \<Longrightarrow> C \<Longrightarrow> D \<Longrightarrow> E \<Longrightarrow> F \<Longrightarrow> A \<and> B \<and> C \<and> D \<and> E \<and> F"
  by simp_all

subsection \<open>Little-endian fields\<close>

definition mk16 :: "u8 \<Rightarrow> u8 \<Rightarrow> u16" where
  "mk16 b0 b1 = ucast b0 OR push_bit 8 (ucast b1)"

definition mk32 :: "u8 \<Rightarrow> u8 \<Rightarrow> u8 \<Rightarrow> u8 \<Rightarrow> u32" where
  "mk32 b0 b1 b2 b3 =
     ucast b0 OR push_bit 8 (ucast b1) OR push_bit 16 (ucast b2) OR push_bit 24 (ucast b3)"

definition byte_of :: "nat \<Rightarrow> 'a::len word \<Rightarrow> u8" where
  "byte_of k w = ucast (drop_bit (8 * k) w)"

definition le16 :: "u16 \<Rightarrow> bytes" where
  "le16 w = [byte_of 0 w, byte_of 1 w]"

definition le32 :: "u32 \<Rightarrow> bytes" where
  "le32 w = [byte_of 0 w, byte_of 1 w, byte_of 2 w, byte_of 3 w]"

definition rd16 :: "bytes \<Rightarrow> nat \<Rightarrow> u16" where
  "rd16 bs i = mk16 (bs ! i) (bs ! (i + 1))"

definition rd32 :: "bytes \<Rightarrow> nat \<Rightarrow> u32" where
  "rd32 bs i = mk32 (bs ! i) (bs ! (i + 1)) (bs ! (i + 2)) (bs ! (i + 3))"

lemma bit_u8_out [simp]: "8 \<le> n \<Longrightarrow> bit (a :: u8) n = False"
  using bit_imp_le_length [of a n] by auto

lemma mk16_byte_of [wire_simps, simp]: "mk16 (byte_of 0 w) (byte_of (Suc 0) w) = w"
  by (rule bit_word_eqI) (auto simp: mk16_def byte_of_def bit_simps)

lemma byte_of_mk16 [wire_simps, simp]:
  "byte_of 0 (mk16 a b) = a" "byte_of (Suc 0) (mk16 a b) = b"
  by (rule bit_word_eqI; auto simp: mk16_def byte_of_def bit_simps)+

lemma mk32_byte_of [wire_simps, simp]:
  "mk32 (byte_of 0 w) (byte_of (Suc 0) w) (byte_of 2 w) (byte_of 3 w) = w"
proof (rule bit_word_eqI)
  fix n assume "n < LENGTH(32)"
  then consider "n < 8" | m where "n = 8 + m" "m < 8" | m where "n = 16 + m" "m < 8"
    | m where "n = 24 + m" "m < 8"
    using le_Suc_ex [of 8 n] le_Suc_ex [of 16 n] le_Suc_ex [of 24 n] by fastforce
  then show "bit (mk32 (byte_of 0 w) (byte_of (Suc 0) w) (byte_of 2 w) (byte_of 3 w)) n = bit w n"
    by cases (simp_all add: mk32_def byte_of_def bit_simps)
qed

lemma byte_of_mk32 [wire_simps, simp]:
  "byte_of 0 (mk32 a b c d) = a" "byte_of (Suc 0) (mk32 a b c d) = b"
  "byte_of 2 (mk32 a b c d) = c" "byte_of 3 (mk32 a b c d) = d"
  by (rule bit_word_eqI; auto simp: mk32_def byte_of_def bit_simps)+

lemma le16_inj: "le16 x = le16 y \<longleftrightarrow> x = y"
  by (simp add: le16_def) (metis mk16_byte_of)

lemma length_le16 [simp]: "length (le16 w) = 2"
  by (simp add: le16_def)

lemma length_le32 [simp]: "length (le32 w) = 4"
  by (simp add: le32_def)

lemma rd16_le16 [simp]: "rd16 (x # le16 w @ ys) 1 = w" "rd16 (x # le16 w) (Suc 0) = w" "rd16 (x # le16 w @ ys) (Suc 0) = w"
  by (simp_all add: rd16_def le16_def mk16_byte_of byte_of_mk16)

end
