(* ===== verification/Protocol.thy ===== *)
theory Protocol
  imports Prelude
begin

text \<open>
  \<^verbatim>\<open>firmware/common/protocol/htk_protocol.h\<close>: the wire protocol, compiled by both firmware images
  and the host library. Each packed struct is a record; \<open>enc_\<dots>\<close> is its image in memory, that is
  what \<^verbatim>\<open>memcpy\<close> out of the struct gives on a little-endian machine, and \<open>dec_\<dots>\<close> is
  \<^verbatim>\<open>memcpy\<close> into the struct from a buffer that holds at least \<^verbatim>\<open>sizeof\<close> bytes. The locale
  \<open>wire_struct\<close> is what every user of a struct relies on, and it is interpreted on all thirteen:
  the number in each interpretation is the size the header asserts or documents.
\<close>

type_synonym f32 = u32

subsection \<open>Constants\<close>

text \<open>Version and framing.\<close>

definition HTK_PROTO_VERSION :: u8 where [code_defs, simp]: "HTK_PROTO_VERSION = 1"
definition HTK_FW_MAJOR :: u8 where [code_defs, simp]: "HTK_FW_MAJOR = 0"
definition HTK_FW_MINOR :: u8 where [code_defs, simp]: "HTK_FW_MINOR = 1"
definition HTK_FW_PATCH :: u8 where [code_defs, simp]: "HTK_FW_PATCH = 0"

text \<open>Framing (USB side).\<close>

definition HTK_MAX_PAYLOAD :: nat where [code_defs, simp]: "HTK_MAX_PAYLOAD = 59"
definition HTK_MAX_FRAME :: nat where [code_defs, simp]: "HTK_MAX_FRAME = 64"

text \<open>Tracker ids that are never a target.\<close>

definition HTK_ID_INVALID :: u16 where [code_defs, simp]: "HTK_ID_INVALID = 0x0000"
definition HTK_ID_SIM :: u16 where [code_defs, simp]: "HTK_ID_SIM = 0xFFFF"

text \<open>Packet types.\<close>

definition HTK_PKT_ORIENT :: u8 where [code_defs, simp]: "HTK_PKT_ORIENT = 0x01"
definition HTK_PKT_STATUS :: u8 where [code_defs, simp]: "HTK_PKT_STATUS = 0x02"
definition HTK_PKT_RAW :: u8 where [code_defs, simp]: "HTK_PKT_RAW = 0x03"
definition HTK_PKT_HELLO_RESP :: u8 where [code_defs, simp]: "HTK_PKT_HELLO_RESP = 0x04"
definition HTK_PKT_TRACKER_STAT :: u8 where [code_defs, simp]: "HTK_PKT_TRACKER_STAT = 0x05"
definition HTK_PKT_LOG :: u8 where [code_defs, simp]: "HTK_PKT_LOG = 0x7F"
definition HTK_PKT_HELLO :: u8 where [code_defs, simp]: "HTK_PKT_HELLO = 0x10"
definition HTK_PKT_RESET_FUSION :: u8 where [code_defs, simp]: "HTK_PKT_RESET_FUSION = 0x11"
definition HTK_PKT_SET_RATE :: u8 where [code_defs, simp]: "HTK_PKT_SET_RATE = 0x12"
definition HTK_PKT_SET_MODE :: u8 where [code_defs, simp]: "HTK_PKT_SET_MODE = 0x13"
definition HTK_PKT_GET_STATS :: u8 where [code_defs, simp]: "HTK_PKT_GET_STATS = 0x14"
definition HTK_PKT_IDENTIFY :: u8 where [code_defs, simp]: "HTK_PKT_IDENTIFY = 0x15"
definition HTK_PKT_SIM_MODE :: u8 where [code_defs, simp]: "HTK_PKT_SIM_MODE = 0x1F"
definition HTK_PKT_BEACON :: u8 where [code_defs, simp]: "HTK_PKT_BEACON = 0x20"
definition HTK_PKT_TSTATUS :: u8 where [code_defs, simp]: "HTK_PKT_TSTATUS = 0x21"

text \<open>Flag bits.\<close>

definition HTK_ORIENT_HW_FUSION :: u8 where [code_defs, simp]: "HTK_ORIENT_HW_FUSION = 1"
definition HTK_ORIENT_BIAS_OK :: u8 where [code_defs, simp]: "HTK_ORIENT_BIAS_OK = 2"
definition HTK_ORIENT_SIM :: u8 where [code_defs, simp]: "HTK_ORIENT_SIM = 4"
definition HTK_ORIENT_REST :: u8 where [code_defs, simp]: "HTK_ORIENT_REST = 8"
definition HTK_ORIENT_TAP :: u8 where [code_defs, simp]: "HTK_ORIENT_TAP = 16"
definition HTK_STATUS_SIM_ACTIVE :: u8 where [code_defs, simp]: "HTK_STATUS_SIM_ACTIVE = 1"
definition HTK_TSTAT_LINK_UP :: u8 where [code_defs, simp]: "HTK_TSTAT_LINK_UP = 1"

text \<open>Capabilities of the dongle.\<close>

definition HTK_CAP_QUAT :: u16 where [code_defs, simp]: "HTK_CAP_QUAT = 1"
definition HTK_CAP_RAW :: u16 where [code_defs, simp]: "HTK_CAP_RAW = 2"
definition HTK_CAP_SIM :: u16 where [code_defs, simp]: "HTK_CAP_SIM = 4"
definition HTK_CAP_HW_FUSION :: u16 where [code_defs, simp]: "HTK_CAP_HW_FUSION = 8"
definition HTK_CAP_MULTI :: u16 where [code_defs, simp]: "HTK_CAP_MULTI = 16"

text \<open>Stream modes.\<close>

definition HTK_MODE_QUAT :: u8 where [code_defs, simp]: "HTK_MODE_QUAT = 0"
definition HTK_MODE_RAW :: u8 where [code_defs, simp]: "HTK_MODE_RAW = 1"
definition HTK_MODE_BOTH :: u8 where [code_defs, simp]: "HTK_MODE_BOTH = 2"

definition HTK_RATE_DEFAULT :: u16 where [code_defs, simp]: "HTK_RATE_DEFAULT = 208"

text \<open>Full-scale codes of RAW.\<close>

definition HTK_FS_GYRO_250DPS :: u8 where [code_defs, simp]: "HTK_FS_GYRO_250DPS = 0"
definition HTK_FS_GYRO_500DPS :: u8 where [code_defs, simp]: "HTK_FS_GYRO_500DPS = 1"
definition HTK_FS_GYRO_1000DPS :: u8 where [code_defs, simp]: "HTK_FS_GYRO_1000DPS = 2"
definition HTK_FS_GYRO_2000DPS :: u8 where [code_defs, simp]: "HTK_FS_GYRO_2000DPS = 3"
definition HTK_FS_ACC_2G :: u8 where [code_defs, simp]: "HTK_FS_ACC_2G = 0"
definition HTK_FS_ACC_4G :: u8 where [code_defs, simp]: "HTK_FS_ACC_4G = 1"
definition HTK_FS_ACC_8G :: u8 where [code_defs, simp]: "HTK_FS_ACC_8G = 2"
definition HTK_FS_ACC_16G :: u8 where [code_defs, simp]: "HTK_FS_ACC_16G = 3"

definition HTK_FS_MAKE :: "u8 \<Rightarrow> u8 \<Rightarrow> u8" where
  "HTK_FS_MAKE gyro acc = push_bit 4 acc OR (gyro AND 0x0F)"

subsection \<open>What a packed struct promises\<close>

locale wire_struct =
  fixes enc :: "'a \<Rightarrow> bytes" and dec :: "bytes \<Rightarrow> 'a" and sz :: nat
  assumes length_enc: "length (enc x) = sz"
    and dec_enc_append: "dec (enc x @ ys) = x"
    and enc_dec_take: "sz \<le> length bs \<Longrightarrow> enc (dec bs) = take sz bs"
begin

lemma dec_enc: "dec (enc x) = x"
  using dec_enc_append [of x "[]"] by simp

lemma enc_inj: "enc x = enc y \<longleftrightarrow> x = y"
  by (metis dec_enc)

lemma enc_dec: "length bs = sz \<Longrightarrow> enc (dec bs) = bs"
  using enc_dec_take [of bs] by simp

lemma enc_surj: "length bs = sz \<Longrightarrow> \<exists>x. bs = enc x"
  using enc_dec by metis

end

text \<open>Arrays of three 16-bit readings.\<close>

fun le16x3 :: "u16 \<times> u16 \<times> u16 \<Rightarrow> bytes" where
  "le16x3 (x, y, z) = le16 x @ le16 y @ le16 z"

definition rd16x3 :: "bytes \<Rightarrow> nat \<Rightarrow> u16 \<times> u16 \<times> u16" where
  "rd16x3 bs i = (rd16 bs i, rd16 bs (i + 2), rd16 bs (i + 4))"

lemma le16x3_fst_snd: "le16x3 p = le16 (fst p) @ le16 (fst (snd p)) @ le16 (snd (snd p))"
  by (cases p) simp

lemma take_nths: "n \<le> length bs \<Longrightarrow> take n bs = map (nth bs) [0..<n]"
  by (rule nth_equalityI) auto

lemmas struct_simps = le16_def le32_def rd16_def rd32_def le16x3_fst_snd rd16x3_def take_nths
  upt_conv_Cons eval_nat_numeral mk32_byte_of [unfolded numeral_2_eq_2 numeral_3_eq_3]
  byte_of_mk32 [unfolded numeral_2_eq_2 numeral_3_eq_3]

subsection \<open>The structs\<close>

text \<open>0x01: one orientation sample; the quaternion is kept as the four IEEE-754 bit patterns on the wire.\<close>

record htk_orient =
  or_type :: u8
  or_id :: u16
  or_seq :: u16
  or_t_us :: u32
  or_q_w :: f32
  or_q_x :: f32
  or_q_y :: f32
  or_q_z :: f32
  or_flags :: u8

definition enc_orient :: "htk_orient \<Rightarrow> bytes" where
  "enc_orient p =
    [or_type p] @ le16 (or_id p) @ le16 (or_seq p) @ le32 (or_t_us p) @ le32 (or_q_w p) @
    le32 (or_q_x p) @ le32 (or_q_y p) @ le32 (or_q_z p) @ [or_flags p]"

definition dec_orient :: "bytes \<Rightarrow> htk_orient" where
  "dec_orient bs =
    \<lparr>or_type = bs ! 0, or_id = rd16 bs 1, or_seq = rd16 bs 3, or_t_us = rd32 bs 5,
     or_q_w = rd32 bs 9, or_q_x = rd32 bs 13, or_q_y = rd32 bs 17, or_q_z = rd32 bs 21,
     or_flags = bs ! 25\<rparr>"

text \<open>0x02: dongle health.\<close>

record htk_status =
  st_type :: u8
  st_uptime_ms :: u32
  st_rx_rate :: u16
  st_n_trackers :: u8
  st_flags :: u8

definition enc_status :: "htk_status \<Rightarrow> bytes" where
  "enc_status p =
    [st_type p] @ le32 (st_uptime_ms p) @ le16 (st_rx_rate p) @ [st_n_trackers p, st_flags p]"

definition dec_status :: "bytes \<Rightarrow> htk_status" where
  "dec_status bs =
    \<lparr>st_type = bs ! 0, st_uptime_ms = rd32 bs 1, st_rx_rate = rd16 bs 5,
     st_n_trackers = bs ! 7, st_flags = bs ! 8\<rparr>"

text \<open>0x03: raw IMU sample; the signed 16-bit readings as bit patterns.\<close>

record htk_raw =
  raw_type :: u8
  raw_id :: u16
  raw_seq :: u16
  raw_t_us :: u32
  raw_gyr :: "u16 \<times> u16 \<times> u16"
  raw_acc :: "u16 \<times> u16 \<times> u16"
  raw_fs :: u8

definition enc_raw :: "htk_raw \<Rightarrow> bytes" where
  "enc_raw p =
    [raw_type p] @ le16 (raw_id p) @ le16 (raw_seq p) @ le32 (raw_t_us p) @
    le16x3 (raw_gyr p) @ le16x3 (raw_acc p) @ [raw_fs p]"

definition dec_raw :: "bytes \<Rightarrow> htk_raw" where
  "dec_raw bs =
    \<lparr>raw_type = bs ! 0, raw_id = rd16 bs 1, raw_seq = rd16 bs 3, raw_t_us = rd32 bs 5,
     raw_gyr = rd16x3 bs 9, raw_acc = rd16x3 bs 15, raw_fs = bs ! 21\<rparr>"

text \<open>0x04: identity and version of the dongle.\<close>

record htk_hello_resp =
  hr_type :: u8
  hr_proto_ver :: u8
  hr_fw_major :: u8
  hr_fw_minor :: u8
  hr_fw_patch :: u8
  hr_device :: u8
  hr_caps :: u16

definition enc_hello_resp :: "htk_hello_resp \<Rightarrow> bytes" where
  "enc_hello_resp p =
    [hr_type p, hr_proto_ver p, hr_fw_major p, hr_fw_minor p, hr_fw_patch p, hr_device p] @
    le16 (hr_caps p)"

definition dec_hello_resp :: "bytes \<Rightarrow> htk_hello_resp" where
  "dec_hello_resp bs =
    \<lparr>hr_type = bs ! 0, hr_proto_ver = bs ! 1, hr_fw_major = bs ! 2, hr_fw_minor = bs ! 3,
     hr_fw_patch = bs ! 4, hr_device = bs ! 5, hr_caps = rd16 bs 6\<rparr>"

text \<open>0x05: health of one tracker, as this dongle sees it.\<close>

record htk_tracker_stat =
  ts_type :: u8
  ts_id :: u16
  ts_age_ms :: u32
  ts_rate :: u16
  ts_seq_lost :: u32
  ts_vbat_mV :: u16
  ts_fw_major :: u8
  ts_fw_minor :: u8
  ts_fw_patch :: u8
  ts_mode :: u8
  ts_flags :: u8

definition enc_tracker_stat :: "htk_tracker_stat \<Rightarrow> bytes" where
  "enc_tracker_stat p =
    [ts_type p] @ le16 (ts_id p) @ le32 (ts_age_ms p) @ le16 (ts_rate p) @
    le32 (ts_seq_lost p) @ le16 (ts_vbat_mV p) @
    [ts_fw_major p, ts_fw_minor p, ts_fw_patch p, ts_mode p, ts_flags p]"

definition dec_tracker_stat :: "bytes \<Rightarrow> htk_tracker_stat" where
  "dec_tracker_stat bs =
    \<lparr>ts_type = bs ! 0, ts_id = rd16 bs 1, ts_age_ms = rd32 bs 3, ts_rate = rd16 bs 7,
     ts_seq_lost = rd32 bs 9, ts_vbat_mV = rd16 bs 13, ts_fw_major = bs ! 15,
     ts_fw_minor = bs ! 16, ts_fw_patch = bs ! 17, ts_mode = bs ! 18, ts_flags = bs ! 19\<rparr>"

text \<open>Host to dongle commands.\<close>

record htk_hello =
  he_type :: u8
  he_proto_ver :: u8

definition enc_hello :: "htk_hello \<Rightarrow> bytes" where
  "enc_hello p =
    [he_type p, he_proto_ver p]"

definition dec_hello :: "bytes \<Rightarrow> htk_hello" where
  "dec_hello bs =
    \<lparr>he_type = bs ! 0, he_proto_ver = bs ! 1\<rparr>"

record htk_cmd_id =
  ci_type :: u8
  ci_id :: u16

definition enc_cmd_id :: "htk_cmd_id \<Rightarrow> bytes" where
  "enc_cmd_id p =
    [ci_type p] @ le16 (ci_id p)"

definition dec_cmd_id :: "bytes \<Rightarrow> htk_cmd_id" where
  "dec_cmd_id bs =
    \<lparr>ci_type = bs ! 0, ci_id = rd16 bs 1\<rparr>"

record htk_set_rate =
  sr_type :: u8
  sr_id :: u16
  sr_hz :: u16

definition enc_set_rate :: "htk_set_rate \<Rightarrow> bytes" where
  "enc_set_rate p =
    [sr_type p] @ le16 (sr_id p) @ le16 (sr_hz p)"

definition dec_set_rate :: "bytes \<Rightarrow> htk_set_rate" where
  "dec_set_rate bs =
    \<lparr>sr_type = bs ! 0, sr_id = rd16 bs 1, sr_hz = rd16 bs 3\<rparr>"

record htk_set_mode =
  sm_type :: u8
  sm_id :: u16
  sm_mode :: u8

definition enc_set_mode :: "htk_set_mode \<Rightarrow> bytes" where
  "enc_set_mode p =
    [sm_type p] @ le16 (sm_id p) @ [sm_mode p]"

definition dec_set_mode :: "bytes \<Rightarrow> htk_set_mode" where
  "dec_set_mode bs =
    \<lparr>sm_type = bs ! 0, sm_id = rd16 bs 1, sm_mode = bs ! 3\<rparr>"

record htk_get_stats =
  gs_type :: u8

definition enc_get_stats :: "htk_get_stats \<Rightarrow> bytes" where
  "enc_get_stats p =
    [gs_type p]"

definition dec_get_stats :: "bytes \<Rightarrow> htk_get_stats" where
  "dec_get_stats bs =
    \<lparr>gs_type = bs ! 0\<rparr>"

record htk_sim_mode =
  si_type :: u8
  si_on :: u8

definition enc_sim_mode :: "htk_sim_mode \<Rightarrow> bytes" where
  "enc_sim_mode p =
    [si_type p, si_on p]"

definition dec_sim_mode :: "bytes \<Rightarrow> htk_sim_mode" where
  "dec_sim_mode bs =
    \<lparr>si_type = bs ! 0, si_on = bs ! 1\<rparr>"

text \<open>0x20, air only: header of a beacon; an embedded command payload may follow.\<close>

record htk_beacon_hdr =
  bh_type :: u8
  bh_beacon_seq :: u8

definition enc_beacon_hdr :: "htk_beacon_hdr \<Rightarrow> bytes" where
  "enc_beacon_hdr p =
    [bh_type p, bh_beacon_seq p]"

definition dec_beacon_hdr :: "bytes \<Rightarrow> htk_beacon_hdr" where
  "dec_beacon_hdr bs =
    \<lparr>bh_type = bs ! 0, bh_beacon_seq = bs ! 1\<rparr>"

text \<open>0x21, air only: the head unit's self-report.\<close>

record htk_tstatus =
  tt_type :: u8
  tt_id :: u16
  tt_vbat_mV :: u16
  tt_fw_major :: u8
  tt_fw_minor :: u8
  tt_fw_patch :: u8
  tt_mode :: u8
  tt_rate :: u16
  tt_uptime_s :: u16

definition enc_tstatus :: "htk_tstatus \<Rightarrow> bytes" where
  "enc_tstatus p =
    [tt_type p] @ le16 (tt_id p) @ le16 (tt_vbat_mV p) @
    [tt_fw_major p, tt_fw_minor p, tt_fw_patch p, tt_mode p] @ le16 (tt_rate p) @
    le16 (tt_uptime_s p)"

definition dec_tstatus :: "bytes \<Rightarrow> htk_tstatus" where
  "dec_tstatus bs =
    \<lparr>tt_type = bs ! 0, tt_id = rd16 bs 1, tt_vbat_mV = rd16 bs 3, tt_fw_major = bs ! 5,
     tt_fw_minor = bs ! 6, tt_fw_patch = bs ! 7, tt_mode = bs ! 8, tt_rate = rd16 bs 9,
     tt_uptime_s = rd16 bs 11\<rparr>"

subsection \<open>Sizes and round trips\<close>

interpretation orient_wire: wire_struct enc_orient dec_orient 26
  by unfold_locales (simp_all add: enc_orient_def dec_orient_def struct_simps)

interpretation status_wire: wire_struct enc_status dec_status 9
  by unfold_locales (simp_all add: enc_status_def dec_status_def struct_simps)

interpretation raw_wire: wire_struct enc_raw dec_raw 22
  by unfold_locales (simp_all add: enc_raw_def dec_raw_def struct_simps)

interpretation hello_resp_wire: wire_struct enc_hello_resp dec_hello_resp 8
  by unfold_locales (simp_all add: enc_hello_resp_def dec_hello_resp_def struct_simps)

interpretation tracker_stat_wire: wire_struct enc_tracker_stat dec_tracker_stat 20
  by unfold_locales (simp_all add: enc_tracker_stat_def dec_tracker_stat_def struct_simps)

interpretation hello_wire: wire_struct enc_hello dec_hello 2
  by unfold_locales (simp_all add: enc_hello_def dec_hello_def struct_simps)

interpretation cmd_id_wire: wire_struct enc_cmd_id dec_cmd_id 3
  by unfold_locales (simp_all add: enc_cmd_id_def dec_cmd_id_def struct_simps)

interpretation set_rate_wire: wire_struct enc_set_rate dec_set_rate 5
  by unfold_locales (simp_all add: enc_set_rate_def dec_set_rate_def struct_simps)

interpretation set_mode_wire: wire_struct enc_set_mode dec_set_mode 4
  by unfold_locales (simp_all add: enc_set_mode_def dec_set_mode_def struct_simps)

interpretation get_stats_wire: wire_struct enc_get_stats dec_get_stats 1
  by unfold_locales (simp_all add: enc_get_stats_def dec_get_stats_def struct_simps)

interpretation sim_mode_wire: wire_struct enc_sim_mode dec_sim_mode 2
  by unfold_locales (simp_all add: enc_sim_mode_def dec_sim_mode_def struct_simps)

interpretation beacon_hdr_wire: wire_struct enc_beacon_hdr dec_beacon_hdr 2
  by unfold_locales (simp_all add: enc_beacon_hdr_def dec_beacon_hdr_def struct_simps)

interpretation tstatus_wire: wire_struct enc_tstatus dec_tstatus 13
  by unfold_locales (simp_all add: enc_tstatus_def dec_tstatus_def struct_simps)

text \<open>Every struct starts with its type byte.\<close>

lemma enc_type_byte [simp]:
  "enc_orient p0 ! 0 = or_type p0"
  "enc_status p1 ! 0 = st_type p1"
  "enc_raw p2 ! 0 = raw_type p2"
  "enc_hello_resp p3 ! 0 = hr_type p3"
  "enc_tracker_stat p4 ! 0 = ts_type p4"
  "enc_hello p5 ! 0 = he_type p5"
  "enc_cmd_id p6 ! 0 = ci_type p6"
  "enc_set_rate p7 ! 0 = sr_type p7"
  "enc_set_mode p8 ! 0 = sm_type p8"
  "enc_get_stats p9 ! 0 = gs_type p9"
  "enc_sim_mode p10 ! 0 = si_type p10"
  "enc_beacon_hdr p11 ! 0 = bh_type p11"
  "enc_tstatus p12 ! 0 = tt_type p12"
  by (simp_all add: enc_orient_def enc_status_def enc_raw_def enc_hello_resp_def enc_tracker_stat_def enc_hello_def
       enc_cmd_id_def enc_set_rate_def enc_set_mode_def enc_get_stats_def enc_sim_mode_def
       enc_beacon_hdr_def enc_tstatus_def)

lemma dec_type_byte [simp]:
  "or_type (dec_orient bs) = bs ! 0"
  "st_type (dec_status bs) = bs ! 0"
  "raw_type (dec_raw bs) = bs ! 0"
  "hr_type (dec_hello_resp bs) = bs ! 0"
  "ts_type (dec_tracker_stat bs) = bs ! 0"
  "he_type (dec_hello bs) = bs ! 0"
  "ci_type (dec_cmd_id bs) = bs ! 0"
  "sr_type (dec_set_rate bs) = bs ! 0"
  "sm_type (dec_set_mode bs) = bs ! 0"
  "gs_type (dec_get_stats bs) = bs ! 0"
  "si_type (dec_sim_mode bs) = bs ! 0"
  "bh_type (dec_beacon_hdr bs) = bs ! 0"
  "tt_type (dec_tstatus bs) = bs ! 0"
  by (simp_all add: dec_orient_def dec_status_def dec_raw_def dec_hello_resp_def dec_tracker_stat_def dec_hello_def
       dec_cmd_id_def dec_set_rate_def dec_set_mode_def dec_get_stats_def dec_sim_mode_def
       dec_beacon_hdr_def dec_tstatus_def)

lemmas enc_lengths [simp] =
  orient_wire.length_enc
  status_wire.length_enc
  raw_wire.length_enc
  hello_resp_wire.length_enc
  tracker_stat_wire.length_enc
  hello_wire.length_enc
  cmd_id_wire.length_enc
  set_rate_wire.length_enc
  set_mode_wire.length_enc
  get_stats_wire.length_enc
  sim_mode_wire.length_enc
  beacon_hdr_wire.length_enc
  tstatus_wire.length_enc

lemmas dec_encs [simp] =
  orient_wire.dec_enc
  status_wire.dec_enc
  raw_wire.dec_enc
  hello_resp_wire.dec_enc
  tracker_stat_wire.dec_enc
  hello_wire.dec_enc
  cmd_id_wire.dec_enc
  set_rate_wire.dec_enc
  set_mode_wire.dec_enc
  get_stats_wire.dec_enc
  sim_mode_wire.dec_enc
  beacon_hdr_wire.dec_enc
  tstatus_wire.dec_enc

end
