(* ===== verification/Crc16.thy ===== *)
theory Crc16
  imports Prelude
begin

text \<open>
  \<^verbatim>\<open>firmware/common/protocol/htk_crc16.c\<close>: CRC-16/CCITT-FALSE, compiled into both firmware
  images and the host library. The definitions are the two nested loops; the lemmas say that the
  shift register is linear and injective, from which it follows that no damage confined to two
  adjacent bytes of a payload keeps the checksum.
\<close>

definition HTK_CRC16_CHECK :: u16 where
  [code_defs]: "HTK_CRC16_CHECK = 0x29B1"

text \<open>The body of the inner loop, and \<open>n\<close> rounds of it.\<close>

definition crc_bit :: "u16 \<Rightarrow> u16" where
  "crc_bit crc = (if crc AND 0x8000 \<noteq> 0 then push_bit 1 crc XOR 0x1021 else push_bit 1 crc)"

fun crc_bits :: "nat \<Rightarrow> u16 \<Rightarrow> u16" where
  "crc_bits 0 crc = crc"
| "crc_bits (Suc n) crc = crc_bits n (crc_bit crc)"

text \<open>The body of the outer loop, and the function.\<close>

definition crc_byte :: "u16 \<Rightarrow> u8 \<Rightarrow> u16" where
  "crc_byte crc b = crc_bits 8 (crc XOR push_bit 8 (ucast b))"

definition htk_crc16 :: "bytes \<Rightarrow> u16" where
  "htk_crc16 data = foldl crc_byte 0xFFFF data"

subsection \<open>The register is linear and injective\<close>

lemma xor_eq_0_word: "x XOR y = 0 \<longleftrightarrow> (x :: 'a::len word) = y"
  by (auto simp: bit_eq_iff bit_simps)

lemma xor_cancel_right [simp]: "x XOR z = y XOR z \<longleftrightarrow> (x :: 'a::len word) = y"
  by (auto simp: bit_eq_iff bit_simps)

lemma xor_cancel_left [simp]: "z XOR x = z XOR y \<longleftrightarrow> (x :: 'a::len word) = y"
  by (auto simp: bit_eq_iff bit_simps)

lemma top_bit_test: "(crc :: u16) AND 0x8000 \<noteq> 0 \<longleftrightarrow> bit crc 15"
  using bit_iff_and_push_bit_not_eq_0 [of crc 15] by (simp add: push_bit_eq_mult)

lemma crc_bit_eq:
  "crc_bit crc = push_bit 1 crc XOR (if bit crc 15 then 0x1021 else 0)"
  by (simp add: crc_bit_def top_bit_test)

lemma crc_bit_xor: "crc_bit (x XOR y) = crc_bit x XOR crc_bit y"
  by (auto simp: crc_bit_eq bit_simps push_bit_xor ac_simps)

lemma crc_bits_xor: "crc_bits n (x XOR y) = crc_bits n x XOR crc_bits n y"
  by (induction n arbitrary: x y) (simp_all add: crc_bit_xor)

lemma crc_bits_0 [simp]: "crc_bits n 0 = 0"
  by (induction n) (simp_all add: crc_bit_def)

lemma crc_bits_add: "crc_bits (m + n) x = crc_bits n (crc_bits m x)"
  by (induction m arbitrary: x) simp_all

text \<open>Bit 0 of the polynomial is set, so no non-zero register is shifted out to zero.\<close>

lemma crc_bit_eq_0: "crc_bit x = 0 \<Longrightarrow> x = 0"
proof -
  assume z: "crc_bit x = 0"
  have "\<not> bit x 15"
  proof
    assume "bit x 15"
    then have "bit (crc_bit x) 0"
      by (simp only: crc_bit_eq bit_xor_iff bit_push_bit_iff) simp
    with z show False by simp
  qed
  with z have "push_bit 1 x = 0" by (simp add: crc_bit_eq)
  show "x = 0"
  proof (rule bit_word_eqI)
    fix n assume "n < LENGTH(16)"
    then have n: "n = 15 \<or> Suc n < 16" by auto
    have "bit (push_bit 1 x) (Suc n) = (Suc n < 16 \<and> bit x n)"
      by (simp only: bit_push_bit_iff) simp
    with n \<open>push_bit 1 x = 0\<close> \<open>\<not> bit x 15\<close> show "bit x n = bit 0 n" by auto
  qed
qed

lemma crc_bits_eq_0: "crc_bits n x = 0 \<Longrightarrow> x = 0"
  by (induction n arbitrary: x) (auto dest: crc_bit_eq_0)

lemma crc_bits_inj: "crc_bits n x = crc_bits n y \<longleftrightarrow> x = y"
proof
  assume "crc_bits n x = crc_bits n y"
  then have "crc_bits n (x XOR y) = 0" by (simp add: crc_bits_xor)
  then have "x XOR y = 0" by (rule crc_bits_eq_0)
  then show "x = y" by (simp only: xor_eq_0_word)
qed simp

lemma crc_byte_inj_left: "crc_byte c b = crc_byte c' b \<longleftrightarrow> c = c'"
  by (auto simp: crc_byte_def crc_bits_inj)

lemma foldl_crc_inj: "foldl crc_byte c xs = foldl crc_byte c' xs \<longleftrightarrow> c = c'"
  by (induction xs arbitrary: c c') (simp_all add: crc_byte_inj_left)

lemma htk_crc16_append: "htk_crc16 (xs @ ys) = foldl crc_byte (htk_crc16 xs) ys"
  by (simp add: htk_crc16_def)

subsection \<open>Damage confined to two adjacent bytes\<close>

text \<open>Eight rounds only move the low byte of the register up.\<close>

lemma crc_bit_low: "bit x 15 = False \<Longrightarrow> crc_bit x = push_bit 1 x"
  by (simp add: crc_bit_eq)

lemma crc_bits_low:
  assumes "\<And>i. 16 \<le> i + n \<Longrightarrow> \<not> bit x i"
  shows "crc_bits n x = push_bit n x"
  using assms
proof (induction n arbitrary: x)
  case 0
  then show ?case by simp
next
  case (Suc n)
  from Suc.prems [of 15] have "crc_bit x = push_bit 1 x" by (simp add: crc_bit_low)
  moreover have "crc_bits n (push_bit 1 x) = push_bit n (push_bit 1 x)"
  proof (rule Suc.IH)
    fix i assume i: "16 \<le> i + n"
    with Suc.prems [of "i - 1"] show "\<not> bit (push_bit 1 x) i"
      by (cases i) (auto simp only: bit_push_bit_iff)
  qed
  ultimately show ?case by (simp only: crc_bits.simps push_bit_push_bit) (simp add: ac_simps)
qed

lemma crc_two_bytes:
  "foldl crc_byte c [a, b] = crc_bits 16 (c XOR (push_bit 8 (ucast a) XOR ucast b))"
proof -
  have low: "crc_bits 8 (ucast b) = push_bit 8 (ucast b)"
    by (rule crc_bits_low) (simp add: bit_simps)
  have "crc_bits 16 (c XOR (push_bit 8 (ucast a) XOR ucast b)) =
        crc_bits 8 (crc_bits 8 ((c XOR push_bit 8 (ucast a)) XOR ucast b))"
    using crc_bits_add [of 8 8] by (simp add: xor.assoc)
  also have "\<dots> = crc_bits 8 (crc_bits 8 (c XOR push_bit 8 (ucast a)) XOR push_bit 8 (ucast b))"
    by (simp only: crc_bits_xor [of 8 _ "ucast b"] low)
  finally show ?thesis by (simp add: crc_byte_def)
qed

lemma two_bytes_inj:
  "push_bit 8 (ucast (a :: u8)) XOR ucast (b :: u8) = (push_bit 8 (ucast a') XOR ucast b' :: u16)
    \<longleftrightarrow> a = a' \<and> b = b'" (is "?l = ?r \<longleftrightarrow> _")
proof
  assume eq: "?l = ?r"
  have "bit a n = bit a' n" if "n < 8" for n
  proof -
    have "bit ?l (8 + n) = bit a n" "bit ?r (8 + n) = bit a' n" using that by (simp_all add: bit_simps)
    with eq show ?thesis by simp
  qed
  moreover have "bit b n = bit b' n" if "n < 8" for n
  proof -
    have "bit ?l n = bit b n" "bit ?r n = bit b' n" using that by (simp_all add: bit_simps)
    with eq show ?thesis by simp
  qed
  ultimately show "a = a' \<and> b = b'" by (auto intro!: bit_word_eqI)
qed simp

text \<open>
  The strength the protocol relies on: two payloads of the same length that differ only inside a
  window of two adjacent bytes never have the same checksum.
\<close>

lemma crc16_two_byte_window:
  assumes "htk_crc16 (xs @ [a, b] @ zs) = htk_crc16 (xs @ [a', b'] @ zs)"
  shows "a = a' \<and> b = b'"
proof -
  from assms have "foldl crc_byte (htk_crc16 xs) [a, b] = foldl crc_byte (htk_crc16 xs) [a', b']"
    by (simp add: htk_crc16_append foldl_crc_inj)
  then show ?thesis by (simp only: crc_two_bytes crc_bits_inj xor_cancel_left two_bytes_inj)
qed

lemma crc16_one_byte:
  assumes "htk_crc16 (xs @ [a] @ zs) = htk_crc16 (xs @ [a'] @ zs)"
  shows "a = a'"
  using crc16_two_byte_window [of xs a 0 zs a' 0] assms two_bytes_inj [of a 0 a' 0]
  by (auto simp: htk_crc16_append foldl_crc_inj crc_byte_def crc_bits_inj)

end
