(* ===== verification/Cobs.thy ===== *)
theory Cobs
  imports Prelude
begin

text \<open>
  \<^verbatim>\<open>firmware/common/protocol/htk_cobs.c\<close>: byte stuffing. Both C functions write into a caller's
  buffer of \<open>out_cap\<close> bytes and return the number of bytes written, 0 on failure; the models
  return the bytes \<open>out[0..ret)\<close>, the empty list standing for the return value 0. The loops
  keep the code's early returns as \<open>None\<close>.

  \<open>cobs_ref\<close> is the textbook description (runs of non-zero bytes behind a length code); the
  one-pass encoder with its back-patched code byte is shown equal to it, and the decoder is shown
  to invert it.
\<close>

definition HTK_COBS_ENC_MAX :: "nat \<Rightarrow> nat" where
  "HTK_COBS_ENC_MAX n = n + n div 254 + 1"

subsection \<open>The encoder\<close>

text \<open>\<open>out\<close> is \<open>out[0..out_len)\<close>, so \<open>out_len\<close> is its length.\<close>

fun cobs_enc_loop :: "bytes \<Rightarrow> nat \<Rightarrow> bytes \<Rightarrow> nat \<Rightarrow> u8 \<Rightarrow> bytes option" where
  "cobs_enc_loop [] out_cap out code_pos code = Some (out[code_pos := code])"
| "cobs_enc_loop (b # bs) out_cap out code_pos code =
     (if b = 0 then
        (let out = out[code_pos := code] in
         if length out \<ge> out_cap then None
         else cobs_enc_loop bs out_cap (out @ [0]) (length out) 1)
      else if length out \<ge> out_cap then None
      else
        (let out = out @ [b]; code = code + 1 in
         if code = 0xFF then
           (let out = out[code_pos := code] in
            if length out \<ge> out_cap then None
            else cobs_enc_loop bs out_cap (out @ [0]) (length out) 1)
         else cobs_enc_loop bs out_cap out code_pos code))"

definition htk_cobs_encode :: "bytes \<Rightarrow> nat \<Rightarrow> bytes" where
  "htk_cobs_encode inp out_cap =
     (if out_cap = 0 then []
      else (case cobs_enc_loop inp out_cap [0] 0 1 of None \<Rightarrow> [] | Some out \<Rightarrow> out))"

subsection \<open>The decoder\<close>

text \<open>The inner \<^verbatim>\<open>for\<close>: copy \<open>n\<close> bytes of \<open>inp\<close> (\<open>in[i..)\<close>) behind \<open>out\<close>.\<close>

fun cobs_copy :: "nat \<Rightarrow> bytes \<Rightarrow> nat \<Rightarrow> bytes \<Rightarrow> (bytes \<times> bytes) option" where
  "cobs_copy 0 inp out_cap out = Some (out, inp)"
| "cobs_copy (Suc n) inp out_cap out =
     (if length out \<ge> out_cap then None
      else (case inp of [] \<Rightarrow> None | b # inp \<Rightarrow> cobs_copy n inp out_cap (out @ [b])))"

lemma cobs_copy_length:
  "cobs_copy n inp cap out = Some (out', inp') \<Longrightarrow> length inp' \<le> length inp"
  by (induction n inp cap out rule: cobs_copy.induct) (auto split: if_splits list.splits)

function (sequential) cobs_dec_loop :: "bytes \<Rightarrow> nat \<Rightarrow> bytes \<Rightarrow> bytes option" where
  "cobs_dec_loop [] out_cap out = Some out"
| "cobs_dec_loop (code # inp) out_cap out =
     (if code = 0 \<or> unat code - 1 > length inp then None
      else
        (case cobs_copy (unat code - 1) inp out_cap out of
           None \<Rightarrow> None
         | Some (out, inp) \<Rightarrow>
             (if code < 0xFF \<and> inp \<noteq> [] then
                (if length out \<ge> out_cap then None else cobs_dec_loop inp out_cap (out @ [0]))
              else cobs_dec_loop inp out_cap out)))"
  by pat_completeness auto
termination
  by (relation "measure (\<lambda>(inp, out_cap, out). length inp)") (auto dest!: cobs_copy_length)

definition htk_cobs_decode :: "bytes \<Rightarrow> nat \<Rightarrow> bytes" where
  "htk_cobs_decode inp out_cap =
     (case cobs_dec_loop inp out_cap [] of None \<Rightarrow> [] | Some out \<Rightarrow> out)"

subsection \<open>The reference encoding\<close>

text \<open>
  \<open>cobs_run\<close> carries the run of non-zero bytes read since the last code byte. A run of 254 bytes
  is closed with code \<open>0xFF\<close>, which stands for no zero byte.
\<close>

fun cobs_run :: "bytes \<Rightarrow> bytes \<Rightarrow> bytes" where
  "cobs_run run [] = of_nat (length run + 1) # run"
| "cobs_run run (b # bs) =
     (if b = 0 then of_nat (length run + 1) # run @ cobs_run [] bs
      else if length run + 1 = 254 then 0xFF # run @ [b] @ cobs_run [] bs
      else cobs_run (run @ [b]) bs)"

definition cobs_ref :: "bytes \<Rightarrow> bytes" where
  "cobs_ref bs = cobs_run [] bs"

text \<open>
  The loop invariant: what is written is the finished part \<open>pre\<close>, the placeholder of the code
  byte, and the current run.
\<close>

lemma cobs_run_length_pos: "length run < length (cobs_run run bs)"
  by (induction run bs rule: cobs_run.induct) auto

lemma unat_code:
  "length (run :: bytes) < 254 \<Longrightarrow> unat (of_nat (length run + 1) :: u8) = length run + 1"
  by (simp only: unat_of_nat) simp

lemma code_nonzero: "length (run :: bytes) < 254 \<Longrightarrow> of_nat (length run + 1) \<noteq> (0 :: u8)"
  using unat_code [of run] by (metis add_gr_0 less_numeral_extra(1) not_less_zero unat_0)

lemma code_full:
  "length (run :: bytes) < 254 \<Longrightarrow>
    of_nat (length run + 1) + (1::u8) = 0xFF \<longleftrightarrow> length run + 1 = 254"
  by (auto simp: word_unat_eq_iff unat_word_ariths unat_of_nat)

lemma cobs_enc_loop_run:
  assumes "length run < 254" and "length pre + 1 + length run \<le> cap"
  shows "cobs_enc_loop bs cap (pre @ [x] @ run) (length pre) (of_nat (length run + 1)) =
         (if length pre + length (cobs_run run bs) \<le> cap then Some (pre @ cobs_run run bs) else None)"
  using assms
proof (induction run bs arbitrary: pre x rule: cobs_run.induct)
  case (1 run)
  then show ?case by simp
next
  case (2 run b bs)
  have IHz: "cobs_enc_loop bs cap (pre' @ [0] @ []) (length pre') (of_nat (length ([]::bytes) + 1)) =
      (if length pre' + length (cobs_run [] bs) \<le> cap then Some (pre' @ cobs_run [] bs) else None)"
    if "b = 0 \<or> (b \<noteq> 0 \<and> length run + 1 = 254)" "length pre' + 1 \<le> cap" for pre'
    using that "2.IH"(1) [of pre' 0] "2.IH"(2) [of pre' 0] by auto
  obtain k where pos: "length (cobs_run [] bs) = Suc k"
    using cobs_run_length_pos [of "[]" bs] by (cases "length (cobs_run [] bs)") auto
  show ?case
  proof (cases "b = 0")
    case True
    then show ?thesis
      using IHz [of "pre @ of_nat (length run + 1) # run"] pos "2.prems"
      by (auto simp: Let_def)
  next
    case False
    note nz = this
    show ?thesis
    proof (cases "length run + 1 = 254")
      case True
      with nz show ?thesis
        using IHz [of "pre @ 0xFF # run @ [b]"] pos "2.prems" code_full [of run]
        by (auto simp: Let_def)
    next
      case False
      have "cobs_enc_loop bs cap (pre @ [x] @ (run @ [b])) (length pre) (of_nat (length (run @ [b]) + 1)) =
        (if length pre + length (cobs_run (run @ [b]) bs) \<le> cap
         then Some (pre @ cobs_run (run @ [b]) bs) else None)"
        if "length pre + 1 + length (run @ [b]) \<le> cap"
        using "2.IH"(3) [of pre x] nz False that "2.prems"(1) by auto
      with nz False show ?thesis
        using "2.prems" code_full [of run] cobs_run_length_pos [of "run @ [b]" bs]
        by (auto simp: Let_def add.commute)
    qed
  qed
qed

lemma htk_cobs_encode_ref:
  "htk_cobs_encode bs cap = (if length (cobs_ref bs) \<le> cap then cobs_ref bs else [])"
  using cobs_enc_loop_run [of "[]" "[]" cap bs 0] cobs_run_length_pos [of "[]" bs]
  by (auto simp: htk_cobs_encode_def cobs_ref_def)

subsection \<open>Shape of the encoding\<close>

lemma cobs_run_no_zero:
  "0 \<notin> set run \<Longrightarrow> length run < 254 \<Longrightarrow> 0 \<notin> set (cobs_run run bs)"
proof (induction run bs rule: cobs_run.induct)
  case (1 run)
  then show ?case using code_nonzero [of run] by auto
next
  case (2 run b bs)
  then show ?case using code_nonzero [of run] by auto
qed

lemma cobs_ref_no_zero: "0 \<notin> set (cobs_ref bs)"
  by (simp add: cobs_ref_def cobs_run_no_zero)

lemma cobs_run_length_le:
  "length run < 254 \<Longrightarrow>
    length (cobs_run run bs) \<le> length run + length bs + (length run + length bs) div 254 + 1"
proof (induction run bs rule: cobs_run.induct)
  case (1 run)
  then show ?case by simp
next
  case (2 run b bs)
  show ?case
  proof (cases "b = 0")
    case True
    have "length bs div 254 \<le> (length run + Suc (length bs)) div 254" by (simp add: div_le_mono)
    with True 2 show ?thesis by simp
  next
    case False
    show ?thesis
    proof (cases "length run + 1 = 254")
      case True
      then have "(length run + Suc (length bs)) div 254 = length bs div 254 + 1" by simp
      with True False 2 show ?thesis by simp
    next
      case f: False
      with False 2 show ?thesis by simp
    qed
  qed
qed

lemma cobs_ref_length_le: "length (cobs_ref bs) \<le> HTK_COBS_ENC_MAX (length bs)"
  using cobs_run_length_le [of "[]" bs] by (simp add: cobs_ref_def HTK_COBS_ENC_MAX_def)

lemma cobs_ref_length_pos: "0 < length (cobs_ref bs)"
  using cobs_run_length_pos [of "[]" bs] by (simp add: cobs_ref_def)

subsection \<open>The decoder inverts the encoder\<close>

lemma cobs_copy_run:
  "length out + length run \<le> cap \<Longrightarrow>
    cobs_copy (length run) (run @ rest) cap out = Some (out @ run, rest)"
  by (induction run arbitrary: out) auto

lemma cobs_copy_overflow:
  "length out \<le> cap \<Longrightarrow> cap < length out + n \<Longrightarrow> cobs_copy n inp cap out = None"
  by (induction n arbitrary: out inp) (auto split: list.splits)

lemma cobs_dec_loop_block:
  assumes "length run < 254" and "length out + length run \<le> cap"
  shows "cobs_dec_loop (of_nat (length run + 1) # run @ rest) cap out =
    (if rest \<noteq> [] then
       (if length out + length run \<ge> cap then None else cobs_dec_loop rest cap (out @ run @ [0]))
     else Some (out @ run))"
proof -
  let ?c = "of_nat (length run + 1) :: u8"
  have u: "unat ?c = length run + 1" using assms(1) by (rule unat_code)
  have "?c \<noteq> 0" using assms(1) by (rule code_nonzero)
  moreover have "?c < 0xFF" using u assms(1) by (simp add: word_less_nat_alt)
  ultimately show ?thesis
    using u cobs_copy_run [OF assms(2), of rest] by (subst cobs_dec_loop.simps) (auto simp del: of_nat_add)
qed

lemma cobs_dec_loop_full:
  assumes "length run = 254" and "length out + 254 \<le> cap"
  shows "cobs_dec_loop (0xFF # run @ rest) cap out = cobs_dec_loop rest cap (out @ run)"
  using cobs_copy_run [of out run cap rest] assms by (subst cobs_dec_loop.simps) auto

lemma cobs_dec_loop_run:
  assumes "length run < 254" and "length out + length run + length bs \<le> cap"
  shows "cobs_dec_loop (cobs_run run bs) cap out = Some (out @ run @ bs)"
  using assms
proof (induction run bs arbitrary: out rule: cobs_run.induct)
  case (1 run)
  then show ?case using cobs_dec_loop_block [of run out cap "[]"] by simp
next
  case (2 run b bs)
  have ne: "cobs_run [] bs \<noteq> []" using cobs_run_length_pos [of "[]" bs] by auto
  show ?case
  proof (cases "b = 0")
    case True
    then show ?thesis
      using cobs_dec_loop_block [of run out cap "cobs_run [] bs"] ne
        "2.IH"(1) [of "out @ run @ [0]"] "2.prems" by simp
  next
    case nz: False
    show ?thesis
    proof (cases "length run + 1 = 254")
      case True
      then show ?thesis
        using cobs_dec_loop_full [of "run @ [b]" out cap "cobs_run [] bs"] nz
          "2.IH"(2) [of "out @ run @ [b]"] "2.prems" by simp
    next
      case False
      with nz show ?thesis using "2.IH"(3) [of out] "2.prems" by simp
    qed
  qed
qed

lemma htk_cobs_decode_ref:
  "length bs \<le> cap \<Longrightarrow> htk_cobs_decode (cobs_ref bs) cap = bs"
  using cobs_dec_loop_run [of "[]" "[]" bs cap] by (simp add: htk_cobs_decode_def cobs_ref_def)

subsection \<open>Bounds of the decoder, on any input\<close>

lemma cobs_copy_out:
  "cobs_copy n inp cap out = Some (out', inp') \<Longrightarrow>
    out' = out @ take n inp \<and> inp' = drop n inp \<and> n \<le> length inp \<and> (0 < n \<longrightarrow> length out' \<le> cap)"
  by (induction n inp cap out rule: cobs_copy.induct) (auto split: if_splits list.splits)

lemma cobs_dec_loop_cap:
  "cobs_dec_loop inp cap out = Some r \<Longrightarrow> length out \<le> cap \<Longrightarrow> length r \<le> cap"
proof (induction inp cap out rule: cobs_dec_loop.induct)
  case (2 code inp cap out)
  from "2.prems" obtain out' inp' where c: "code \<noteq> 0" "unat code - 1 \<le> length inp"
      "cobs_copy (unat code - 1) inp cap out = Some (out', inp')"
    by (auto split: if_splits option.splits)
  have "length out' \<le> cap" using cobs_copy_out [OF c(3)] "2.prems"(2) by (cases "unat code - 1") auto
  with c "2.IH" "2.prems" show ?case by (auto simp: not_le split: if_splits)
qed simp

lemma htk_cobs_decode_length: "length (htk_cobs_decode inp cap) \<le> cap"
  by (auto simp: htk_cobs_decode_def dest: cobs_dec_loop_cap split: option.splits)

text \<open>Whatever the buffer, the reference encoding decodes to its input or not at all.\<close>

lemma cobs_copy_mono:
  "cobs_copy n inp cap out = Some r \<Longrightarrow> cap \<le> cap' \<Longrightarrow> cobs_copy n inp cap' out = Some r"
  by (induction n inp cap out rule: cobs_copy.induct) (auto split: if_splits list.splits)

lemma cobs_dec_loop_mono:
  "cobs_dec_loop inp cap out = Some r \<Longrightarrow> cap \<le> cap' \<Longrightarrow> cobs_dec_loop inp cap' out = Some r"
proof (induction inp cap out rule: cobs_dec_loop.induct)
  case (2 code inp cap out)
  from "2.prems" obtain out' inp' where c: "code \<noteq> 0" "unat code - 1 \<le> length inp"
      "cobs_copy (unat code - 1) inp cap out = Some (out', inp')"
    by (auto split: if_splits option.splits)
  from cobs_copy_mono [OF c(3) "2.prems"(2)] c "2.IH" "2.prems" show ?case
    by (auto simp: not_le split: if_splits)
qed simp

lemma htk_cobs_decode_ref_nonempty:
  assumes "htk_cobs_decode (cobs_ref bs) cap \<noteq> []"
  shows "htk_cobs_decode (cobs_ref bs) cap = bs"
proof -
  from assms obtain r where r: "cobs_dec_loop (cobs_ref bs) cap [] = Some r"
    by (auto simp: htk_cobs_decode_def split: option.splits)
  then have "cobs_dec_loop (cobs_ref bs) (max cap (length bs)) [] = Some r"
    by (rule cobs_dec_loop_mono) simp
  moreover have "cobs_dec_loop (cobs_ref bs) (max cap (length bs)) [] = Some bs"
    using cobs_dec_loop_run [of "[]" "[]" bs "max cap (length bs)"] by (simp add: cobs_ref_def)
  ultimately show ?thesis using r by (simp add: htk_cobs_decode_def)
qed

lemma cobs_dec_loop_shrinks:
  "cobs_dec_loop inp cap out = Some r \<Longrightarrow> inp \<noteq> [] \<Longrightarrow> length r < length out + length inp"
proof (induction inp cap out rule: cobs_dec_loop.induct)
  case (2 code inp cap out)
  from "2.prems" obtain out' inp' where c: "code \<noteq> 0" "unat code - 1 \<le> length inp"
      "cobs_copy (unat code - 1) inp cap out = Some (out', inp')"
    by (auto split: if_splits option.splits)
  have len: "length out' + length inp' = length out + length inp"
    using cobs_copy_out [OF c(3)] by auto
  show ?case
  proof (cases "inp' = []")
    case True
    with c "2.prems" len show ?thesis by (auto split: if_splits)
  next
    case False
    with c "2.IH" "2.prems" len show ?thesis by (fastforce split: if_splits)
  qed
qed simp

subsection \<open>Properties\<close>

text \<open>C27. The one-pass encoder of the source, with its back-patched code byte and its early returns
  on a full buffer, computes the textbook encoding exactly when that fits the buffer, and returns 0
  otherwise.\<close>

theorem cobs_encoder_refines_reference:
  "htk_cobs_encode bs out_cap = (if length (cobs_ref bs) \<le> out_cap then cobs_ref bs else [])"
  by (rule htk_cobs_encode_ref)

text \<open>Round trip: with a buffer of the documented worst-case size the encoder succeeds, its output
  has no zero byte and stays within that size, and the decoder gives the input back.\<close>

theorem cobs_roundtrip:
  assumes "HTK_COBS_ENC_MAX (length bs) \<le> enc_cap" and "length bs \<le> dec_cap"
  shows "htk_cobs_encode bs enc_cap \<noteq> [] \<and>
    0 \<notin> set (htk_cobs_encode bs enc_cap) \<and>
    length (htk_cobs_encode bs enc_cap) \<le> HTK_COBS_ENC_MAX (length bs) \<and>
    (htk_cobs_decode (htk_cobs_encode bs enc_cap) dec_cap = bs)"
  using assms cobs_ref_length_le [of bs] cobs_ref_length_pos [of bs] cobs_ref_no_zero [of bs]
  by (auto simp: htk_cobs_encode_ref htk_cobs_decode_ref)

theorem cobs_roundtrip_witness:
  "htk_cobs_encode [1, 0, 2] 4 = [2, 1, 2, 2] \<and> htk_cobs_decode (htk_cobs_encode [1, 0, 2] 4) 3 = [1, 0, 2]"
proof
  show "htk_cobs_encode [1, 0, 2] 4 = [2, 1, 2, 2]" by code_simp
  show "htk_cobs_decode (htk_cobs_encode [1, 0, 2] 4) 3 = [1, 0, 2]"
    by (rule cobs_roundtrip [THEN conjunct2, THEN conjunct2, THEN conjunct2]) (simp_all add: HTK_COBS_ENC_MAX_def)
qed

text \<open>The decoder on any input, damaged or not: it never writes past the caller's buffer, and what
  it returns is shorter than what it read.\<close>

theorem cobs_decode_bounded:
  "length (htk_cobs_decode inp cap) \<le> cap \<and> length (htk_cobs_decode inp cap) \<le> length inp - 1"
  by (auto simp: htk_cobs_decode_length)
    (cases "inp = []"; auto simp: htk_cobs_decode_def dest!: cobs_dec_loop_shrinks split: option.split)

end
