(* ===== verification/Frame.thy ===== *)
theory Frame
  imports Protocol Crc16 Cobs
begin

text \<open>
  \<^verbatim>\<open>firmware/common/protocol/htk_frame.c\<close>: a frame is COBS of the payload and its little-endian
  CRC, closed by a zero byte. As in \<open>Cobs\<close>, the models return \<open>out[0..ret)\<close>, the empty list for the
  return value 0.

  The locale \<open>framing\<close> is what the two receivers of the system (the host's push parser and the
  dongle's command reader) rely on: a frame is a zero-free block of bounded length and its
  delimiter, and the block decodes to the payload.
\<close>

definition htk_frame_encode :: "bytes \<Rightarrow> nat \<Rightarrow> bytes" where
  "htk_frame_encode payload out_cap =
     (if length payload = 0 \<or> length payload > HTK_MAX_PAYLOAD then []
      else
        (let crc = htk_crc16 payload;
             buf = payload @ [ucast (crc AND 0xFF), ucast (drop_bit 8 crc)];
             enc = htk_cobs_encode buf out_cap in
         if length enc = 0 \<or> length enc + 1 > out_cap then [] else enc @ [0x00]))"

definition htk_frame_decode :: "bytes \<Rightarrow> nat \<Rightarrow> bytes" where
  "htk_frame_decode block out_cap =
     (let buf = htk_cobs_decode block (HTK_MAX_PAYLOAD + 2) in
      if length buf < 3 then []
      else
        (let plen = length buf - 2;
             rx_crc = mk16 (buf ! plen) (buf ! (plen + 1)) in
         if htk_crc16 (take plen buf) \<noteq> rx_crc then []
         else if plen > out_cap then []
         else take plen buf))"

text \<open>A payload the encoder accepts, and the block it puts on the wire for it.\<close>

definition payload_ok :: "bytes \<Rightarrow> bool" where
  "payload_ok p \<longleftrightarrow> p \<noteq> [] \<and> length p \<le> HTK_MAX_PAYLOAD"

definition frame_block :: "bytes \<Rightarrow> bytes" where
  "frame_block p = cobs_ref (p @ le16 (htk_crc16 p))"

subsection \<open>The encoder\<close>

lemma crc_trailer: "[ucast (crc AND 0xFF), ucast (drop_bit 8 crc)] = le16 (crc :: u16)"
proof -
  have "ucast (crc AND mask 8) = (ucast crc :: u8)"
    by (rule bit_word_eqI) (simp add: bit_simps)
  moreover have "(mask 8 :: u16) = 0xFF" by (simp add: mask_eq_exp_minus_1)
  ultimately have "ucast (crc AND 0xFF) = (ucast crc :: u8)" by metis
  then show ?thesis by (simp add: le16_def byte_of_def)
qed

lemma frame_block_length:
  "length p \<le> HTK_MAX_PAYLOAD \<Longrightarrow> length (frame_block p) \<le> length p + 3"
  using cobs_ref_length_le [of "p @ le16 (htk_crc16 p)"]
  by (simp add: frame_block_def HTK_COBS_ENC_MAX_def)

lemma frame_block_pos: "0 < length (frame_block p)"
  by (simp only: frame_block_def cobs_ref_length_pos)

lemma frame_block_no_zero: "0 \<notin> set (frame_block p)"
  by (simp add: frame_block_def cobs_ref_no_zero)

lemma htk_frame_encode_eq:
  "htk_frame_encode p cap =
    (if payload_ok p \<and> length (frame_block p) + 1 \<le> cap then frame_block p @ [0] else [])"
  using frame_block_pos [of p]
  by (auto simp: htk_frame_encode_def Let_def crc_trailer htk_cobs_encode_ref frame_block_def
      payload_ok_def)

text \<open>\<open>HTK_MAX_FRAME\<close> always suffices; the longest frame is one byte shorter.\<close>

lemma htk_frame_encode_ok:
  assumes "payload_ok p"
  shows "htk_frame_encode p HTK_MAX_FRAME = frame_block p @ [0]"
    and "length (htk_frame_encode p HTK_MAX_FRAME) \<le> 63"
  using assms frame_block_length [of p] by (auto simp: htk_frame_encode_eq payload_ok_def)

subsection \<open>The decoder\<close>

lemma htk_frame_decode_eq:
  "htk_frame_decode block cap =
    (let buf = htk_cobs_decode block 61 in
     if 3 \<le> length buf \<and> buf = take (length buf - 2) buf @ le16 (htk_crc16 (take (length buf - 2) buf))
        \<and> length buf - 2 \<le> cap
     then take (length buf - 2) buf else [])"
proof -
  have "htk_crc16 (take (length buf - 2) buf) = mk16 (buf ! (length buf - 2)) (buf ! (length buf - 2 + 1))
    \<longleftrightarrow> buf = take (length buf - 2) buf @ le16 (htk_crc16 (take (length buf - 2) buf))"
    if "3 \<le> length buf" for buf
  proof -
    define n where "n = length buf - 2"
    have len: "length buf = n + 2" using that n_def by simp
    have "drop n buf = [buf ! n, buf ! (n + 1)]"
      using len by (intro nth_equalityI) (auto simp: less_Suc_eq nth_Cons split: nat.splits)
    then have split: "buf = take n buf @ [buf ! n, buf ! (n + 1)]"
      by (metis append_take_drop_id)
    show ?thesis
      unfolding n_def [symmetric]
    proof
      assume "htk_crc16 (take n buf) = mk16 (buf ! n) (buf ! (n + 1))"
      then have "le16 (htk_crc16 (take n buf)) = [buf ! n, buf ! (n + 1)]" by (simp add: le16_def)
      with split show "buf = take n buf @ le16 (htk_crc16 (take n buf))" by simp
    next
      assume "buf = take n buf @ le16 (htk_crc16 (take n buf))"
      with split have "le16 (htk_crc16 (take n buf)) = [buf ! n, buf ! (n + 1)]"
        by (metis same_append_eq)
      then show "htk_crc16 (take n buf) = mk16 (buf ! n) (buf ! (n + 1))"
        by (simp add: le16_def) (metis mk16_byte_of)
    qed
  qed
  then show ?thesis by (auto simp: htk_frame_decode_def Let_def)
qed

lemma htk_frame_decode_block:
  assumes "payload_ok p" and "length p \<le> cap"
  shows "htk_frame_decode (frame_block p) cap = p"
proof -
  have "htk_cobs_decode (frame_block p) 61 = p @ le16 (htk_crc16 p)"
    using assms by (simp add: frame_block_def htk_cobs_decode_ref payload_ok_def)
  then show ?thesis using assms by (simp add: htk_frame_decode_eq payload_ok_def Suc_le_eq)
qed

text \<open>What acceptance means: the block unstuffs to the payload and the payload's own checksum.\<close>

lemma htk_frame_decode_sound:
  assumes "htk_frame_decode block cap = p" and "p \<noteq> []"
  shows "htk_cobs_decode block 61 = p @ le16 (htk_crc16 p)" and "payload_ok p" and "length p \<le> cap"
proof -
  let ?buf = "htk_cobs_decode block 61"
  from assms have *: "3 \<le> length ?buf" "?buf = p @ le16 (htk_crc16 p)" "length p \<le> cap"
    by (auto simp: htk_frame_decode_eq Let_def split: if_splits)
  show "?buf = p @ le16 (htk_crc16 p)" "length p \<le> cap" using * by simp_all
  have "length ?buf \<le> 61" by (rule htk_cobs_decode_length)
  with * show "payload_ok p" using assms(2) by (simp add: payload_ok_def)
qed

subsection \<open>Properties\<close>

text \<open>C25. Frame round trip: every payload of 1 to 59 bytes becomes a frame of at most 63 bytes (one
  full-speed bulk packet, one byte less than the buffers), whose only zero byte is its last, and which
  decodes to the payload.\<close>

theorem frame_roundtrip:
  assumes "payload_ok p"
  shows "length (htk_frame_encode p HTK_MAX_FRAME) \<le> 63 \<and>
    (\<exists>blk. htk_frame_encode p HTK_MAX_FRAME = blk @ [0] \<and> blk \<noteq> [] \<and> 0 \<notin> set blk \<and>
           htk_frame_decode blk HTK_MAX_PAYLOAD = p)"
proof (rule conjI)
  show "length (htk_frame_encode p HTK_MAX_FRAME) \<le> 63" using assms by (rule htk_frame_encode_ok(2))
  have "htk_frame_encode p HTK_MAX_FRAME = frame_block p @ [0]"
    using assms by (rule htk_frame_encode_ok(1))
  moreover have "htk_frame_decode (frame_block p) HTK_MAX_PAYLOAD = p"
    using assms by (simp add: htk_frame_decode_block payload_ok_def)
  moreover have "frame_block p \<noteq> []" using frame_block_pos [of p] by auto
  ultimately show "\<exists>blk. htk_frame_encode p HTK_MAX_FRAME = blk @ [0] \<and> blk \<noteq> [] \<and> 0 \<notin> set blk \<and>
      htk_frame_decode blk HTK_MAX_PAYLOAD = p"
    using frame_block_no_zero by blast
qed

theorem frame_roundtrip_witness:
  "payload_ok [0x11, 0x34, 0x12] \<and>
   htk_frame_encode [0x11, 0x34, 0x12] HTK_MAX_FRAME = [0x06, 0x11, 0x34, 0x12, 0xED, 0x43, 0x00] \<and>
   length (htk_frame_encode [0x11, 0x34, 0x12] HTK_MAX_FRAME) \<le> 63"
proof (intro conjI)
  show ok: "payload_ok [0x11, 0x34, 0x12]" by (simp add: payload_ok_def)
  show "htk_frame_encode [0x11, 0x34, 0x12] HTK_MAX_FRAME = [0x06, 0x11, 0x34, 0x12, 0xED, 0x43, 0x00]"
    by code_simp
  show "length (htk_frame_encode [0x11, 0x34, 0x12] HTK_MAX_FRAME) \<le> 63"
    using ok by (rule frame_roundtrip [THEN conjunct1])
qed

text \<open>Error branches of the frame encoder: it fails exactly on an empty payload, a payload above
  59 bytes, or a buffer that the stuffed payload, its checksum and the delimiter do not fit.\<close>

theorem frame_encode_fails_iff:
  "htk_frame_encode p cap = [] \<longleftrightarrow>
     length p = 0 \<or> length p > HTK_MAX_PAYLOAD \<or> cap \<le> length (cobs_ref (p @ le16 (htk_crc16 p)))"
  by (auto simp: htk_frame_encode_eq payload_ok_def frame_block_def)

text \<open>C26. Damage confined to two adjacent bytes of a payload never passes the frame decoder: the block
  that carries the damaged payload with the original checksum is rejected.\<close>

theorem frame_rejects_adjacent_damage:
  assumes "(a', b') \<noteq> (a, b)"
  shows "htk_frame_decode (cobs_ref ((xs @ [a', b'] @ zs) @ le16 (htk_crc16 (xs @ [a, b] @ zs)))) cap = []"
proof (rule ccontr)
  let ?damaged = "xs @ [a', b'] @ zs" and ?crc = "htk_crc16 (xs @ [a, b] @ zs)"
  let ?blk = "cobs_ref (?damaged @ le16 ?crc)"
  assume acc: "htk_frame_decode ?blk cap \<noteq> []"
  define p where "p = htk_frame_decode ?blk cap"
  have dec: "htk_cobs_decode ?blk 61 = p @ le16 (htk_crc16 p)" and "p \<noteq> []"
    using htk_frame_decode_sound(1) [of ?blk cap p] acc by (auto simp: p_def)
  then have "htk_cobs_decode ?blk 61 \<noteq> []" by simp
  then have "htk_cobs_decode ?blk 61 = ?damaged @ le16 ?crc" by (rule htk_cobs_decode_ref_nonempty)
  with dec have "p @ le16 (htk_crc16 p) = ?damaged @ le16 ?crc" by (simp only:)
  then have "p = ?damaged \<and> le16 (htk_crc16 p) = le16 ?crc"
    by (rule append_eq_append_conv [THEN iffD1, rotated]) simp
  then have "htk_crc16 ?damaged = ?crc" by (metis le16_inj)
  then show False using crc16_two_byte_window [of xs a' b' zs a b] assms by simp
qed

theorem frame_rejects_adjacent_damage_witness:
  "((0x35 :: u8), (0x12 :: u8)) \<noteq> (0x34, 0x12) \<and>
   htk_frame_decode (cobs_ref (([0x11] @ [0x35, 0x12] @ []) @ le16 (htk_crc16 ([0x11] @ [0x34, 0x12] @ [])))) 59 = []"
proof
  show *: "((0x35 :: u8), (0x12 :: u8)) \<noteq> (0x34, 0x12)" by simp
  show "htk_frame_decode (cobs_ref (([0x11] @ [0x35, 0x12] @ []) @
      le16 (htk_crc16 ([0x11] @ [0x34, 0x12] @ [])))) 59 = []"
    by (rule frame_rejects_adjacent_damage [OF *])
qed

text \<open>The normative test vectors of \<^verbatim>\<open>docs/PROTOCOL.md\<close>: the CRC check value, and the worked frames of
  RESET_FUSION, SET_MODE, IDENTIFY, HELLO, HELLO_RESP, ORIENT and TRACKER_STAT, byte for byte.\<close>

theorem protocol_worked_examples:
  "htk_crc16 [0x31, 0x32, 0x33, 0x34, 0x35, 0x36, 0x37, 0x38, 0x39] = HTK_CRC16_CHECK \<and>
   htk_frame_encode (enc_cmd_id \<lparr>ci_type = HTK_PKT_RESET_FUSION, ci_id = 0x1234\<rparr>) HTK_MAX_FRAME =
     [0x06, 0x11, 0x34, 0x12, 0xED, 0x43, 0x00] \<and>
   htk_frame_encode (enc_set_mode \<lparr>sm_type = HTK_PKT_SET_MODE, sm_id = 0x1234, sm_mode = HTK_MODE_RAW\<rparr>)
     HTK_MAX_FRAME = [0x07, 0x13, 0x34, 0x12, 0x01, 0xEE, 0x68, 0x00] \<and>
   htk_frame_encode (enc_cmd_id \<lparr>ci_type = HTK_PKT_IDENTIFY, ci_id = 0x1234\<rparr>) HTK_MAX_FRAME =
     [0x06, 0x15, 0x34, 0x12, 0x2D, 0x9F, 0x00] \<and>
   htk_frame_encode (enc_hello \<lparr>he_type = HTK_PKT_HELLO, he_proto_ver = HTK_PROTO_VERSION\<rparr>) HTK_MAX_FRAME =
     [0x05, 0x10, 0x01, 0x5D, 0x0E, 0x00] \<and>
   htk_frame_encode (enc_hello_resp \<lparr>hr_type = HTK_PKT_HELLO_RESP, hr_proto_ver = HTK_PROTO_VERSION,
     hr_fw_major = HTK_FW_MAJOR, hr_fw_minor = HTK_FW_MINOR, hr_fw_patch = HTK_FW_PATCH, hr_device = 1,
     hr_caps = HTK_CAP_QUAT OR HTK_CAP_RAW OR HTK_CAP_SIM OR HTK_CAP_MULTI\<rparr>) HTK_MAX_FRAME =
     [0x03, 0x04, 0x01, 0x02, 0x01, 0x03, 0x01, 0x17, 0x03, 0xB7, 0x81, 0x00] \<and>
   htk_frame_encode (enc_orient \<lparr>or_type = HTK_PKT_ORIENT, or_id = 0x1234, or_seq = 42, or_t_us = 1000000,
     or_q_w = 0x3F800000, or_q_x = 0, or_q_y = 0, or_q_z = 0, or_flags = HTK_ORIENT_BIAS_OK\<rparr>) HTK_MAX_FRAME =
     [0x05, 0x01, 0x34, 0x12, 0x2A, 0x04, 0x40, 0x42, 0x0F, 0x01, 0x01, 0x03, 0x80, 0x3F, 0x01, 0x01,
      0x01, 0x01, 0x01, 0x01, 0x01, 0x01, 0x01, 0x01, 0x01, 0x04, 0x02, 0x5F, 0xF9, 0x00] \<and>
   htk_frame_encode (enc_tracker_stat \<lparr>ts_type = HTK_PKT_TRACKER_STAT, ts_id = 0x1234, ts_age_ms = 5,
     ts_rate = 208, ts_seq_lost = 3, ts_vbat_mV = 4012, ts_fw_major = 0, ts_fw_minor = 1, ts_fw_patch = 0,
     ts_mode = HTK_MODE_QUAT, ts_flags = HTK_TSTAT_LINK_UP\<rparr>) HTK_MAX_FRAME =
     [0x05, 0x05, 0x34, 0x12, 0x05, 0x01, 0x01, 0x02, 0xD0, 0x02, 0x03, 0x01, 0x01, 0x03, 0xAC, 0x0F,
      0x02, 0x01, 0x01, 0x04, 0x01, 0x25, 0xE9, 0x00]"
  by (intro conjI; code_simp)

end
