(* ===== verification/Deframe.thy ===== *)
theory Deframe
  imports Frame
begin

text \<open>
  The contract of a receiver. Both ends of the USB pipe cut a byte stream at zero bytes, keep the
  bytes since the last zero in a bounded buffer, hand complete blocks to the frame decoder, and
  skip to the next zero when the buffer overflows: \<^verbatim>\<open>Parser::feed\<close> on the host,
  \<^verbatim>\<open>rx_work_fn\<close> on the dongle. The locale \<open>deframer\<close> states that contract for one byte; its
  lemmas say what a whole stream does to the receiver. \<open>link\<close> puts a frame encoder in front of a
  receiver.
\<close>

subsection \<open>Cutting a stream at zero bytes\<close>

text \<open>The complete segments of a stream, and the unfinished rest.\<close>

fun cut :: "bytes \<Rightarrow> bytes \<Rightarrow> bytes list \<times> bytes" where
  "cut seg [] = ([], seg)"
| "cut seg (b # bs) =
     (if b = 0 then (case cut [] bs of (segs, rest) \<Rightarrow> (seg # segs, rest))
      else cut (seg @ [b]) bs)"

lemma cut_segment: "0 \<notin> set blk \<Longrightarrow> cut seg (blk @ 0 # bs) =
    (case cut [] bs of (segs, rest) \<Rightarrow> ((seg @ blk) # segs, rest))"
  by (induction blk arbitrary: seg) auto

lemma cut_noise:
  "cut seg (xs @ 0 # bs) =
    (case cut seg xs of (segs, rest) \<Rightarrow> case cut [] bs of (segs', rest') \<Rightarrow>
      (segs @ rest # segs', rest'))"
  by (induction seg xs rule: cut.induct) (auto split: prod.splits)

subsection \<open>One receiver\<close>

locale deframer =
  fixes step :: "u8 \<Rightarrow> 's \<Rightarrow> 's"
    and view :: "'s \<Rightarrow> bytes option"  \<comment> \<open>the open block; \<open>None\<close> while skipping\<close>
    and obs :: "'s \<Rightarrow> 'o"             \<comment> \<open>everything else\<close>
    and proc :: "bytes \<Rightarrow> 'o \<Rightarrow> 'o"    \<comment> \<open>what a complete block does\<close>
    and over :: "'o \<Rightarrow> 'o"            \<comment> \<open>what an overflow does\<close>
    and cap :: nat
  assumes view_delim: "view (step 0 s) = Some []"
    and obs_delim: "obs (step 0 s) =
      (case view s of None \<Rightarrow> obs s | Some blk \<Rightarrow> if blk = [] then obs s else proc blk (obs s))"
    and step_room: "b \<noteq> 0 \<Longrightarrow> view s = Some blk \<Longrightarrow> length blk < cap \<Longrightarrow>
      view (step b s) = Some (blk @ [b]) \<and> obs (step b s) = obs s"
    and step_full: "b \<noteq> 0 \<Longrightarrow> view s = Some blk \<Longrightarrow> cap \<le> length blk \<Longrightarrow>
      view (step b s) = None \<and> obs (step b s) = over (obs s)"
    and step_skip: "b \<noteq> 0 \<Longrightarrow> view s = None \<Longrightarrow>
      view (step b s) = None \<and> obs (step b s) = obs s"
begin

text \<open>What a complete segment does to the rest of the state.\<close>

definition settle :: "bytes \<Rightarrow> 'o \<Rightarrow> 'o" where
  "settle seg x = (if seg = [] then x else if length seg \<le> cap then proc seg x else over x)"

text \<open>What is known of the buffer after the bytes \<open>seg\<close> since the last zero.\<close>

definition open_view :: "bytes \<Rightarrow> bytes option" where
  "open_view seg = (if length seg \<le> cap then Some seg else None)"

definition open_obs :: "bytes \<Rightarrow> 'o \<Rightarrow> 'o" where
  "open_obs seg x = (if length seg \<le> cap then x else over x)"

lemma step_open:
  assumes "b \<noteq> 0" "view s = open_view seg" "obs s = open_obs seg x"
  shows "view (step b s) = open_view (seg @ [b]) \<and> obs (step b s) = open_obs (seg @ [b]) x"
  using assms step_room [of b s seg] step_full [of b s seg] step_skip [of b s]
  by (cases "length seg < cap"; cases "length seg = cap") (auto simp: open_view_def open_obs_def)

lemma step_close:
  assumes "view s = open_view seg" "obs s = open_obs seg x"
  shows "view (step 0 s) = open_view [] \<and> obs (step 0 s) = open_obs [] (settle seg x)"
  using assms obs_delim [of s] view_delim [of s]
  by (auto simp: open_view_def open_obs_def settle_def)

text \<open>A receiver refines the cut: any stream, from any point inside a segment.\<close>

lemma feed_cut:
  assumes "view s = open_view seg" "obs s = open_obs seg x"
    and "cut seg bs = (segs, rest)"
  shows "view (fold step bs s) = open_view rest \<and>
         obs (fold step bs s) = open_obs rest (fold settle segs x)"
  using assms
proof (induction seg bs arbitrary: s x segs rest rule: cut.induct)
  case (1 seg)
  then show ?case by simp
next
  case (2 seg b bs)
  show ?case
  proof (cases "b = 0")
    case True
    with "2.prems"(3) obtain segs' where s': "cut [] bs = (segs', rest)" "segs = seg # segs'"
      by (auto split: prod.splits)
    from step_close [OF "2.prems"(1,2)] show ?thesis
      using "2.IH"(1) [OF True _ _ s'(1)] s'(2) True by simp
  next
    case False
    with "2.prems" show ?thesis
      using "2.IH"(2) [OF False] step_open [OF False "2.prems"(1,2)] by simp
  qed
qed

lemma feed_fresh:
  assumes "view s = Some []" and "cut [] bs = (segs, rest)"
  shows "obs (fold step bs s) = open_obs rest (fold settle segs (obs s))"
    and "view (fold step bs s) = open_view rest"
  using feed_cut [of s "[]" "obs s" bs segs rest] assms by (auto simp: open_view_def open_obs_def)

text \<open>Whatever came before, a zero byte leaves the receiver at a block boundary.\<close>

lemma feed_resync: "view (fold step (xs @ [0]) s) = Some []"
  by (simp add: view_delim)

end

subsection \<open>A frame encoder\<close>

locale framing =
  fixes enc :: "bytes \<Rightarrow> bytes" and dec :: "bytes \<Rightarrow> bytes"
    and ok :: "bytes \<Rightarrow> bool" and block :: "bytes \<Rightarrow> bytes" and block_max :: nat
  assumes enc_block: "ok p \<Longrightarrow> enc p = block p @ [0]"
    and block_nonempty: "ok p \<Longrightarrow> block p \<noteq> []"
    and block_no_zero: "ok p \<Longrightarrow> 0 \<notin> set (block p)"
    and block_length: "ok p \<Longrightarrow> length (block p) \<le> block_max"
    and dec_block: "ok p \<Longrightarrow> dec (block p) = p"
    and ok_nonempty: "ok p \<Longrightarrow> p \<noteq> []"
begin

lemma cut_frames:
  "\<forall>p \<in> set ps. ok p \<Longrightarrow> cut [] (concat (map enc ps)) = (map block ps, [])"
  by (induction ps) (auto simp: enc_block cut_segment block_no_zero)

text \<open>The frames of a stream can be read off it: no two sequences of payloads look the same.\<close>

lemma frames_inj:
  assumes "\<forall>p \<in> set ps. ok p" "\<forall>p \<in> set qs. ok p"
    and "concat (map enc ps) = concat (map enc qs)"
  shows "ps = qs"
proof -
  have "map block ps = map block qs" using cut_frames assms by (metis prod.inject)
  then have "map (dec \<circ> block) ps = map (dec \<circ> block) qs" by (metis map_map)
  moreover have "map (dec \<circ> block) ps = ps" if "\<forall>p \<in> set ps. ok p" for ps
    using that by (induction ps) (auto simp: dec_block)
  ultimately show ?thesis using assms(1,2) by simp
qed

end

subsection \<open>An encoder and a receiver\<close>

locale link = framing enc dec ok block block_max + deframer step view obs proc over cap
  for enc dec ok block block_max
    and step :: "u8 \<Rightarrow> 's \<Rightarrow> 's" and view and obs :: "'s \<Rightarrow> 'o" and proc and over and cap +
  fixes bad :: "'o \<Rightarrow> 'o" and handle :: "bytes \<Rightarrow> 'o \<Rightarrow> 'o"
  assumes block_fits: "block_max \<le> cap"
    and proc_dec: "proc blk x = (if dec blk = [] then bad x else handle (dec blk) x)"
begin

lemma settle_block: "ok p \<Longrightarrow> settle (block p) x = handle p x"
  using block_nonempty block_length [of p] block_fits dec_block ok_nonempty
  by (simp add: settle_def proc_dec)

lemma fold_settle_blocks:
  "\<forall>p \<in> set ps. ok p \<Longrightarrow> fold settle (map block ps) x = fold handle ps x"
  by (induction ps arbitrary: x) (auto simp: settle_block)

text \<open>Frames sent back to back are handled once each, in order, and nothing else happens.\<close>

lemma delivers:
  assumes "view s = Some []" and "\<forall>p \<in> set ps. ok p"
  shows "obs (fold step (concat (map enc ps)) s) = fold handle ps (obs s)"
    and "view (fold step (concat (map enc ps)) s) = Some []"
  using feed_fresh [OF assms(1) cut_frames [OF assms(2)]] fold_settle_blocks [OF assms(2)]
  by (simp_all add: open_obs_def open_view_def)

text \<open>The same behind any noise that has reached a zero byte.\<close>

lemma delivers_after_noise:
  assumes "\<forall>p \<in> set ps. ok p"
  shows "obs (fold step (noise @ [0] @ concat (map enc ps)) s) =
         fold handle ps (obs (fold step (noise @ [0]) s))"
proof -
  have "obs (fold step (concat (map enc ps)) (fold step (noise @ [0]) s)) =
        fold handle ps (obs (fold step (noise @ [0]) s))"
    by (rule delivers(1) [OF feed_resync assms])
  then show ?thesis by simp
qed

end

subsection \<open>The frame layer of the protocol is a framing\<close>

text \<open>With the buffer sizes \<open>HTK_MAX_FRAME\<close> (64) and \<open>HTK_MAX_PAYLOAD\<close> (59) written out.\<close>

interpretation htk: framing "\<lambda>p. htk_frame_encode p 64"
    "\<lambda>blk. htk_frame_decode blk 59" payload_ok frame_block 62
proof unfold_locales
  fix p assume ok: "payload_ok p"
  show "htk_frame_encode p 64 = frame_block p @ [0]"
    using htk_frame_encode_ok(1) [OF ok] by simp
  show "frame_block p \<noteq> []" using frame_block_pos [of p] by auto
  show "0 \<notin> set (frame_block p)" by (rule frame_block_no_zero)
  show "length (frame_block p) \<le> 62"
    using ok frame_block_length [of p] by (simp add: payload_ok_def)
  show "htk_frame_decode (frame_block p) 59 = p"
    using ok by (simp add: htk_frame_decode_block payload_ok_def)
  show "p \<noteq> []" using ok by (simp add: payload_ok_def)
qed

end
