(* ===== verification/Parser.thy ===== *)
theory Parser
  imports Deframe
begin

text \<open>
  The push parser of the host library, \<^verbatim>\<open>host/libheadtracker/src/parser.cpp\<close> and
  \<^verbatim>\<open>parser.hpp\<close>. The callbacks (\<^verbatim>\<open>std::function\<close> members, possibly unset) are optional
  functions on an environment \<open>'e\<close> that stands for whatever the application's closures capture;
  the parser threads it through. \<^verbatim>\<open>feed\<close> is the byte loop over \<open>feed_byte\<close>, the loop body.

  The parser is shown to be a \<open>deframer\<close> and, with the frame encoder, a \<open>link\<close>: what the dongle
  frames is what the callbacks see.
\<close>

subsection \<open>Version and flag masks (parser.hpp)\<close>

definition kProtocolVersion :: u8 where [code_defs]: "kProtocolVersion = HTK_PROTO_VERSION"

definition compatible :: "htk_hello_resp \<Rightarrow> bool" where
  "compatible h \<longleftrightarrow> hr_proto_ver h = kProtocolVersion"

definition kKnownOrientFlags :: u8 where
  [code_defs]: "kKnownOrientFlags = HTK_ORIENT_HW_FUSION OR HTK_ORIENT_BIAS_OK OR HTK_ORIENT_SIM OR
     HTK_ORIENT_REST OR HTK_ORIENT_TAP"

definition kKnownStatusFlags :: u8 where [code_defs]: "kKnownStatusFlags = HTK_STATUS_SIM_ACTIVE"

definition kKnownTstatFlags :: u8 where [code_defs]: "kKnownTstatFlags = HTK_TSTAT_LINK_UP"

subsection \<open>State\<close>

record parser_stats =
  frames_ok :: u64
  decode_errors :: u64
  size_mismatch :: u64
  unknown_types :: u64
  oversize_resyncs :: u64

record 'e parser_callbacks =
  on_orient :: "(htk_orient \<Rightarrow> 'e \<Rightarrow> 'e) option"
  on_status :: "(htk_status \<Rightarrow> 'e \<Rightarrow> 'e) option"
  on_tracker_stat :: "(htk_tracker_stat \<Rightarrow> 'e \<Rightarrow> 'e) option"
  on_raw :: "(htk_raw \<Rightarrow> 'e \<Rightarrow> 'e) option"
  on_hello_resp :: "(htk_hello_resp \<Rightarrow> 'e \<Rightarrow> 'e) option"
  on_log :: "(bytes \<Rightarrow> 'e \<Rightarrow> 'e) option"

text \<open>\<open>buf\<close> is \<^verbatim>\<open>buf_[0..buf_len_)\<close>.\<close>

record parser =
  buf :: bytes
  discarding :: bool
  stats :: parser_stats

definition parser_init :: parser where
  "parser_init = \<lparr>buf = [], discarding = False,
     stats = \<lparr>frames_ok = 0, decode_errors = 0, size_mismatch = 0, unknown_types = 0,
              oversize_resyncs = 0\<rparr>\<rparr>"

subsection \<open>Operations\<close>

text \<open>\<^verbatim>\<open>if (cb) cb(x)\<close>.\<close>

definition call :: "('a \<Rightarrow> 'e \<Rightarrow> 'e) option \<Rightarrow> 'a \<Rightarrow> 'e \<Rightarrow> 'e" where
  "call cb x env = (case cb of None \<Rightarrow> env | Some f \<Rightarrow> f x env)"

definition dispatch_exact ::
  "nat \<Rightarrow> (bytes \<Rightarrow> 'a) \<Rightarrow> bytes \<Rightarrow> ('a \<Rightarrow> 'e \<Rightarrow> 'e) option \<Rightarrow> 'e \<Rightarrow> bool \<times> 'e" where
  "dispatch_exact sz dec payload cb env =
     (if length payload \<noteq> sz then (False, env)
      else (True, call cb (dec payload) env))"

text \<open>
  The switch of \<open>process_block\<close> on a decoded payload. \<open>None\<close> is the \<^verbatim>\<open>default\<close> branch, which
  returns early.
\<close>

definition dispatch :: "'e parser_callbacks \<Rightarrow> bytes \<Rightarrow> 'e \<Rightarrow> (bool \<times> 'e) option" where
  "dispatch cbs payload env =
     (let t = payload ! 0 in
      if t = HTK_PKT_ORIENT then Some (dispatch_exact 26 dec_orient payload (on_orient cbs) env)
      else if t = HTK_PKT_STATUS then Some (dispatch_exact 9 dec_status payload (on_status cbs) env)
      else if t = HTK_PKT_TRACKER_STAT then
        Some (dispatch_exact 20 dec_tracker_stat payload (on_tracker_stat cbs) env)
      else if t = HTK_PKT_RAW then Some (dispatch_exact 22 dec_raw payload (on_raw cbs) env)
      else if t = HTK_PKT_HELLO_RESP then
        Some (dispatch_exact 8 dec_hello_resp payload (on_hello_resp cbs) env)
      else if t = HTK_PKT_LOG then
        Some (True, call (on_log cbs) (drop 1 payload) env)
      else None)"

definition process_payload ::
  "'e parser_callbacks \<Rightarrow> bytes \<Rightarrow> parser_stats \<times> 'e \<Rightarrow> parser_stats \<times> 'e" where
  "process_payload cbs payload x = (case x of (st, env) \<Rightarrow>
     case dispatch cbs payload env of
       None \<Rightarrow> (st\<lparr>unknown_types := unknown_types st + 1\<rparr>, env)
     | Some (ok, env) \<Rightarrow>
         (if ok then (st\<lparr>frames_ok := frames_ok st + 1\<rparr>, env)
          else (st\<lparr>size_mismatch := size_mismatch st + 1\<rparr>, env)))"

definition note_decode_error :: "parser_stats \<times> 'e \<Rightarrow> parser_stats \<times> 'e" where
  "note_decode_error x = (case x of (st, env) \<Rightarrow> (st\<lparr>decode_errors := decode_errors st + 1\<rparr>, env))"

definition process_block ::
  "'e parser_callbacks \<Rightarrow> bytes \<Rightarrow> parser_stats \<times> 'e \<Rightarrow> parser_stats \<times> 'e" where
  "process_block cbs blk x =
     (let payload = htk_frame_decode blk HTK_MAX_PAYLOAD in
      if payload = [] then note_decode_error x else process_payload cbs payload x)"

definition feed_byte :: "'e parser_callbacks \<Rightarrow> u8 \<Rightarrow> parser \<times> 'e \<Rightarrow> parser \<times> 'e" where
  "feed_byte cbs b x = (case x of (p, env) \<Rightarrow>
     if b = 0x00 then
       (if discarding p then (p\<lparr>discarding := False, buf := []\<rparr>, env)
        else if buf p \<noteq> [] then
          (case process_block cbs (buf p) (stats p, env) of
             (st, env) \<Rightarrow> (p\<lparr>stats := st, buf := []\<rparr>, env))
        else (p\<lparr>buf := []\<rparr>, env))
     else if discarding p then (p, env)
     else if length (buf p) \<ge> HTK_MAX_FRAME then
       (p\<lparr>discarding := True, buf := [],
          stats := (stats p)\<lparr>oversize_resyncs := oversize_resyncs (stats p) + 1\<rparr>\<rparr>, env)
     else (p\<lparr>buf := buf p @ [b]\<rparr>, env))"

definition feed :: "'e parser_callbacks \<Rightarrow> bytes \<Rightarrow> parser \<times> 'e \<Rightarrow> parser \<times> 'e" where
  "feed cbs data = fold (feed_byte cbs) data"

definition parser_reset :: "parser \<Rightarrow> parser" where
  "parser_reset p = p\<lparr>buf := [], discarding := False\<rparr>"

subsection \<open>The parser is a receiver of frames\<close>

text \<open>The part of the state that is not the buffer, and the open block.\<close>

definition parser_obs :: "parser \<times> 'e \<Rightarrow> parser_stats \<times> 'e" where
  "parser_obs = (\<lambda>(p, env). (stats p, env))"

definition parser_view :: "parser \<times> 'e \<Rightarrow> bytes option" where
  "parser_view = (\<lambda>(p, env). if discarding p then None else Some (buf p))"

definition note_oversize :: "parser_stats \<times> 'e \<Rightarrow> parser_stats \<times> 'e" where
  "note_oversize x = (case x of (st, env) \<Rightarrow> (st\<lparr>oversize_resyncs := oversize_resyncs st + 1\<rparr>, env))"

interpretation host: link "\<lambda>p. htk_frame_encode p 64"
    "\<lambda>blk. htk_frame_decode blk 59" payload_ok frame_block 62
    "feed_byte cbs" parser_view parser_obs "process_block cbs" note_oversize 64
    note_decode_error "process_payload cbs"
  for cbs
  by unfold_locales
    (auto simp: feed_byte_def parser_view_def parser_obs_def note_oversize_def process_block_def
      Let_def split: prod.splits if_splits)

text \<open>The buffer stays inside its array and holds no delimiter, whatever is fed.\<close>

definition parser_inv :: "parser \<Rightarrow> bool" where
  "parser_inv p \<longleftrightarrow> length (buf p) \<le> HTK_MAX_FRAME \<and> 0 \<notin> set (buf p) \<and> (discarding p \<longrightarrow> buf p = [])"

lemma parser_inv_init: "parser_inv parser_init"
  by (simp add: parser_inv_def parser_init_def)

lemma feed_byte_inv: "parser_inv p \<Longrightarrow> parser_inv (fst (feed_byte cbs b (p, env)))"
  by (auto simp: feed_byte_def parser_inv_def split: prod.splits)

lemma feed_inv: "parser_inv (fst x) \<Longrightarrow> parser_inv (fst (feed cbs data x))"
  unfolding feed_def
proof (induction data arbitrary: x)
  case (Cons b data)
  have "parser_inv (fst (feed_byte cbs b x))"
    using feed_byte_inv [OF Cons.prems, of cbs b "snd x"] by simp
  then show ?case using Cons.IH by simp
qed simp

lemma feed_append: "feed cbs (xs @ ys) x = feed cbs ys (feed cbs xs x)"
  by (simp add: feed_def)

lemma feed_chunks: "fold (feed cbs) chunks x = feed cbs (concat chunks) x"
  by (induction chunks arbitrary: x) (simp_all add: feed_def)

subsection \<open>Packets\<close>

text \<open>
  What a dongle may send: one constructor for each type the parser knows. \<open>packet_wf\<close> says that the
  type byte is the constructor's and that a log text fits a payload.
\<close>

datatype packet =
    POrient htk_orient
  | PStatus htk_status
  | PTrackerStat htk_tracker_stat
  | PRaw htk_raw
  | PHelloResp htk_hello_resp
  | PLog bytes

fun packet_wf :: "packet \<Rightarrow> bool" where
  "packet_wf (POrient p) \<longleftrightarrow> or_type p = HTK_PKT_ORIENT"
| "packet_wf (PStatus p) \<longleftrightarrow> st_type p = HTK_PKT_STATUS"
| "packet_wf (PTrackerStat p) \<longleftrightarrow> ts_type p = HTK_PKT_TRACKER_STAT"
| "packet_wf (PRaw p) \<longleftrightarrow> raw_type p = HTK_PKT_RAW"
| "packet_wf (PHelloResp p) \<longleftrightarrow> hr_type p = HTK_PKT_HELLO_RESP"
| "packet_wf (PLog text) \<longleftrightarrow> length text < HTK_MAX_PAYLOAD"

fun packet_bytes :: "packet \<Rightarrow> bytes" where
  "packet_bytes (POrient p) = enc_orient p"
| "packet_bytes (PStatus p) = enc_status p"
| "packet_bytes (PTrackerStat p) = enc_tracker_stat p"
| "packet_bytes (PRaw p) = enc_raw p"
| "packet_bytes (PHelloResp p) = enc_hello_resp p"
| "packet_bytes (PLog text) = HTK_PKT_LOG # text"

fun deliver :: "'e parser_callbacks \<Rightarrow> packet \<Rightarrow> 'e \<Rightarrow> 'e" where
  "deliver cbs (POrient p) env = call (on_orient cbs) p env"
| "deliver cbs (PStatus p) env = call (on_status cbs) p env"
| "deliver cbs (PTrackerStat p) env = call (on_tracker_stat cbs) p env"
| "deliver cbs (PRaw p) env = call (on_raw cbs) p env"
| "deliver cbs (PHelloResp p) env = call (on_hello_resp cbs) p env"
| "deliver cbs (PLog text) env = call (on_log cbs) text env"

lemma packet_bytes_ok: "packet_wf pkt \<Longrightarrow> payload_ok (packet_bytes pkt)"
  by (cases pkt) (auto simp: payload_ok_def simp flip: length_greater_0_conv)

lemma process_packet:
  "packet_wf pkt \<Longrightarrow> process_payload cbs (packet_bytes pkt) (st, env) =
    (st\<lparr>frames_ok := frames_ok st + 1\<rparr>, deliver cbs pkt env)"
  by (cases pkt) (simp_all add: process_payload_def dispatch_def dispatch_exact_def)

lemma process_packets:
  "\<forall>pkt \<in> set pkts. packet_wf pkt \<Longrightarrow>
    fold (process_payload cbs) (map packet_bytes pkts) (st, env) =
    (st\<lparr>frames_ok := frames_ok st + of_nat (length pkts)\<rparr>, fold (deliver cbs) pkts env)"
  by (induction pkts arbitrary: st env) (simp_all add: process_packet ac_simps)

text \<open>Conversely, what is accepted is a packet: nothing else reaches a callback.\<close>

definition unpack :: "bytes \<Rightarrow> packet" where
  "unpack payload =
     (let t = payload ! 0 in
      if t = HTK_PKT_ORIENT then POrient (dec_orient payload)
      else if t = HTK_PKT_STATUS then PStatus (dec_status payload)
      else if t = HTK_PKT_TRACKER_STAT then PTrackerStat (dec_tracker_stat payload)
      else if t = HTK_PKT_RAW then PRaw (dec_raw payload)
      else if t = HTK_PKT_HELLO_RESP then PHelloResp (dec_hello_resp payload)
      else PLog (drop 1 payload))"

lemma cons_drop_1: "bs \<noteq> [] \<Longrightarrow> x = bs ! 0 \<Longrightarrow> x # drop (Suc 0) bs = bs"
  by (cases bs) simp_all

lemma dispatch_packet:
  assumes ok: "payload_ok payload" and d: "dispatch cbs payload env = Some (True, env')"
  shows "packet_wf (unpack payload) \<and> packet_bytes (unpack payload) = payload"
proof -
  have "payload \<noteq> []" "length payload - Suc 0 < 59" using ok by (auto simp: payload_ok_def)
  with d show ?thesis
    by (simp add: dispatch_def dispatch_exact_def unpack_def Let_def cons_drop_1 orient_wire.enc_dec
        status_wire.enc_dec tracker_stat_wire.enc_dec raw_wire.enc_dec hello_resp_wire.enc_dec
        split: if_splits)
qed

lemma dispatch_rejects: "dispatch cbs payload env = Some (False, env') \<Longrightarrow> env' = env"
  by (auto simp: dispatch_def dispatch_exact_def Let_def split: if_splits)

lemma process_payload_cases:
  assumes "payload_ok payload"
  obtains (known) pkt where "packet_wf pkt" "payload = packet_bytes pkt"
      "process_payload cbs payload (st, env) = (st\<lparr>frames_ok := frames_ok st + 1\<rparr>, deliver cbs pkt env)"
    | (unknown) "process_payload cbs payload (st, env) = (st\<lparr>unknown_types := unknown_types st + 1\<rparr>, env)"
    | (mis_sized) "process_payload cbs payload (st, env) = (st\<lparr>size_mismatch := size_mismatch st + 1\<rparr>, env)"
proof (cases "dispatch cbs payload env")
  case None
  then show thesis by (intro unknown) (simp add: process_payload_def)
next
  case (Some r)
  obtain ok env' where r: "r = (ok, env')" by fastforce
  show thesis
  proof (cases ok)
    case False
    with Some r show thesis
      by (intro mis_sized) (simp add: process_payload_def dispatch_rejects)
  next
    case True
    with Some r have u: "packet_wf (unpack payload)" "packet_bytes (unpack payload) = payload"
      using dispatch_packet [OF assms, of cbs env env'] by simp_all
    show thesis by (rule known [OF u(1) u(2) [symmetric]]) (metis process_packet u)
  qed
qed

subsection \<open>Callbacks on related environments\<close>

text \<open>A map of environments that every callback respects is respected by the parser; an invariant that every callback
  keeps is kept by it.\<close>

lemma dispatch_commutes:
  assumes "\<And>pkt e. g (deliver cbs pkt e) = deliver cbs' pkt (g e)"
  shows "dispatch cbs' payload (g env) = map_option (map_prod id g) (dispatch cbs payload env)"
  using assms [of "POrient (dec_orient payload)" env] assms [of "PStatus (dec_status payload)" env]
    assms [of "PTrackerStat (dec_tracker_stat payload)" env] assms [of "PRaw (dec_raw payload)" env]
    assms [of "PHelloResp (dec_hello_resp payload)" env] assms [of "PLog (drop 1 payload)" env]
  by (simp add: dispatch_def dispatch_exact_def Let_def)

lemma process_block_commutes:
  assumes "\<And>pkt e. g (deliver cbs pkt e) = deliver cbs' pkt (g e)"
  shows "process_block cbs' blk (st, g env) = map_prod id g (process_block cbs blk (st, env))"
  using dispatch_commutes [of g cbs cbs', OF assms, of "htk_frame_decode blk 59" env]
  by (auto simp: process_block_def process_payload_def note_decode_error_def Let_def split: option.splits)

lemma feed_byte_commutes:
  assumes "\<And>pkt e. g (deliver cbs pkt e) = deliver cbs' pkt (g e)"
  shows "feed_byte cbs' b (map_prod id g x) = map_prod id g (feed_byte cbs b x)"
  using process_block_commutes [of g cbs cbs', OF assms, of "buf (fst x)" "stats (fst x)" "snd x"]
  by (cases x) (auto simp: feed_byte_def split: prod.splits)

lemma feed_commutes:
  assumes "\<And>pkt e. g (deliver cbs pkt e) = deliver cbs' pkt (g e)"
  shows "feed cbs' bs (map_prod id g x) = map_prod id g (feed cbs bs x)"
  using feed_byte_commutes [of g cbs cbs', OF assms] by (induction bs arbitrary: x) (simp_all add: feed_def)

lemma dispatch_keeps:
  assumes "\<And>pkt e. keep e \<Longrightarrow> keep (deliver cbs pkt e)" and "keep env" and "dispatch cbs payload env = Some (ok, env')"
  shows "keep env'"
  using assms(2,3) assms(1) [of env "POrient (dec_orient payload)"] assms(1) [of env "PStatus (dec_status payload)"]
    assms(1) [of env "PTrackerStat (dec_tracker_stat payload)"] assms(1) [of env "PRaw (dec_raw payload)"]
    assms(1) [of env "PHelloResp (dec_hello_resp payload)"] assms(1) [of env "PLog (drop 1 payload)"]
  by (auto simp: dispatch_def dispatch_exact_def Let_def split: if_splits)

lemma feed_byte_keeps:
  assumes "\<And>pkt e. keep e \<Longrightarrow> keep (deliver cbs pkt e)" and "keep (snd x)"
  shows "keep (snd (feed_byte cbs b x))"
  using assms(2) dispatch_keeps [of keep cbs, OF assms(1) assms(2), of "htk_frame_decode (buf (fst x)) 59"]
  by (cases x) (auto simp: feed_byte_def process_block_def process_payload_def note_decode_error_def Let_def
      split: option.splits prod.splits if_splits)

lemma feed_keeps:
  assumes "\<And>pkt e. keep e \<Longrightarrow> keep (deliver cbs pkt e)" and "keep (snd x)"
  shows "keep (snd (feed cbs bs x))"
  using assms(2) feed_byte_keeps [of keep cbs, OF assms(1)] by (induction bs arbitrary: x) (simp_all add: feed_def)

subsection \<open>The stream the application sees\<close>

text \<open>
  The packet a complete block stands for, if it is accepted: it fits the buffer, decodes, and is
  one of the known types with the size of its type.
\<close>

definition packet_of :: "bytes \<Rightarrow> packet option" where
  "packet_of payload =
     (let pkt = unpack payload in
      if payload_ok payload \<and> packet_wf pkt \<and> packet_bytes pkt = payload then Some pkt else None)"

definition accepted :: "bytes \<Rightarrow> packet option" where
  "accepted seg =
     (if seg = [] \<or> length seg > HTK_MAX_FRAME then None
      else packet_of (htk_frame_decode seg HTK_MAX_PAYLOAD))"

lemma unpack_packet_bytes: "packet_wf pkt \<Longrightarrow> unpack (packet_bytes pkt) = pkt"
  by (cases pkt) (simp_all add: unpack_def)

lemma packet_of_bytes: "packet_wf pkt \<Longrightarrow> packet_of (packet_bytes pkt) = Some pkt"
  by (simp add: packet_of_def unpack_packet_bytes packet_bytes_ok)

lemma packet_of_wf: "packet_of payload = Some pkt \<Longrightarrow> packet_wf pkt \<and> packet_bytes pkt = payload"
  by (auto simp: packet_of_def Let_def split: if_splits)

definition count_ok :: "packet option \<Rightarrow> u64" where
  "count_ok r = (case r of None \<Rightarrow> 0 | Some _ \<Rightarrow> 1)"

definition deliver_opt :: "'e parser_callbacks \<Rightarrow> packet option \<Rightarrow> 'e \<Rightarrow> 'e" where
  "deliver_opt cbs r env = (case r of None \<Rightarrow> env | Some pkt \<Rightarrow> deliver cbs pkt env)"

lemma process_payload_packet_of:
  assumes "payload_ok payload"
  shows "snd (process_payload cbs payload (st, env)) = deliver_opt cbs (packet_of payload) env"
    and "frames_ok (fst (process_payload cbs payload (st, env))) =
         frames_ok st + count_ok (packet_of payload)"
proof -
  have "snd (process_payload cbs payload (st, env)) = deliver_opt cbs (packet_of payload) env \<and>
    frames_ok (fst (process_payload cbs payload (st, env))) =
         frames_ok st + count_ok (packet_of payload)"
  proof (cases "packet_of payload")
    case (Some pkt)
    with packet_of_wf show ?thesis
      using process_packet [of pkt cbs st env] by (auto simp: deliver_opt_def count_ok_def)
  next
    case None
    from assms show ?thesis
    proof (cases rule: process_payload_cases [where cbs = cbs and st = st and env = env])
      case (known pkt)
      with None packet_of_bytes [of pkt] show ?thesis by simp
    qed (simp_all add: None deliver_opt_def count_ok_def)
  qed
  then show "snd (process_payload cbs payload (st, env)) = deliver_opt cbs (packet_of payload) env"
    and "frames_ok (fst (process_payload cbs payload (st, env))) =
         frames_ok st + count_ok (packet_of payload)" by simp_all
qed

lemma settle_accepted:
  "snd (host.settle cbs seg (st, env)) = deliver_opt cbs (accepted seg) env"
  "frames_ok (fst (host.settle cbs seg (st, env))) = frames_ok st + count_ok (accepted seg)"
proof -
  let ?pl = "htk_frame_decode seg HTK_MAX_PAYLOAD"
  have ok: "?pl \<noteq> [] \<Longrightarrow> payload_ok ?pl" by (rule htk_frame_decode_sound(2)) simp_all
  have none: "packet_of [] = None" by (simp add: packet_of_def payload_ok_def)
  note * = host.settle_def process_block_def accepted_def note_decode_error_def note_oversize_def
    deliver_opt_def count_ok_def
  show "snd (host.settle cbs seg (st, env)) = deliver_opt cbs (accepted seg) env"
    using process_payload_packet_of(1) [of ?pl cbs st env] ok none
    by (auto simp: * Let_def)
  show "frames_ok (fst (host.settle cbs seg (st, env))) = frames_ok st + count_ok (accepted seg)"
    using process_payload_packet_of(2) [of ?pl cbs st env] ok none
    by (auto simp: * Let_def)
qed

lemma fold_settle_accepted:
  "snd (fold (host.settle cbs) segs x) = fold (deliver cbs) (List.map_filter accepted segs) (snd x)"
  "frames_ok (fst (fold (host.settle cbs) segs x)) =
     frames_ok (fst x) + of_nat (length (List.map_filter accepted segs))"
proof (induction segs arbitrary: x)
  case (Cons seg segs)
  {
    case 1
    show ?case
      using Cons.IH(1) settle_accepted(1) [of cbs seg "fst x" "snd x"]
      by (simp add: map_filter_simps deliver_opt_def split: option.split)
  next
    case 2
    show ?case
      using Cons.IH(2) settle_accepted(2) [of cbs seg "fst x" "snd x"]
      by (simp add: map_filter_simps count_ok_def ac_simps split: option.split)
  }
qed (simp_all add: map_filter_simps)

lemma accepted_frame:
  "packet_wf pkt \<Longrightarrow> accepted (frame_block (packet_bytes pkt)) = Some pkt"
  using packet_bytes_ok [of pkt] htk.block_length [of "packet_bytes pkt"]
    htk.block_nonempty [of "packet_bytes pkt"]
  by (simp add: accepted_def htk.dec_block packet_of_bytes)

lemma feed_delivers_from:
  assumes "parser_view (p0, env) = Some []" and "cut [] bs = (segs, rest)"
  shows "snd (feed cbs bs (p0, env)) = fold (deliver cbs) (List.map_filter accepted segs) env \<and>
    frames_ok (stats (fst (feed cbs bs (p0, env)))) =
      frames_ok (stats p0) + of_nat (length (List.map_filter accepted segs))"
proof -
  let ?x = "(p0, env)" and ?obs0 = "(stats p0, env)"
  obtain p env' where run: "fold (feed_byte cbs) bs ?x = (p, env')" by (metis surj_pair)
  have fresh: "parser_obs ?x = ?obs0" by (simp add: parser_obs_def)
  from host.feed_fresh(1) [OF assms, of cbs]
  have obs: "(stats p, env') = host.open_obs rest (fold (host.settle cbs) segs ?obs0)"
    using fresh by (simp only: run) (simp add: parser_obs_def)
  have eqs: "snd (host.open_obs rest y) = snd y" "frames_ok (fst (host.open_obs rest y)) = frames_ok (fst y)" for y
    unfolding host.open_obs_def by (auto simp: note_oversize_def split: prod.splits)
  from arg_cong [OF obs, of snd] arg_cong [OF obs, of "frames_ok \<circ> fst"] show ?thesis
    by (simp add: feed_def run eqs fold_settle_accepted)
qed

lemma feed_delivers:
  assumes "cut [] bs = (segs, rest)"
  shows "snd (feed cbs bs (parser_init, env)) = fold (deliver cbs) (List.map_filter accepted segs) env \<and>
    frames_ok (stats (fst (feed cbs bs (parser_init, env)))) = of_nat (length (List.map_filter accepted segs))"
  using feed_delivers_from [OF _ assms, of parser_init env cbs] by (simp add: parser_view_def parser_init_def)

subsection \<open>Properties\<close>

text \<open>C6. The parser refines a specification that never mentions its buffer: whatever bytes arrive and
  however the serial port chops them, the callbacks are called for exactly the packets of the accepted
  zero-delimited segments of the stream, in order, \<open>frames_ok\<close> counts them, and the buffer
  never outgrows its array. A segment is accepted only if it unstuffs to a known packet of the right size and
  its checksum.\<close>

theorem parser_refines_stream:
  assumes "cut [] (concat chunks) = (segs, rest)"
    and "fold (feed cbs) chunks (parser_init, env) = (p, env')"
  shows "(env' = fold (deliver cbs) (List.map_filter accepted segs) env) \<and>
    (frames_ok (stats p) = of_nat (length (List.map_filter accepted segs))) \<and>
    (length (buf p) \<le> HTK_MAX_FRAME \<and> 0 \<notin> set (buf p))"
proof (rule conj3I)
  let ?x = "(parser_init, env)"
  have run: "feed cbs (concat chunks) ?x = (p, env')"
    using assms(2) by (simp add: feed_chunks)
  from feed_delivers [OF assms(1), of cbs env]
  show "env' = fold (deliver cbs) (List.map_filter accepted segs) env"
    "frames_ok (stats p) = of_nat (length (List.map_filter accepted segs))" by (simp_all add: run)
  show "length (buf p) \<le> HTK_MAX_FRAME \<and> 0 \<notin> set (buf p)"
    using feed_inv [of ?x cbs "concat chunks"] parser_inv_init run
    by (auto simp: feed_def parser_inv_def)
qed

text \<open>A log of packets as the environment, for concrete runs.\<close>

definition logging :: "packet list parser_callbacks" where
  "logging = \<lparr>on_orient = Some (\<lambda>p l. l @ [POrient p]), on_status = Some (\<lambda>p l. l @ [PStatus p]),
     on_tracker_stat = Some (\<lambda>p l. l @ [PTrackerStat p]), on_raw = Some (\<lambda>p l. l @ [PRaw p]),
     on_hello_resp = Some (\<lambda>p l. l @ [PHelloResp p]), on_log = Some (\<lambda>t l. l @ [PLog t])\<rparr>"

theorem parser_refines_stream_witness:
  "\<exists>p. fold (feed logging) [[9, 0, 3, 4, 1], [2, 1, 3, 1, 23, 3, 183, 129, 0, 7]] (parser_init, []) =
     (p, [PHelloResp \<lparr>hr_type = 4, hr_proto_ver = 1, hr_fw_major = 0, hr_fw_minor = 1, hr_fw_patch = 0,
        hr_device = 1, hr_caps = 23\<rparr>])"
proof -
  let ?chunks = "[[9, 0, 3, 4, 1], [2, 1, 3, 1, 23, 3, 183, 129, 0, 7]] :: bytes list"
  obtain p env' where run: "fold (feed logging) ?chunks (parser_init, []) = (p, env')" by fastforce
  have c: "cut [] (concat ?chunks) = ([[9], [3, 4, 1, 2, 1, 3, 1, 23, 3, 183, 129]], [7])" by simp
  have "List.map_filter accepted [[9], [3, 4, 1, 2, 1, 3, 1, 23, 3, 183, 129]] =
    [PHelloResp \<lparr>hr_type = 4, hr_proto_ver = 1, hr_fw_major = 0, hr_fw_minor = 1, hr_fw_patch = 0,
        hr_device = 1, hr_caps = 23\<rparr>]" by code_simp
  with parser_refines_stream [OF c run] run show ?thesis by (simp add: logging_def call_def)
qed

text \<open>C11. Resynchronisation and delivery: after any noise that has reached a zero byte, packets framed
  by the encoder are all delivered, in order, each exactly once, however the stream is chopped up; every
  one is counted and nothing is left in the buffer.\<close>

theorem parser_delivers_after_noise:
  assumes "\<forall>pkt \<in> set pkts. packet_wf pkt"
    and "concat chunks =
      noise @ [0] @ concat (map (\<lambda>pkt. htk_frame_encode (packet_bytes pkt) HTK_MAX_FRAME) pkts)"
    and "feed cbs (noise @ [0]) x = (p1, env1)" and "fold (feed cbs) chunks x = (p2, env2)"
  shows "(env2 = fold (deliver cbs) pkts env1) \<and>
    (stats p2 = (stats p1)\<lparr>frames_ok := frames_ok (stats p1) + of_nat (length pkts)\<rparr>) \<and>
    (buf p2 = [] \<and> \<not> discarding p2)"
proof (rule conj3I)
  let ?ps = "map packet_bytes pkts"
  have ok: "\<forall>p \<in> set ?ps. payload_ok p" using assms(1) packet_bytes_ok by auto
  have chunks: "concat chunks = noise @ [0] @ concat (map (\<lambda>p. htk_frame_encode p 64) ?ps)"
    using assms(2) by (simp add: comp_def)
  have x2: "fold (feed_byte cbs) (concat chunks) x = (p2, env2)"
    using assms(4) by (simp add: feed_chunks feed_def)
  have x1: "fold (feed_byte cbs) (noise @ [0]) x = (p1, env1)" using assms(3) by (simp add: feed_def)
  have obs: "(stats p2, env2) = fold (process_payload cbs) ?ps (stats p1, env1)"
    using host.delivers_after_noise [OF ok, of cbs noise x] x1 x2
    unfolding chunks [symmetric] by (simp add: parser_obs_def)
  note obs' = obs [unfolded process_packets [OF assms(1)]]
  from obs' show "env2 = fold (deliver cbs) pkts env1" by simp
  from obs' show "stats p2 = (stats p1)\<lparr>frames_ok := frames_ok (stats p1) + of_nat (length pkts)\<rparr>"
    by simp
  have "fold (feed_byte cbs) (concat chunks) x =
    fold (feed_byte cbs) (concat (map (\<lambda>p. htk_frame_encode p 64) ?ps)) (fold (feed_byte cbs) (noise @ [0]) x)"
    by (simp only: chunks fold_append comp_apply)
  with host.delivers(2) [OF host.feed_resync ok] x2 have "parser_view (p2, env2) = Some []" by metis
  then show "buf p2 = [] \<and> \<not> discarding p2" by (simp add: parser_view_def split: if_splits)
qed

theorem parser_delivers_after_noise_witness:
  "snd (fold (feed logging) [[7, 7, 0, 6], [127, 79, 75, 248, 220, 0]] (parser_init, [])) = [PLog [79, 75]]"
proof -
  let ?chunks = "[[7, 7, 0, 6], [127, 79, 75, 248, 220, 0]] :: bytes list"
  obtain p1 env1 where r1: "feed logging ([7, 7] @ [0]) (parser_init, []) = (p1, env1)" by fastforce
  obtain p2 env2 where r2: "fold (feed logging) ?chunks (parser_init, []) = (p2, env2)" by fastforce
  have "snd (feed logging ([7, 7] @ [0]) (parser_init, [])) = []" by code_simp
  with r1 have e1: "env1 = []" by simp
  have "concat ?chunks = [7, 7] @ [0] @
      concat (map (\<lambda>pkt. htk_frame_encode (packet_bytes pkt) HTK_MAX_FRAME) [PLog [79, 75]])"
    by code_simp
  then have "env2 = fold (deliver logging) [PLog [79, 75]] env1"
    by (intro parser_delivers_after_noise [OF _ _ r1 r2, THEN conjunct1]) simp_all
  with e1 r2 show ?thesis by (simp add: logging_def call_def)
qed

end
