(* ===== verification/Usb_Io.thy ===== *)
theory Usb_Io
  imports Frame
begin

text \<open>
  The CDC-ACM pipe of the dongle, \<^verbatim>\<open>firmware/app_dongle/src/usb_io.c\<close>: its state, the frame ring of the
  transmit direction and the UART interrupt handler. The receive direction is \<open>Usb_Rx\<close>.

  Zephyr's byte ring (\<^verbatim>\<open>ring_buf_put\<close>, \<^verbatim>\<open>ring_buf_get\<close>, \<^verbatim>\<open>ring_buf_space_get\<close>) is a parameter
  \<open>ops\<close>; \<open>ring_law\<close> states what its documentation promises, through a view \<open>cont\<close> of a ring's
  contents and \<open>cap\<close> of its capacity (2048 bytes for the transmit ring, 256 for the receive ring). The UART driver is a parameter too: an interrupt is a list of \<open>uart_iter\<close>, one for each
  iteration of the handler's loop, holding what the driver answers in that iteration.
\<close>

subsection \<open>The byte ring (parameter)\<close>

record 'r ring_ops =
  ring_buf_put :: "bytes \<Rightarrow> 'r \<Rightarrow> nat \<times> 'r"
  ring_buf_get :: "nat \<Rightarrow> 'r \<Rightarrow> bytes \<times> 'r"
  ring_buf_space_get :: "'r \<Rightarrow> nat"

definition ring_law :: "'r ring_ops \<Rightarrow> ('r \<Rightarrow> bytes) \<Rightarrow> ('r \<Rightarrow> nat) \<Rightarrow> bool" where
  "ring_law ops cont cap \<longleftrightarrow>
     (\<forall>r. length (cont r) \<le> cap r \<and>
          ring_buf_space_get ops r = cap r - length (cont r) \<and>
          (\<forall>bs. fst (ring_buf_put ops bs r) = min (length bs) (cap r - length (cont r)) \<and>
                cont (snd (ring_buf_put ops bs r)) = cont r @ take (cap r - length (cont r)) bs \<and>
                cap (snd (ring_buf_put ops bs r)) = cap r) \<and>
          (\<forall>n. fst (ring_buf_get ops n r) = take n (cont r) \<and>
               cont (snd (ring_buf_get ops n r)) = drop n (cont r) \<and>
               cap (snd (ring_buf_get ops n r)) = cap r))"

lemma ring_lawD:
  assumes "ring_law ops cont cap"
  shows ring_cap: "length (cont r) \<le> cap r"
    and ring_space: "ring_buf_space_get ops r = cap r - length (cont r)"
    and ring_put: "ring_buf_put ops bs r = (k, r1) \<Longrightarrow>
      cont r1 = cont r @ take (cap r - length (cont r)) bs \<and> cap r1 = cap r"
    and ring_get: "ring_buf_get ops n r = (got, r2) \<Longrightarrow>
      got = take n (cont r) \<and> cont r2 = drop n (cont r) \<and> cap r2 = cap r"
  using assms unfolding ring_law_def by (metis fst_conv snd_conv)+

text \<open>An instance of the law, for evaluation: a capacity, and a list that holds at most that many bytes.\<close>

definition list_ring :: "(nat \<times> bytes) ring_ops" where
  "list_ring =
     \<lparr>ring_buf_put = (\<lambda>bs (c, r). (min (length bs) (c - length r), (c, take c (r @ bs)))),
      ring_buf_get = (\<lambda>n (c, r). (take n (take c r), (c, drop n (take c r)))),
      ring_buf_space_get = (\<lambda>(c, r). c - length r)\<rparr>"

definition list_ring_bytes :: "nat \<times> bytes \<Rightarrow> bytes" where
  "list_ring_bytes = (\<lambda>(c, r). take c r)"

lemma list_ring_bytes_simp [simp]: "list_ring_bytes (c, r) = take c r"
  by (simp add: list_ring_bytes_def)

lemma list_ring_law: "ring_law list_ring list_ring_bytes fst"
  by (auto simp: ring_law_def list_ring_def list_ring_bytes_def min_def take_all)

subsection \<open>State\<close>

text \<open>
  The file's static variables (the ones of the frame assembly are in \<open>Usb_Rx\<close>). \<open>tx_irq\<close> is what the last of \<^verbatim>\<open>uart_irq_tx_enable\<close> and
  \<^verbatim>\<open>uart_irq_tx_disable\<close> set, \<open>rx_work\<close> whether \<^verbatim>\<open>rx_work\<close> is submitted and not yet run, and
  \<open>cdc_out\<close> the bytes that \<^verbatim>\<open>uart_fifo_fill\<close> has accepted so far, oldest first.
\<close>

record 'r usb_io =
  usb_configured :: bool
  tx_ring :: 'r
  tx_dropped :: u32
  tx_cur :: bytes
  tx_cur_len :: u8
  tx_cur_off :: u8
  tx_irq :: bool
  rx_ring :: 'r
  rx_work :: bool
  cdc_out :: bytes

definition usb_io_boot :: "'r \<Rightarrow> 'r \<Rightarrow> 'r usb_io" where
  "usb_io_boot tx rx =
     \<lparr>usb_configured = False, tx_ring = tx, tx_dropped = 0, tx_cur = replicate HTK_MAX_FRAME 0,
      tx_cur_len = 0, tx_cur_off = 0, tx_irq = False, rx_ring = rx, rx_work = False,
      cdc_out = []\<rparr>"

subsection \<open>Enqueueing a frame\<close>

definition usb_io_send_payload :: "'r ring_ops \<Rightarrow> bytes \<Rightarrow> 'r usb_io \<Rightarrow> 'r usb_io" where
  "usb_io_send_payload ops payload u =
     (let frame = htk_frame_encode payload HTK_MAX_FRAME in
      if length frame = 0 then u
      else if \<not> usb_configured u then u
      else if ring_buf_space_get ops (tx_ring u) \<ge> length frame + 1 then
        (case ring_buf_put ops [of_nat (length frame)] (tx_ring u) of (_, r) \<Rightarrow>
         case ring_buf_put ops frame r of (_, r) \<Rightarrow> u\<lparr>tx_ring := r, tx_irq := True\<rparr>)
      else u\<lparr>tx_dropped := tx_dropped u + 1\<rparr>)"

definition usb_io_tx_dropped :: "'r usb_io \<Rightarrow> u32" where
  "usb_io_tx_dropped u = tx_dropped u"

definition usb_io_is_configured :: "'r usb_io \<Rightarrow> bool" where
  "usb_io_is_configured u = usb_configured u"

datatype usb_dc_status =
  USB_DC_CONFIGURED | USB_DC_DISCONNECTED | USB_DC_SUSPEND | USB_DC_RESET | USB_DC_OTHER

fun usb_status_cb :: "usb_dc_status \<Rightarrow> 'r usb_io \<Rightarrow> 'r usb_io" where
  "usb_status_cb USB_DC_CONFIGURED u = u\<lparr>usb_configured := True\<rparr>"
| "usb_status_cb USB_DC_DISCONNECTED u = u\<lparr>usb_configured := False\<rparr>"
| "usb_status_cb USB_DC_SUSPEND u = u\<lparr>usb_configured := False\<rparr>"
| "usb_status_cb USB_DC_RESET u = u\<lparr>usb_configured := False\<rparr>"
| "usb_status_cb USB_DC_OTHER u = u"

subsection \<open>The UART interrupt handler\<close>

text \<open>
  \<open>fifo_read n\<close> is what \<^verbatim>\<open>uart_fifo_read\<close> stores for a buffer of \<open>n\<close> bytes (empty when it returns 0
  or an error), \<open>fifo_fill bs\<close> what \<^verbatim>\<open>uart_fifo_fill\<close> returns when offered \<open>bs\<close>.
\<close>

record uart_iter =
  rx_ready :: bool
  fifo_read :: "nat \<Rightarrow> bytes"
  tx_ready :: bool
  fifo_fill :: "bytes \<Rightarrow> int"

definition uart_law :: "uart_iter \<Rightarrow> bool" where
  "uart_law it \<longleftrightarrow> (\<forall>n. length (fifo_read it n) \<le> n) \<and> (\<forall>bs. fifo_fill it bs \<le> int (length bs))"

definition irq_rx :: "'r ring_ops \<Rightarrow> uart_iter \<Rightarrow> 'r usb_io \<Rightarrow> 'r usb_io" where
  "irq_rx ops it u =
     (let buf = fifo_read it 64 in
      if rx_ready it \<and> length buf > 0 then
        u\<lparr>rx_ring := snd (ring_buf_put ops buf (rx_ring u)), rx_work := True\<rparr>
      else u)"

text \<open>\<open>tx_fetch\<close>: the next frame into \<^verbatim>\<open>tx_cur\<close>, or \<open>Inl\<close> with transmit interrupts off when there is none.\<close>

definition tx_fetch :: "'r ring_ops \<Rightarrow> 'r usb_io \<Rightarrow> 'r usb_io + 'r usb_io" where
  "tx_fetch ops u =
     (if tx_cur_off u = tx_cur_len u then
        (case ring_buf_get ops 1 (tx_ring u) of (got, r) \<Rightarrow>
           if length got \<noteq> 1 then Inl (u\<lparr>tx_ring := r, tx_irq := False\<rparr>)
           else
             (let len = hd got in
              case ring_buf_get ops (unat len) r of (bs, r) \<Rightarrow>
                Inr (u\<lparr>tx_ring := r, tx_cur := bs @ drop (length bs) (tx_cur u),
                       tx_cur_len := len, tx_cur_off := 0\<rparr>)))
      else Inr u)"

definition tx_fill :: "uart_iter \<Rightarrow> 'r usb_io \<Rightarrow> 'r usb_io" where
  "tx_fill it u =
     (let off = unat (tx_cur_off u);
          offered = take (unat (tx_cur_len u) - off) (drop off (tx_cur u));
          n = fifo_fill it offered in
      if n > 0 then
        u\<lparr>tx_cur_off := tx_cur_off u + word_of_int n, cdc_out := cdc_out u @ take (nat n) offered\<rparr>
      else u)"

text \<open>The loop: an iteration ends with \<^verbatim>\<open>break\<close> after a fill, and otherwise goes round again.\<close>

fun cdc_irq_handler :: "'r ring_ops \<Rightarrow> uart_iter list \<Rightarrow> 'r usb_io \<Rightarrow> 'r usb_io" where
  "cdc_irq_handler ops [] u = u"
| "cdc_irq_handler ops (it # its) u =
     (let u = irq_rx ops it u in
      if tx_ready it then
        (case tx_fetch ops u of Inl u \<Rightarrow> cdc_irq_handler ops its u | Inr u \<Rightarrow> tx_fill it u)
      else cdc_irq_handler ops its u)"

subsection \<open>The queue of frames that the state stands for\<close>

text \<open>\<open>tx_current\<close> is the unsent part of the frame in flight, \<open>frames_of\<close> the frames of the ring.\<close>

definition tx_current :: "'r usb_io \<Rightarrow> bytes" where
  "tx_current u = take (unat (tx_cur_len u) - unat (tx_cur_off u)) (drop (unat (tx_cur_off u)) (tx_cur u))"

function (sequential) frames_of :: "bytes \<Rightarrow> bytes list" where
  "frames_of [] = []"
| "frames_of (len # bs) = take (unat len) bs # frames_of (drop (unat len) bs)"
  by pat_completeness auto
termination
  by (relation "measure length") auto

definition tx_queue :: "('r \<Rightarrow> bytes) \<Rightarrow> 'r usb_io \<Rightarrow> bytes list" where
  "tx_queue cont u = (if tx_current u = [] then [] else [tx_current u]) @ frames_of (cont (tx_ring u))"

definition entry :: "bytes \<Rightarrow> bytes" where
  "entry f = of_nat (length f) # f"

definition frame_sized :: "bytes \<Rightarrow> bool" where
  "frame_sized f \<longleftrightarrow> 0 < length f \<and> length f \<le> 63"

text \<open>
  The transmit invariant: whole entries in the ring, the indices inside \<^verbatim>\<open>tx_cur\<close>, and the transmit
  interrupt on whenever something is waiting.
\<close>

definition tx_inv :: "('r \<Rightarrow> bytes) \<Rightarrow> 'r usb_io \<Rightarrow> bool" where
  "tx_inv cont u \<longleftrightarrow>
     cont (tx_ring u) = concat (map entry (frames_of (cont (tx_ring u)))) \<and>
     list_all frame_sized (frames_of (cont (tx_ring u))) \<and>
     length (tx_cur u) = HTK_MAX_FRAME \<and> tx_cur_off u \<le> tx_cur_len u \<and> tx_cur_len u \<le> 63 \<and>
     (tx_queue cont u \<noteq> [] \<longrightarrow> tx_irq u)"

lemma unat_frame_len [simp]: "frame_sized f \<Longrightarrow> unat (of_nat (length f) :: u8) = length f"
  by (simp add: frame_sized_def unat_of_nat take_bit_eq_mod)

lemma frames_of_entries [simp]: "list_all frame_sized fs \<Longrightarrow> frames_of (concat (map entry fs)) = fs"
  by (induction fs) (simp_all add: entry_def)

lemma frames_of_append [simp]:
  "frame_sized f \<Longrightarrow> list_all frame_sized fs \<Longrightarrow> frames_of (concat (map entry fs) @ entry f) = fs @ [f]"
  using frames_of_entries [of "fs @ [f]"] by simp

lemma frame_encode_sized:
  "htk_frame_encode p HTK_MAX_FRAME \<noteq> [] \<Longrightarrow> frame_sized (htk_frame_encode p HTK_MAX_FRAME)"
  using frame_block_length [of p] by (auto simp: htk_frame_encode_eq frame_sized_def payload_ok_def split: if_splits)

lemma tx_inv_entries:
  assumes "tx_inv cont u"
  obtains fs where "cont (tx_ring u) = concat (map entry fs)" "list_all frame_sized fs"
    "frames_of (cont (tx_ring u)) = fs"
  using assms by (auto simp: tx_inv_def)

lemma tx_inv_boot: "cont tx = [] \<Longrightarrow> tx_inv cont (usb_io_boot tx rx)"
  by (simp add: tx_inv_def usb_io_boot_def tx_queue_def tx_current_def)

subsection \<open>Each operation on the queue\<close>

definition send_accepts :: "'r ring_ops \<Rightarrow> bytes \<Rightarrow> 'r usb_io \<Rightarrow> bool" where
  "send_accepts ops payload u \<longleftrightarrow>
     payload_ok payload \<and> usb_configured u \<and>
     ring_buf_space_get ops (tx_ring u) > length (htk_frame_encode payload HTK_MAX_FRAME)"

lemma encode_nonempty: "htk_frame_encode p 64 \<noteq> [] \<longleftrightarrow> payload_ok p"
  using htk_frame_encode_ok [of p] by (auto simp: htk_frame_encode_eq)

lemma send_queue:
  assumes law: "ring_law ops cont cap" and inv: "tx_inv cont u"
  shows "tx_queue cont (usb_io_send_payload ops p u) =
           tx_queue cont u @ (if send_accepts ops p u then [htk_frame_encode p HTK_MAX_FRAME] else [])"
    and "tx_inv cont (usb_io_send_payload ops p u)"
    and "cdc_out (usb_io_send_payload ops p u) = cdc_out u"
proof -
  let ?f = "htk_frame_encode p HTK_MAX_FRAME" and ?u = "usb_io_send_payload ops p u"
  show out: "cdc_out ?u = cdc_out u"
    by (simp add: usb_io_send_payload_def Let_def split: prod.split)
  have "tx_queue cont ?u = tx_queue cont u @ (if send_accepts ops p u then [?f] else []) \<and> tx_inv cont ?u"
  proof (cases "send_accepts ops p u")
    case True
    obtain fs where fs: "cont (tx_ring u) = concat (map entry fs)" "list_all frame_sized fs"
      "frames_of (cont (tx_ring u)) = fs"
      using inv by (rule tx_inv_entries)
    have f: "frame_sized ?f" using True by (intro frame_encode_sized) (simp add: send_accepts_def encode_nonempty)
    obtain k1 r1 where p1: "ring_buf_put ops [of_nat (length ?f)] (tx_ring u) = (k1, r1)" by fastforce
    obtain k2 r2 where p2: "ring_buf_put ops ?f r1 = (k2, r2)" by fastforce
    have sp: "length ?f < cap (tx_ring u) - length (cont (tx_ring u))"
      using True ring_space [OF law] by (simp add: send_accepts_def)
    have "cont r1 = cont (tx_ring u) @ [of_nat (length ?f)]"
      using ring_put [OF law p1] sp by (simp add: take_Cons')
    then have r2: "cont r2 = concat (map entry fs) @ entry ?f"
      using ring_put [OF law p1] ring_put [OF law p2] sp fs by (simp add: entry_def)
    have u: "?u = u\<lparr>tx_ring := r2, tx_irq := True\<rparr>"
      using True p1 p2 f by (simp add: usb_io_send_payload_def send_accepts_def Let_def frame_sized_def)
    show ?thesis
      using inv fs r2 f True
      by (simp add: u tx_inv_def tx_queue_def tx_current_def)
  next
    case False
    then have "?u = u \<or> ?u = u\<lparr>tx_dropped := tx_dropped u + 1\<rparr>"
      by (auto simp: usb_io_send_payload_def send_accepts_def Let_def encode_nonempty Suc_le_eq)
    with inv False show ?thesis
      by (auto simp: tx_inv_def tx_queue_def tx_current_def)
  qed
  then show "tx_queue cont ?u = tx_queue cont u @ (if send_accepts ops p u then [?f] else [])"
    and "tx_inv cont ?u" by simp_all
qed

lemma irq_rx_tx [simp]:
  "tx_ring (irq_rx ops it u) = tx_ring u" "tx_cur (irq_rx ops it u) = tx_cur u"
  "tx_cur_len (irq_rx ops it u) = tx_cur_len u" "tx_cur_off (irq_rx ops it u) = tx_cur_off u"
  "tx_irq (irq_rx ops it u) = tx_irq u" "cdc_out (irq_rx ops it u) = cdc_out u"
  "usb_configured (irq_rx ops it u) = usb_configured u" "tx_dropped (irq_rx ops it u) = tx_dropped u"
  by (simp_all add: irq_rx_def Let_def)

lemma irq_rx_queue [simp]: "tx_queue cont (irq_rx ops it u) = tx_queue cont u"
  by (simp add: tx_queue_def tx_current_def)

lemma irq_rx_inv [simp]: "tx_inv cont (irq_rx ops it u) = tx_inv cont u"
  by (simp add: tx_inv_def)

lemma current_empty:
  assumes "tx_inv cont u"
  shows "tx_current u = [] \<longleftrightarrow> tx_cur_off u = tx_cur_len u"
  using assms by (auto simp: tx_inv_def tx_current_def word_le_nat_alt unat_arith_simps(3) )

text \<open>Fetching: \<open>Inl\<close> exactly on an empty queue; otherwise the frame in flight is the queue's head.\<close>

lemma tx_fetch_queue:
  assumes law: "ring_law ops cont cap" and inv: "tx_inv cont u"
  shows "case tx_fetch ops u of
      Inl v \<Rightarrow> tx_queue cont u = [] \<and> tx_queue cont v = [] \<and> tx_inv cont v \<and> cdc_out v = cdc_out u
    | Inr v \<Rightarrow> tx_queue cont v = tx_queue cont u \<and> tx_current v \<noteq> [] \<and> tx_inv cont v \<and>
        cdc_out v = cdc_out u"
proof (cases "tx_cur_off u = tx_cur_len u")
  case False
  then show ?thesis using inv current_empty [OF inv] by (simp add: tx_fetch_def)
next
  case True
  obtain fs where fs: "cont (tx_ring u) = concat (map entry fs)" "list_all frame_sized fs"
    "frames_of (cont (tx_ring u)) = fs"
    using inv by (rule tx_inv_entries)
  obtain got r1 where g1: "ring_buf_get ops (Suc 0) (tx_ring u) = (got, r1)" by fastforce
  note r1 = ring_get [OF law g1]
  have cur: "tx_current u = []" using True current_empty [OF inv] by simp
  show ?thesis
  proof (cases fs)
    case Nil
    with fs g1 r1 cur True inv show ?thesis
      by (simp add: tx_fetch_def tx_queue_def tx_inv_def tx_current_def)
  next
    case (Cons f rest)
    obtain bs r2 where g2: "ring_buf_get ops (length f) r1 = (bs, r2)" by fastforce
    have f: "frame_sized f" "list_all frame_sized rest" using fs Cons by simp_all
    have got: "got = [of_nat (length f)]" "cont r1 = f @ concat (map entry rest)"
      using r1 fs Cons by (simp_all add: entry_def)
    have bs: "bs = f" "cont r2 = concat (map entry rest)"
      using ring_get [OF law g2] got by simp_all
    let ?v = "u\<lparr>tx_ring := r2, tx_cur := f @ drop (length f) (tx_cur u), tx_cur_len := of_nat (length f),
      tx_cur_off := 0\<rparr>"
    have v: "tx_fetch ops u = Inr ?v"
      using True g1 g2 got bs f by (simp add: tx_fetch_def)
    have "tx_current ?v = f" using f by (simp add: tx_current_def)
    moreover have "(of_nat (length f) :: u8) \<le> 63"
      using f unat_frame_len [of f] by (simp add: word_le_nat_alt frame_sized_def)
    ultimately show ?thesis
      using inv fs f bs Cons cur v
      by (simp add: tx_queue_def tx_inv_def frame_sized_def)
  qed
qed

text \<open>Filling: the driver takes some bytes off the front of the frame in flight.\<close>

lemma tx_fill_queue:
  assumes inv: "tx_inv cont u" and cur: "tx_current u \<noteq> []" and uart: "uart_law it"
  defines "k \<equiv> nat (fifo_fill it (tx_current u))"
  shows "cdc_out (tx_fill it u) = cdc_out u @ take k (tx_current u)"
    and "tx_current (tx_fill it u) = drop k (tx_current u)"
    and "tx_ring (tx_fill it u) = tx_ring u"
    and "tx_inv cont (tx_fill it u)"
proof -
  let ?n = "fifo_fill it (tx_current u)"
  have k: "k \<le> length (tx_current u)" using uart by (simp add: uart_law_def k_def nat_le_iff)
  have len: "length (tx_current u) = unat (tx_cur_len u) - unat (tx_cur_off u)"
    using inv by (auto simp: tx_inv_def tx_current_def word_le_nat_alt)
  have fill: "tx_fill it u = (if ?n > 0 then u\<lparr>tx_cur_off := tx_cur_off u + of_nat k,
      cdc_out := cdc_out u @ take k (tx_current u)\<rparr> else u)"
    by (auto simp: tx_fill_def tx_current_def [symmetric] Let_def k_def)
  have off: "unat (tx_cur_off u + of_nat k) = unat (tx_cur_off u) + k"
  proof -
    have "unat (tx_cur_off u) + k \<le> 63" using k len inv by (auto simp: tx_inv_def word_le_nat_alt)
    then show ?thesis by (simp add: unat_word_ariths unat_of_nat)
  qed
  show "cdc_out (tx_fill it u) = cdc_out u @ take k (tx_current u)"
    by (simp add: fill k_def)
  have moved: "tx_current (u\<lparr>tx_cur_off := tx_cur_off u + of_nat k, cdc_out := x\<rparr>) = drop k (tx_current u)" for x
    using off by (simp add: tx_current_def drop_take add.commute)
  show cur': "tx_current (tx_fill it u) = drop k (tx_current u)"
    using moved fill by (cases "?n > 0") (simp_all add: k_def)
  show "tx_ring (tx_fill it u) = tx_ring u" by (simp add: fill)
  then show "tx_inv cont (tx_fill it u)"
    using inv cur cur' k len off
    by (auto simp: tx_inv_def tx_queue_def fill word_le_nat_alt)
qed

lemma handler_queue:
  assumes law: "ring_law ops cont cap" and "tx_inv cont u" and "list_all uart_law its"
  shows "tx_inv cont (cdc_irq_handler ops its u) \<and>
    (\<exists>k \<le> length (hd (tx_queue cont u @ [[]])).
      cdc_out (cdc_irq_handler ops its u) = cdc_out u @ take k (hd (tx_queue cont u @ [[]])) \<and>
      concat (tx_queue cont (cdc_irq_handler ops its u)) = drop k (concat (tx_queue cont u)))"
  using assms(2-)
proof (induction its arbitrary: u)
  case Nil
  then show ?case by (auto intro: exI [of _ 0])
next
  case (Cons it its)
  let ?u = "irq_rx ops it u"
  have inv: "tx_inv cont ?u" using Cons.prems by simp
  show ?case
  proof (cases "tx_ready it")
    case False
    then show ?thesis using Cons.IH [of ?u] Cons.prems by (simp add: Let_def)
  next
    case ready: True
    note fetch = tx_fetch_queue [OF law inv]
    show ?thesis
    proof (cases "tx_fetch ops ?u")
      case (Inl v)
      then have v: "tx_queue cont u = []" "tx_queue cont v = []" "tx_inv cont v" "cdc_out v = cdc_out u"
        using fetch by auto
      show ?thesis using Cons.IH [of v] Cons.prems v ready Inl by (auto simp: Let_def)
    next
      case (Inr v)
      then have v: "tx_queue cont v = tx_queue cont u" "tx_current v \<noteq> []" "tx_inv cont v"
          "cdc_out v = cdc_out u"
        using fetch by auto
      have uart: "uart_law it" using Cons.prems by simp
      note fill = tx_fill_queue [OF v(3) v(2) uart]
      let ?k = "nat (fifo_fill it (tx_current v))"
      have k: "?k \<le> length (tx_current v)" using uart by (simp add: uart_law_def nat_le_iff)
      have q: "tx_queue cont u = tx_current v # frames_of (cont (tx_ring v))"
        using v by (simp add: tx_queue_def flip: v(1))
      have "concat (tx_queue cont (tx_fill it v)) = drop ?k (concat (tx_queue cont u))"
        using k fill by (simp add: q) (simp add: tx_queue_def)
      then show ?thesis
        using fill k v ready Inr by (auto simp: q Let_def intro!: exI [of _ ?k])
    qed
  qed
qed

subsection \<open>Runs\<close>

text \<open>What can happen to the pipe's transmit side; \<open>usb_run\<close> also collects the payloads accepted.\<close>

datatype usb_event =
    SendPayload bytes
  | UartIrq "uart_iter list"
  | UsbStatus usb_dc_status

fun usb_step :: "'r ring_ops \<Rightarrow> usb_event \<Rightarrow> 'r usb_io \<Rightarrow> 'r usb_io" where
  "usb_step ops (SendPayload p) u = usb_io_send_payload ops p u"
| "usb_step ops (UartIrq its) u = cdc_irq_handler ops its u"
| "usb_step ops (UsbStatus st) u = usb_status_cb st u"

fun usb_event_ok :: "usb_event \<Rightarrow> bool" where
  "usb_event_ok (UartIrq its) \<longleftrightarrow> list_all uart_law its"
| "usb_event_ok _ \<longleftrightarrow> True"

fun accepted_payload :: "'r ring_ops \<Rightarrow> 'r usb_io \<Rightarrow> usb_event \<Rightarrow> bytes list" where
  "accepted_payload ops u (SendPayload p) = (if send_accepts ops p u then [p] else [])"
| "accepted_payload ops u _ = []"

fun usb_run :: "'r ring_ops \<Rightarrow> usb_event list \<Rightarrow> 'r usb_io \<Rightarrow> 'r usb_io \<times> bytes list" where
  "usb_run ops [] u = (u, [])"
| "usb_run ops (ev # evs) u =
     (let (v, acc) = usb_run ops evs (usb_step ops ev u) in (v, accepted_payload ops u ev @ acc))"

lemma usb_status_simps [simp]:
  "tx_queue cont (usb_status_cb st u) = tx_queue cont u" "tx_inv cont (usb_status_cb st u) = tx_inv cont u"
  "cdc_out (usb_status_cb st u) = cdc_out u"
  by (cases st; simp add: tx_queue_def tx_current_def tx_inv_def)+

text \<open>The bytes that left plus the bytes that wait: each event adds the frames it accepts at the end.\<close>

definition tx_stream :: "('r \<Rightarrow> bytes) \<Rightarrow> 'r usb_io \<Rightarrow> bytes" where
  "tx_stream cont u = cdc_out u @ concat (tx_queue cont u)"

definition frames_for :: "bytes list \<Rightarrow> bytes" where
  "frames_for ps = concat (map (\<lambda>p. htk_frame_encode p HTK_MAX_FRAME) ps)"

lemma frames_for_append [simp]: "frames_for [] = []" "frames_for (ps @ qs) = frames_for ps @ frames_for qs"
  by (simp_all add: frames_for_def)

lemma concat_queue: "concat (tx_queue cont u) = tx_current u @ concat (frames_of (cont (tx_ring u)))"
  by (simp add: tx_queue_def)

lemma usb_step_stream:
  assumes law: "ring_law ops cont cap" and inv: "tx_inv cont u" and ok: "usb_event_ok ev"
  shows "tx_inv cont (usb_step ops ev u)"
    and "tx_stream cont (usb_step ops ev u) = tx_stream cont u @ frames_for (accepted_payload ops u ev)"
proof -
  have "tx_inv cont (usb_step ops ev u) \<and>
    tx_stream cont (usb_step ops ev u) = tx_stream cont u @ frames_for (accepted_payload ops u ev)"
  proof (cases ev)
    case (SendPayload p)
    then show ?thesis using send_queue [OF law inv, of p] by (simp add: tx_stream_def frames_for_def)
  next
    case (UartIrq its)
    let ?q = "tx_queue cont u"
    from UartIrq ok have "list_all uart_law its" by simp
    from handler_queue [OF law inv this] obtain k where
      k: "k \<le> length (hd (?q @ [[]]))" "cdc_out (cdc_irq_handler ops its u) = cdc_out u @ take k (hd (?q @ [[]]))"
        "concat (tx_queue cont (cdc_irq_handler ops its u)) = drop k (concat ?q)"
        "tx_inv cont (cdc_irq_handler ops its u)" by blast
    have "take k (hd (?q @ [[]])) = take k (concat ?q)" using k(1) by (cases ?q) auto
    with k UartIrq show ?thesis by (simp add: tx_stream_def frames_for_def)
  qed (use inv in \<open>simp add: tx_stream_def frames_for_def\<close>)
  then show "tx_inv cont (usb_step ops ev u)"
    and "tx_stream cont (usb_step ops ev u) = tx_stream cont u @ frames_for (accepted_payload ops u ev)"
    by simp_all
qed

lemma usb_run_stream:
  assumes "ring_law ops cont cap" and "tx_inv cont u" and "list_all usb_event_ok evs"
    and "usb_run ops evs u = (v, acc)"
  shows "tx_inv cont v \<and> tx_stream cont v = tx_stream cont u @ frames_for acc"
  using assms(2-)
proof (induction evs arbitrary: u acc)
  case (Cons ev evs)
  then obtain acc' where "usb_run ops evs (usb_step ops ev u) = (v, acc')" "acc = accepted_payload ops u ev @ acc'"
    by (auto simp: Let_def split: prod.splits)
  then show ?case
    using Cons.IH [of "usb_step ops ev u" acc'] Cons.prems usb_step_stream [OF assms(1), of u ev] by simp
qed simp

lemma tx_inv_run:
  assumes "ring_law ops cont cap" and "cont tx = []" and "list_all usb_event_ok evs"
  shows "tx_inv cont (fst (usb_run ops evs (usb_io_boot tx rx)))"
  using usb_run_stream [OF assms(1) tx_inv_boot assms(3) prod.collapse [symmetric]] assms(2) by blast

text \<open>A callback in which the driver takes something.\<close>

definition eager :: "uart_iter \<Rightarrow> bool" where
  "eager it \<longleftrightarrow> uart_law it \<and> tx_ready it \<and> (\<forall>bs. bs \<noteq> [] \<longrightarrow> fifo_fill it bs > 0)"

lemma eager_callback:
  assumes law: "ring_law ops cont cap" and inv: "tx_inv cont u" and it: "eager it"
  shows "length (concat (tx_queue cont (cdc_irq_handler ops [it] u))) \<le> length (concat (tx_queue cont u)) - 1"
    and "tx_inv cont (cdc_irq_handler ops [it] u)"
    and "tx_stream cont (cdc_irq_handler ops [it] u) = tx_stream cont u"
proof -
  let ?u = "irq_rx ops it u"
  have uart: "uart_law it" and ready: "tx_ready it" using it by (simp_all add: eager_def)
  have inv': "tx_inv cont ?u" using inv by simp
  show "tx_inv cont (cdc_irq_handler ops [it] u)"
    and "tx_stream cont (cdc_irq_handler ops [it] u) = tx_stream cont u"
    using usb_step_stream [OF law inv, of "UartIrq [it]"] uart by (simp_all add: frames_for_def)
  note fetch = tx_fetch_queue [OF law inv']
  show "length (concat (tx_queue cont (cdc_irq_handler ops [it] u))) \<le> length (concat (tx_queue cont u)) - 1"
  proof (cases "tx_fetch ops ?u")
    case (Inl v)
    with fetch show ?thesis using ready by (simp add: Let_def)
  next
    case (Inr v)
    then have v: "tx_queue cont v = tx_queue cont u" "tx_current v \<noteq> []" "tx_inv cont v"
      using fetch by auto
    note fill = tx_fill_queue [OF v(3) v(2) uart]
    have "fifo_fill it (tx_current v) > 0" using it v(2) by (simp add: eager_def)
    then have "length (tx_current (tx_fill it v)) \<le> length (tx_current v) - 1" "length (tx_current v) > 0"
      using fill v(2) by simp_all
    then have "length (concat (tx_queue cont (tx_fill it v))) \<le> length (concat (tx_queue cont v)) - 1"
      using fill by (simp add: concat_queue del: length_drop length_greater_0_conv)
    then show ?thesis using ready Inr v(1) by (simp add: Let_def)
  qed
qed

lemma eager_callbacks:
  assumes "ring_law ops cont cap" and "tx_inv cont u" and "list_all eager its"
  shows "length (concat (tx_queue cont (fold (\<lambda>it. cdc_irq_handler ops [it]) its u))) \<le>
      length (concat (tx_queue cont u)) - length its \<and>
    tx_stream cont (fold (\<lambda>it. cdc_irq_handler ops [it]) its u) = tx_stream cont u \<and>
    tx_inv cont (fold (\<lambda>it. cdc_irq_handler ops [it]) its u)"
  using assms(2-)
proof (induction its arbitrary: u)
  case (Cons it its)
  then have "tx_inv cont u" "eager it" "list_all eager its" by simp_all
  with eager_callback [OF assms(1) this(1,2)] Cons.IH [of "cdc_irq_handler ops [it] u"]
  show ?case by (auto simp del: cdc_irq_handler.simps)
qed simp

lemma no_bytes_no_frames:
  assumes "tx_inv cont u" and "concat (tx_queue cont u) = []"
  shows "tx_queue cont u = []"
proof -
  have "list_all (\<lambda>f. f \<noteq> []) (tx_queue cont u)"
    using assms(1) by (auto simp: tx_inv_def tx_queue_def frame_sized_def list_all_iff)
  with assms(2) show ?thesis by (cases "tx_queue cont u") simp_all
qed

lemma send_dropped:
  "tx_dropped (usb_io_send_payload ops p u) =
    (if payload_ok p \<and> usb_configured u \<and> \<not> send_accepts ops p u then tx_dropped u + 1 else tx_dropped u)"
  using encode_nonempty [of p]
  by (cases "payload_ok p") (auto simp: usb_io_send_payload_def send_accepts_def Let_def split: prod.splits)

text \<open>Concrete driver answers for evaluation: up to \<open>n\<close> bytes accepted, \<open>bs\<close> received.\<close>

definition iter_fill :: "nat \<Rightarrow> uart_iter" where
  "iter_fill n = \<lparr>rx_ready = False, fifo_read = (\<lambda>_. []), tx_ready = True,
     fifo_fill = (\<lambda>bs. int (min n (length bs)))\<rparr>"

definition iter_read :: "bytes \<Rightarrow> uart_iter" where
  "iter_read bs = \<lparr>rx_ready = True, fifo_read = (\<lambda>n. take n bs), tx_ready = False, fifo_fill = (\<lambda>_. 0)\<rparr>"

lemma iter_laws [simp]: "uart_law (iter_fill n)" "uart_law (iter_read bs)" "0 < n \<Longrightarrow> eager (iter_fill n)"
  by (simp_all add: uart_law_def iter_fill_def iter_read_def eager_def)

lemma eager_iters [simp]: "0 < n \<Longrightarrow> list_all eager (replicate k (iter_fill n))"
  by (simp add: list_all_length)

subsection \<open>Properties\<close>

text \<open>C9. No byte is lost, reordered or torn on the way to the host: after any sequence of sends, UART
  interrupts and USB status changes, the bytes the driver has accepted, followed by the unsent rest of the
  frame in flight and by the frames still in the ring, are exactly the encoded frames of the payloads
  that found room, in order. The ring always holds whole length-prefixed frames, the indices stay inside
  the 64-byte frame buffer, and transmit interrupts are on whenever anything waits.\<close>

theorem usb_stream_conserved:
  assumes "ring_law ops cont cap" and "cont tx = []"
    and "list_all usb_event_ok evs" and "usb_run ops evs (usb_io_boot tx rx) = (u, acc)"
  shows "(cdc_out u @ concat (tx_queue cont u) = frames_for acc) \<and>
    tx_inv cont u"
  using usb_run_stream [OF assms(1) _ assms(3,4)] tx_inv_boot [of cont tx rx] assms(2)
  by (simp_all add: tx_stream_def usb_io_boot_def tx_queue_def tx_current_def)

theorem usb_stream_conserved_witness:
  "let (u, acc) = usb_run list_ring
       [UsbStatus USB_DC_CONFIGURED, SendPayload [0x14], SendPayload [], SendPayload [0x10, 1],
        UartIrq [iter_read [7, 0], iter_fill 3]] (usb_io_boot (2048, []) (256, []))
   in acc = [[0x14], [0x10, 1]] \<and> length (cdc_out u) = 3 \<and>
      cdc_out u @ concat (tx_queue list_ring_bytes u) = frames_for [[0x14], [0x10, 1]]"
proof -
  let ?run = "usb_run list_ring
       [UsbStatus USB_DC_CONFIGURED, SendPayload [0x14], SendPayload [], SendPayload [0x10, 1],
        UartIrq [iter_read [7, 0], iter_fill 3]] (usb_io_boot (2048, []) (256, []))"
  have "cdc_out (fst ?run) @ concat (tx_queue list_ring_bytes (fst ?run)) = frames_for (snd ?run)"
    by (rule usb_stream_conserved [OF list_ring_law _ _ prod.collapse [symmetric], THEN conjunct1]) simp_all
  moreover have "snd ?run = [[0x14], [0x10, 1]]" "length (cdc_out (fst ?run)) = 3" by code_simp+
  ultimately show ?thesis by (simp only: case_prod_unfold Let_def)
qed

text \<open>C29. Sending refines appending to a queue, and never blocks: an encodable payload on a configured
  bus joins the end of the queue when the ring has room for its frame and length byte, and otherwise is
  dropped and counted once, with the queue untouched. Nothing goes out before the next interrupt.\<close>

theorem usb_send_refines_queue:
  fixes p :: bytes
  assumes "ring_law ops cont cap" and "tx_inv cont u"
  defines "v \<equiv> usb_io_send_payload ops p u"
  shows "(tx_queue cont v = (if send_accepts ops p u then tx_queue cont u @ [htk_frame_encode p HTK_MAX_FRAME]
           else tx_queue cont u)) \<and>
    (tx_dropped v = (if payload_ok p \<and> usb_configured u \<and> \<not> send_accepts ops p u
           then tx_dropped u + 1 else tx_dropped u)) \<and>
    (cdc_out v = cdc_out u) \<and>
    tx_inv cont v"
  using send_queue [OF assms(1,2), of p] by (simp_all add: v_def send_dropped)

theorem usb_send_refines_queue_witness:
  "let u = (\<lambda>c. usb_status_cb USB_DC_CONFIGURED (usb_io_boot (c, []) (256, []))) in
   tx_queue list_ring_bytes (usb_io_send_payload list_ring [0x14] (u 2048)) = [htk_frame_encode [0x14] HTK_MAX_FRAME] \<and>
   tx_dropped (usb_io_send_payload list_ring [0x14] (u 3)) = 1"
proof -
  let ?u = "\<lambda>c. usb_status_cb USB_DC_CONFIGURED (usb_io_boot (c, []) (256, []))"
  have inv: "tx_inv list_ring_bytes (?u c)" for c
    unfolding usb_status_simps by (rule tx_inv_boot) simp
  note send = usb_send_refines_queue [OF list_ring_law inv, THEN conjunct1]
    usb_send_refines_queue [OF list_ring_law inv, THEN conjunct2, THEN conjunct1]
  have "tx_queue list_ring_bytes (?u 2048) = []" "send_accepts list_ring [0x14] (?u 2048)"
    "payload_ok [0x14]" "\<not> send_accepts list_ring [0x14] (?u 3)" "usb_configured (?u 3)" "tx_dropped (?u 3) = 0"
    by code_simp+
  then show ?thesis unfolding Let_def send by simp
qed

text \<open>An interrupt sends at most one frame: whatever the driver reports in whatever number of loop
  iterations, the bytes that go out are a prefix of the frame at the head of the queue, and what is left of
  the queue is that frame's remainder and the frames behind it.\<close>

theorem usb_irq_sends_one_frame:
  assumes "ring_law ops cont cap" and "tx_inv cont u" and "list_all uart_law its"
  defines "v \<equiv> cdc_irq_handler ops its u"
  shows "\<exists>sent rest. tx_queue cont u @ [[]] = (sent @ rest) # tl (tx_queue cont u @ [[]]) \<and>
     cdc_out v = cdc_out u @ sent \<and> concat (tx_queue cont v) = rest @ concat (tl (tx_queue cont u))"
proof -
  let ?q = "tx_queue cont u"
  from handler_queue [OF assms(1-3)] obtain k where
    k: "k \<le> length (hd (?q @ [[]]))" "cdc_out v = cdc_out u @ take k (hd (?q @ [[]]))"
      "concat (tx_queue cont v) = drop k (concat ?q)" unfolding v_def by blast
  show ?thesis
    using k by (intro exI [of _ "take k (hd (?q @ [[]]))"] exI [of _ "drop k (hd (?q @ [[]]))"], cases ?q) auto
qed

theorem usb_irq_sends_one_frame_witness:
  "let u = fst (usb_run list_ring [UsbStatus USB_DC_CONFIGURED, SendPayload [0x14], SendPayload [0x10, 1]]
       (usb_io_boot (2048, []) (256, [])));
       v = cdc_irq_handler list_ring [iter_fill 99, iter_fill 99] u
   in concat (tx_queue list_ring_bytes v) = htk_frame_encode [0x10, 1] HTK_MAX_FRAME \<and>
      (\<exists>sent rest. tx_queue list_ring_bytes u @ [[]] = (sent @ rest) # tl (tx_queue list_ring_bytes u @ [[]]) \<and>
         cdc_out v = cdc_out u @ sent)"
proof -
  let ?u = "fst (usb_run list_ring [UsbStatus USB_DC_CONFIGURED, SendPayload [0x14], SendPayload [0x10, 1]]
       (usb_io_boot (2048, []) (256, [])))"
  have inv: "tx_inv list_ring_bytes ?u"
    by (rule tx_inv_run [OF list_ring_law]) simp_all
  have "concat (tx_queue list_ring_bytes (cdc_irq_handler list_ring [iter_fill 99, iter_fill 99] ?u)) =
      htk_frame_encode [0x10, 1] HTK_MAX_FRAME" by code_simp
  with usb_irq_sends_one_frame [OF list_ring_law inv, of "[iter_fill 99, iter_fill 99]"]
  show ?thesis by (simp only: Let_def list.pred_inject iter_laws) blast
qed

text \<open>C28. Progress: once the driver takes at least one byte in each transmit callback, every queued frame is
  out after at most as many callbacks as bytes wait, in order, and the queue is empty.\<close>

theorem usb_queue_drains:
  assumes "ring_law ops cont cap" and "tx_inv cont u" and "list_all eager its"
    and "length (concat (tx_queue cont u)) \<le> length its"
  defines "v \<equiv> fold (\<lambda>it. cdc_irq_handler ops [it]) its u"
  shows "(tx_queue cont v = []) \<and>
    (cdc_out v = cdc_out u @ concat (tx_queue cont u))"
proof (rule conjI)
  have *: "concat (tx_queue cont v) = []" "tx_stream cont v = tx_stream cont u" "tx_inv cont v"
    using eager_callbacks [OF assms(1-3)] assms(4) by (simp_all add: v_def)
  show "tx_queue cont v = []" by (rule no_bytes_no_frames [OF *(3,1)])
  then show "cdc_out v = cdc_out u @ concat (tx_queue cont u)"
    using *(2) by (simp add: tx_stream_def)
qed

theorem usb_queue_drains_witness:
  "let u = fst (usb_run list_ring [UsbStatus USB_DC_CONFIGURED, SendPayload [0x14], SendPayload [0x10, 1]]
       (usb_io_boot (2048, []) (256, [])));
       v = fold (\<lambda>it. cdc_irq_handler list_ring [it]) (replicate 11 (iter_fill 1)) u
   in tx_queue list_ring_bytes v = [] \<and> cdc_out v = frames_for [[0x14], [0x10, 1]]"
proof -
  let ?u = "fst (usb_run list_ring [UsbStatus USB_DC_CONFIGURED, SendPayload [0x14], SendPayload [0x10, 1]]
       (usb_io_boot (2048, []) (256, [])))"
  have inv: "tx_inv list_ring_bytes ?u"
    by (rule tx_inv_run [OF list_ring_law]) simp_all
  have len: "length (concat (tx_queue list_ring_bytes ?u)) \<le> length (replicate 11 (iter_fill 1))"
    and q: "cdc_out ?u @ concat (tx_queue list_ring_bytes ?u) = frames_for [[0x14], [0x10, 1]]" by code_simp+
  show ?thesis
    using usb_queue_drains [OF list_ring_law inv _ len] q unfolding Let_def
    by (simp only: eager_iters zero_less_one)
qed

end
