(* ===== verification/Trackers.thy ===== *)
theory Trackers
  imports Usb_Io
begin

text \<open>
  The tracker table of the dongle, \<^verbatim>\<open>firmware/app_dongle/src/trackers.c\<close>: eight slots keyed by
  tracker id, the loss and rate accounting, and the STATUS and TRACKER_STAT packets. A spinlock makes
  each operation atomic. \<open>now\<close> is what \<^verbatim>\<open>k_uptime_get\<close> returns (a 64-bit count of milliseconds
  that does not wrap in the lifetime of a device, kept as an integer); an operation that reads the clock
  more than once takes each reading.
\<close>

subsection \<open>State\<close>

definition TRACKERS_MAX :: nat where [code_defs, simp]: "TRACKERS_MAX = 8"
definition LIVE_WINDOW_MS :: int where [code_defs, simp]: "LIVE_WINDOW_MS = 3000"
definition LINK_UP_MS :: int where [code_defs, simp]: "LINK_UP_MS = 500"
definition EVICT_SILENT_MS :: int where [code_defs, simp]: "EVICT_SILENT_MS = 30000"

record tracker =
  tk_valid :: bool
  tk_have_seq :: bool
  tk_id :: u16
  tk_last_seen :: int
  tk_last_seq :: u16
  tk_seq_lost :: u32
  tk_pkt_count :: u16
  tk_rate :: u16
  tk_vbat_mV :: u16
  tk_fw :: "u8 \<times> u8 \<times> u8"
  tk_mode :: u8

definition tracker_zero :: tracker where
  "tracker_zero = \<lparr>tk_valid = False, tk_have_seq = False, tk_id = 0, tk_last_seen = 0, tk_last_seq = 0,
     tk_seq_lost = 0, tk_pkt_count = 0, tk_rate = 0, tk_vbat_mV = 0, tk_fw = (0, 0, 0), tk_mode = 0\<rparr>"

record trackers =
  table :: "tracker list"
  rx_count_this_second :: u32
  rx_rate :: u16

definition trackers_boot :: trackers where
  "trackers_boot = \<lparr>table = replicate TRACKERS_MAX tracker_zero, rx_count_this_second = 0, rx_rate = 0\<rparr>"

subsection \<open>Operations\<close>

text \<open>
  The loop of \<^verbatim>\<open>claim\<close> from slot \<open>i\<close> on: \<open>Inl\<close> the slot that already has the id (the early
  return), or \<open>Inr\<close> the slot to take over, if any.
\<close>

fun claim_scan :: "u16 \<Rightarrow> int \<Rightarrow> tracker list \<Rightarrow> nat \<Rightarrow> nat option \<Rightarrow> nat option \<Rightarrow> nat + nat option" where
  "claim_scan tid now [] i free stale = Inr (if free \<noteq> None then free else stale)"
| "claim_scan tid now (t # ts) i free stale =
     (if tk_valid t \<and> tk_id t = tid then Inl i
      else if \<not> tk_valid t then
        claim_scan tid now ts (i + 1) (if free = None then Some i else free) stale
      else if now - tk_last_seen t > EVICT_SILENT_MS \<and> stale = None then
        claim_scan tid now ts (i + 1) free (Some i)
      else claim_scan tid now ts (i + 1) free stale)"

definition claim :: "u16 \<Rightarrow> int \<Rightarrow> tracker list \<Rightarrow> tracker list \<times> nat option" where
  "claim tid now tbl =
     (case claim_scan tid now tbl 0 None None of
        Inl i \<Rightarrow> (tbl, Some i)
      | Inr None \<Rightarrow> (tbl, None)
      | Inr (Some i) \<Rightarrow> (tbl[i := tracker_zero\<lparr>tk_valid := True, tk_id := tid\<rparr>], Some i))"

definition note_sample :: "u16 \<Rightarrow> int \<Rightarrow> tracker \<Rightarrow> tracker" where
  "note_sample seq now t =
     (let t = t\<lparr>tk_last_seen := now\<rparr>;
          t = (if tk_pkt_count t < 0xFFFF then t\<lparr>tk_pkt_count := tk_pkt_count t + 1\<rparr> else t) in
      if \<not> tk_have_seq t then t\<lparr>tk_have_seq := True, tk_last_seq := seq\<rparr>
      else
        (let step = seq - tk_last_seq t in
         if step \<noteq> 0 \<and> step \<le> 0x8000 then
           t\<lparr>tk_seq_lost := tk_seq_lost t + (ucast step - 1), tk_last_seq := seq\<rparr>
         else t))"

definition note_tstatus :: "htk_tstatus \<Rightarrow> int \<Rightarrow> tracker \<Rightarrow> tracker" where
  "note_tstatus ts now t =
     t\<lparr>tk_last_seen := now, tk_vbat_mV := tt_vbat_mV ts,
       tk_fw := (tt_fw_major ts, tt_fw_minor ts, tt_fw_patch ts), tk_mode := tt_mode ts\<rparr>"

definition on_packet :: "u16 \<Rightarrow> int \<Rightarrow> (tracker \<Rightarrow> tracker) \<Rightarrow> trackers \<Rightarrow> trackers" where
  "on_packet tid now upd s =
     (let s = s\<lparr>rx_count_this_second := rx_count_this_second s + 1\<rparr> in
      case claim tid now (table s) of
        (tbl, None) \<Rightarrow> s\<lparr>table := tbl\<rparr>
      | (tbl, Some i) \<Rightarrow> s\<lparr>table := tbl[i := upd (tbl ! i)]\<rparr>)"

definition trackers_on_sample :: "u16 \<Rightarrow> u16 \<Rightarrow> int \<Rightarrow> trackers \<Rightarrow> trackers" where
  "trackers_on_sample tid seq now = on_packet tid now (note_sample seq now)"

definition trackers_on_tstatus :: "htk_tstatus \<Rightarrow> int \<Rightarrow> trackers \<Rightarrow> trackers" where
  "trackers_on_tstatus ts now = on_packet (tt_id ts) now (note_tstatus ts now)"

definition status_of :: "int \<Rightarrow> int \<Rightarrow> bool \<Rightarrow> trackers \<Rightarrow> htk_status" where
  "status_of now uptime sim_active s =
     \<lparr>st_type = HTK_PKT_STATUS, st_uptime_ms = word_of_int uptime, st_rx_rate = rx_rate s,
      st_n_trackers =
        fold (\<lambda>t n. if tk_valid t \<and> now - tk_last_seen t < LIVE_WINDOW_MS then n + 1 else n) (table s) 0,
      st_flags = (if sim_active then HTK_STATUS_SIM_ACTIVE else 0)\<rparr>"

definition tracker_stat_of :: "int \<Rightarrow> tracker \<Rightarrow> htk_tracker_stat" where
  "tracker_stat_of now t =
     (let age = now - tk_last_seen t in
      \<lparr>ts_type = HTK_PKT_TRACKER_STAT, ts_id = tk_id t,
       ts_age_ms = (if age < 0 then 0 else word_of_int age), ts_rate = tk_rate t,
       ts_seq_lost = tk_seq_lost t, ts_vbat_mV = tk_vbat_mV t, ts_fw_major = fst (tk_fw t),
       ts_fw_minor = fst (snd (tk_fw t)), ts_fw_patch = snd (snd (tk_fw t)), ts_mode = tk_mode t,
       ts_flags = (if age < LINK_UP_MS then HTK_TSTAT_LINK_UP else 0)\<rparr>)"

definition emit_locked_snapshot ::
  "'r ring_ops \<Rightarrow> int \<Rightarrow> int \<Rightarrow> bool \<Rightarrow> trackers \<Rightarrow> 'r usb_io \<Rightarrow> 'r usb_io" where
  "emit_locked_snapshot ops now uptime sim_active s u =
     fold (\<lambda>t u. if \<not> tk_valid t then u
                 else usb_io_send_payload ops (enc_tracker_stat (tracker_stat_of now t)) u)
       (table s) (usb_io_send_payload ops (enc_status (status_of now uptime sim_active s)) u)"

definition tick_slot :: "int \<Rightarrow> tracker \<Rightarrow> tracker" where
  "tick_slot now t =
     (if \<not> tk_valid t then t
      else
        (let t = t\<lparr>tk_rate := tk_pkt_count t, tk_pkt_count := 0\<rparr> in
         if now - tk_last_seen t > EVICT_SILENT_MS then t\<lparr>tk_valid := False\<rparr> else t))"

definition tick_table :: "int \<Rightarrow> trackers \<Rightarrow> trackers" where
  "tick_table now s =
     \<lparr>table = map (tick_slot now) (table s), rx_count_this_second = 0,
      rx_rate = (if rx_count_this_second s > 0xFFFF then 0xFFFF else ucast (rx_count_this_second s))\<rparr>"

definition trackers_tick_1hz ::
  "'r ring_ops \<Rightarrow> int \<Rightarrow> int \<Rightarrow> int \<Rightarrow> bool \<Rightarrow> trackers \<times> 'r usb_io \<Rightarrow> trackers \<times> 'r usb_io" where
  "trackers_tick_1hz ops now now1 now2 sim_active x = (case x of (s, u) \<Rightarrow>
     let s = tick_table now s in (s, emit_locked_snapshot ops now1 now2 sim_active s u))"

definition trackers_emit_stats ::
  "'r ring_ops \<Rightarrow> int \<Rightarrow> int \<Rightarrow> bool \<Rightarrow> trackers \<times> 'r usb_io \<Rightarrow> trackers \<times> 'r usb_io" where
  "trackers_emit_stats ops now uptime sim_active x = (case x of (s, u) \<Rightarrow>
     (s, emit_locked_snapshot ops now uptime sim_active s u))"

subsection \<open>The table as a map from ids\<close>

definition entry_for :: "u16 \<Rightarrow> tracker list \<Rightarrow> tracker option" where
  "entry_for tid tbl = List.find (\<lambda>t. tk_valid t \<and> tk_id t = tid) tbl"

definition slots_distinct :: "tracker list \<Rightarrow> bool" where
  "slots_distinct tbl \<longleftrightarrow> (\<forall>i < length tbl. \<forall>j < length tbl.
     tk_valid (tbl ! i) \<and> tk_valid (tbl ! j) \<and> tk_id (tbl ! i) = tk_id (tbl ! j) \<longrightarrow> i = j)"

definition trackers_inv :: "trackers \<Rightarrow> bool" where
  "trackers_inv s \<longleftrightarrow> length (table s) = TRACKERS_MAX \<and> slots_distinct (table s)"

definition takeable :: "int \<Rightarrow> tracker \<Rightarrow> bool" where
  "takeable now t \<longleftrightarrow> \<not> tk_valid t \<or> now - tk_last_seen t > EVICT_SILENT_MS"

definition fresh_tracker :: "u16 \<Rightarrow> tracker" where
  "fresh_tracker tid = tracker_zero\<lparr>tk_valid := True, tk_id := tid\<rparr>"

lemma trackers_inv_boot: "trackers_inv trackers_boot"
  by (simp add: trackers_inv_def trackers_boot_def slots_distinct_def tracker_zero_def)

lemma slots_distinctD:
  "slots_distinct tbl \<Longrightarrow> i < length tbl \<Longrightarrow> j < length tbl \<Longrightarrow> tk_valid (tbl ! i) \<Longrightarrow> tk_valid (tbl ! j) \<Longrightarrow>
    tk_id (tbl ! i) = tk_id (tbl ! j) \<Longrightarrow> i = j"
  by (simp add: slots_distinct_def)

lemma entry_Some:
  assumes "slots_distinct tbl"
  shows "entry_for tid tbl = Some t \<longleftrightarrow>
    (\<exists>i < length tbl. tbl ! i = t \<and> tk_valid t \<and> tk_id t = tid)"
  using assms by (auto simp: entry_for_def find_Some_iff slots_distinct_def) (metis less_trans nat_neq_iff)+

lemma entry_SomeD: "entry_for tid tbl = Some t \<Longrightarrow> tk_valid t \<and> tk_id t = tid \<and> t \<in> set tbl"
  by (auto simp: entry_for_def find_Some_iff)

lemma entry_None: "entry_for tid tbl = None \<longleftrightarrow> (\<forall>t \<in> set tbl. \<not> (tk_valid t \<and> tk_id t = tid))"
  by (auto simp: entry_for_def find_None_iff)

lemma claim_scan_Inl:
  "claim_scan tid now ts i free stale = Inl k \<Longrightarrow>
    \<exists>j < length ts. k = i + j \<and> tk_valid (ts ! j) \<and> tk_id (ts ! j) = tid"
  by (induction tid now ts i free stale rule: claim_scan.induct)
    (fastforce split: if_splits simp: less_Suc_eq_0_disj)+

lemma claim_scan_none_matches:
  "claim_scan tid now ts i free stale = Inr r \<Longrightarrow> t \<in> set ts \<Longrightarrow> \<not> (tk_valid t \<and> tk_id t = tid)"
  by (induction tid now ts i free stale rule: claim_scan.induct) (auto split: if_splits)

text \<open>The three ways past a slot that is not the one looked for.\<close>

lemma claim_scan_step:
  assumes "claim_scan tid now (t # ts) i free stale = Inr r"
  obtains (invalid) "\<not> tk_valid t"
      "claim_scan tid now ts (Suc i) (if free = None then Some i else free) stale = Inr r"
    | (silent) "takeable now t" "stale = None" "claim_scan tid now ts (Suc i) free (Some i) = Inr r"
    | (recent) "tk_valid t" "takeable now t \<Longrightarrow> stale \<noteq> None" "claim_scan tid now ts (Suc i) free stale = Inr r"
proof (cases "tk_valid t")
  case True
  then have "tk_id t \<noteq> tid" using assms by auto
  with True assms silent recent show thesis
    by (cases "takeable now t \<and> stale = None") (auto simp: takeable_def)
next
  case False
  with assms invalid show thesis by simp
qed

lemma claim_scan_full:
  "claim_scan tid now ts i free stale = Inr None \<Longrightarrow>
    free = None \<and> stale = None \<and> (\<forall>t \<in> set ts. \<not> takeable now t)"
proof (induction ts arbitrary: i free stale)
  case Nil
  then show ?case by (cases free) simp_all
next
  case (Cons t ts)
  from Cons.prems show ?case
  proof (cases rule: claim_scan_step)
    case invalid
    from Cons.IH [OF invalid(2)] show ?thesis by (cases free) simp_all
  next
    case silent
    from Cons.IH [OF silent(3)] show ?thesis by simp
  next
    case recent
    from Cons.IH [OF recent(3)] recent(2) show ?thesis by auto
  qed
qed

lemma claim_scan_takes:
  "claim_scan tid now ts i free stale = Inr (Some k) \<Longrightarrow>
    free = Some k \<or> stale = Some k \<or> (i \<le> k \<and> k < i + length ts \<and> takeable now (ts ! (k - i)))"
proof (induction ts arbitrary: i free stale)
  case Nil
  then show ?case by (cases free) simp_all
next
  case (Cons t ts)
  have shift: "(t # ts) ! (k - i) = ts ! (k - Suc i)" if "Suc i \<le> k"
    using that by (metis Suc_diff_Suc Suc_le_eq nth_Cons_Suc)
  from Cons.prems show ?case
  proof (cases rule: claim_scan_step)
    case invalid
    from Cons.IH [OF invalid(2)] invalid(1) shift show ?thesis
      by (cases free) (auto simp: takeable_def)
  next
    case silent
    from Cons.IH [OF silent(3)] silent(1) shift show ?thesis by auto
  next
    case recent
    from Cons.IH [OF recent(3)] shift show ?thesis by auto
  qed
qed

lemma claim_cases:
  assumes "slots_distinct tbl"
  obtains (known) i where "claim tid now tbl = (tbl, Some i)" "i < length tbl" "entry_for tid tbl = Some (tbl ! i)"
    | (taken) i where "claim tid now tbl = (tbl[i := fresh_tracker tid], Some i)" "i < length tbl"
        "entry_for tid tbl = None" "takeable now (tbl ! i)"
    | (full) "claim tid now tbl = (tbl, None)" "entry_for tid tbl = None" "\<forall>t \<in> set tbl. \<not> takeable now t"
proof (cases "claim_scan tid now tbl 0 None None")
  case (Inl i)
  from claim_scan_Inl [OF this] have "i < length tbl" "tk_valid (tbl ! i)" "tk_id (tbl ! i) = tid" by auto
  with Inl known [of i] show ?thesis by (auto simp: claim_def entry_Some [OF assms])
next
  case (Inr r)
  have no: "entry_for tid tbl = None" using claim_scan_none_matches [OF Inr] by (auto simp: entry_None)
  show ?thesis
  proof (cases r)
    case None
    with Inr no full claim_scan_full [of tid now tbl 0 None None] show ?thesis by (simp add: claim_def)
  next
    case (Some i)
    with Inr no taken [of i] claim_scan_takes [of tid now tbl 0 None None i]
    show ?thesis by (simp add: claim_def fresh_tracker_def)
  qed
qed

text \<open>Updating one slot, when the id it gets is not elsewhere.\<close>

lemma update_slot:
  assumes d: "slots_distinct tbl" and i: "i < length tbl" and t: "tk_valid t" "tk_id t = tid"
    and only: "entry_for tid tbl \<in> {None, Some (tbl ! i)}"
  shows "slots_distinct (tbl[i := t])" and "entry_for tid (tbl[i := t]) = Some t"
    and "tid' \<noteq> tid \<Longrightarrow> entry_for tid' (tbl[i := t]) =
      (if tk_valid (tbl ! i) \<and> tk_id (tbl ! i) = tid' then None else entry_for tid' tbl)"
proof -
  have other: "j = i" if j: "j < length tbl" "tk_valid (tbl ! j)" "tk_id (tbl ! j) = tid" for j
  proof -
    have "entry_for tid tbl = Some (tbl ! j)" using j by (auto simp: entry_Some [OF d])
    with only have "tbl ! j = tbl ! i" by auto
    with j i show "j = i" by (auto intro: slots_distinctD [OF d])
  qed
  have hit: "a = i \<or> b = i \<Longrightarrow> a = b" if "a < length tbl" "b < length tbl" "tk_valid (tbl[i := t] ! a)"
    "tk_valid (tbl[i := t] ! b)" "tk_id (tbl[i := t] ! a) = tk_id (tbl[i := t] ! b)" for a b
    using that t other [of a] other [of b] by (metis nth_list_update)
  show d': "slots_distinct (tbl[i := t])"
    unfolding slots_distinct_def
  proof (intro allI impI)
    fix a b
    assume h: "a < length (tbl[i := t])" "b < length (tbl[i := t])"
      "tk_valid (tbl[i := t] ! a) \<and> tk_valid (tbl[i := t] ! b) \<and> tk_id (tbl[i := t] ! a) = tk_id (tbl[i := t] ! b)"
    show "a = b"
    proof (cases "a = i \<or> b = i")
      case True
      with hit h show ?thesis by simp
    next
      case False
      with h show ?thesis by (intro slots_distinctD [OF d]) simp_all
    qed
  qed
  show "entry_for tid (tbl[i := t]) = Some t"
    using t i by (auto simp: entry_Some [OF d'])
  show "entry_for tid' (tbl[i := t]) =
      (if tk_valid (tbl ! i) \<and> tk_id (tbl ! i) = tid' then None else entry_for tid' tbl)" if "tid' \<noteq> tid"
  proof (cases "tk_valid (tbl ! i) \<and> tk_id (tbl ! i) = tid'")
    case True
    have "entry_for tid' (tbl[i := t]) \<noteq> Some t'" for t'
      using True d i t that
      by (auto simp: entry_Some [OF d'] nth_list_update slots_distinct_def)
    with True show ?thesis by (metis not_None_eq)
  next
    case False
    have "entry_for tid' (tbl[i := t]) = Some t' \<longleftrightarrow> entry_for tid' tbl = Some t'" for t'
      using False d i t that
      by (auto simp: entry_Some [OF d'] entry_Some [OF d] nth_list_update)
    with False show ?thesis by (metis not_None_eq)
  qed
qed

subsection \<open>What a packet does to the map\<close>

definition keeps_id :: "(tracker \<Rightarrow> tracker) \<Rightarrow> bool" where
  "keeps_id upd \<longleftrightarrow> (\<forall>t. tk_valid (upd t) = tk_valid t \<and> tk_id (upd t) = tk_id t)"

lemma keeps_id_note [simp]: "keeps_id (note_sample seq now)" "keeps_id (note_tstatus ts now)"
  by (simp_all add: keeps_id_def note_sample_def note_tstatus_def Let_def)

lemma length_claim [simp]: "claim tid now tbl = (tbl', r) \<Longrightarrow> length tbl' = length tbl"
  by (auto simp: claim_def split: sum.splits option.splits)

text \<open>A takeable slot given to another id: this id has no other entry, and no third one is touched.\<close>

lemma take_slot:
  assumes d: "slots_distinct tbl" and i: "i < length tbl" and free: "takeable now (tbl ! i)" and t: "tk_valid t" "tk_id t = tid"
    and none: "entry_for tid tbl = None" and other: "tid' \<noteq> tid"
  shows "entry_for tid' (tbl[i := t]) = entry_for tid' tbl \<or>
    (entry_for tid' (tbl[i := t]) = None \<and> (\<exists>t. entry_for tid' tbl = Some t \<and> takeable now t))"
proof -
  have only: "entry_for tid tbl \<in> {None, Some (tbl ! i)}" using none by simp
  note us = update_slot(3) [OF d i t only other]
  have "entry_for tid' tbl = Some (tbl ! i)" if "tk_valid (tbl ! i)" "tk_id (tbl ! i) = tid'"
    using that i unfolding entry_Some [OF d] by blast
  with us free show ?thesis by (cases "tk_valid (tbl ! i) \<and> tk_id (tbl ! i) = tid'") auto
qed

lemma on_packet_table:
  fixes tid tid' :: u16 and now :: int
  assumes d: "slots_distinct (table s)" and upd: "keeps_id upd"
  defines "s' \<equiv> on_packet tid now upd s"
  shows "slots_distinct (table s')" and "length (table s') = length (table s)"
    and "entry_for tid (table s') =
      (case entry_for tid (table s) of
         Some t \<Rightarrow> Some (upd t)
       | None \<Rightarrow> if \<exists>t \<in> set (table s). takeable now t then Some (upd (fresh_tracker tid)) else None)"
    and "tid' \<noteq> tid \<Longrightarrow> entry_for tid' (table s') = entry_for tid' (table s) \<or>
      (entry_for tid' (table s') = None \<and> (\<exists>t. entry_for tid' (table s) = Some t \<and> takeable now t))"
proof -
  have fresh: "tk_valid (upd (fresh_tracker tid))" "tk_id (upd (fresh_tracker tid)) = tid"
    using upd by (simp_all add: keeps_id_def fresh_tracker_def)
  from d have "slots_distinct (table s') \<and> length (table s') = length (table s) \<and>
    entry_for tid (table s') =
      (case entry_for tid (table s) of
         Some t \<Rightarrow> Some (upd t)
       | None \<Rightarrow> if \<exists>t \<in> set (table s). takeable now t then Some (upd (fresh_tracker tid)) else None) \<and>
    (tid' \<noteq> tid \<longrightarrow> entry_for tid' (table s') = entry_for tid' (table s) \<or>
      (entry_for tid' (table s') = None \<and> (\<exists>t. entry_for tid' (table s) = Some t \<and> takeable now t)))"
  proof (cases rule: claim_cases [where tid = tid and now = now])
    case (known i)
    from entry_SomeD [OF known(3)] have i: "tk_valid (table s ! i)" "tk_id (table s ! i) = tid" by simp_all
    then have u: "tk_valid (upd (table s ! i))" "tk_id (upd (table s ! i)) = tid"
      using upd by (simp_all add: keeps_id_def)
    have only: "entry_for tid (table s) \<in> {None, Some (table s ! i)}" using known(3) by simp
    note us = update_slot(1,2) [OF d known(2) u only] update_slot(3) [OF d known(2) u only, where tid' = tid']
    have s': "table s' = (table s)[i := upd (table s ! i)]"
      using known(1) by (simp add: s'_def on_packet_def Let_def)
    show ?thesis unfolding s' using us i known(3) by auto
  next
    case (taken i)
    have free: "\<exists>t \<in> set (table s). takeable now t" using taken by (metis nth_mem)
    have only: "entry_for tid (table s) \<in> {None, Some (table s ! i)}" using taken(3) by simp
    note us = update_slot(1,2) [OF d taken(2) fresh only]
    have s': "table s' = (table s)[i := upd (fresh_tracker tid)]"
      using taken(1,2) by (simp add: s'_def on_packet_def Let_def)
    note other = take_slot [OF d taken(2,4) fresh taken(3), of tid']
    have mine: "(case entry_for tid (table s) of
         Some t \<Rightarrow> Some (upd t)
       | None \<Rightarrow> if \<exists>t \<in> set (table s). takeable now t then Some (upd (fresh_tracker tid)) else None) =
      Some (upd (fresh_tracker tid))"
      using taken(3) free by simp
    show ?thesis unfolding mine using us(1,2) other by (simp add: s')
  next
    case full
    have s': "table s' = table s" using full(1) by (simp add: s'_def on_packet_def Let_def)
    have "\<not> (\<exists>t \<in> set (table s). takeable now t)" using full(3) by blast
    then show ?thesis using d full(2) by (simp only: s' option.case if_False simp_thms)
  qed
  then show "slots_distinct (table s')" and "length (table s') = length (table s)"
    and "entry_for tid (table s') =
      (case entry_for tid (table s) of
         Some t \<Rightarrow> Some (upd t)
       | None \<Rightarrow> if \<exists>t \<in> set (table s). takeable now t then Some (upd (fresh_tracker tid)) else None)"
    and "tid' \<noteq> tid \<Longrightarrow> entry_for tid' (table s') = entry_for tid' (table s) \<or>
      (entry_for tid' (table s') = None \<and> (\<exists>t. entry_for tid' (table s) = Some t \<and> takeable now t))"
    by blast+
qed

lemma tick_slot_simps [simp]:
  "tk_id (tick_slot now t) = tk_id t" "tk_valid (tick_slot now t) \<longleftrightarrow> tk_valid t \<and> \<not> takeable now t"
  by (auto simp: tick_slot_def takeable_def Let_def)

lemma tick_table_map:
  assumes d: "slots_distinct (table s)"
  shows "slots_distinct (table (tick_table now s))"
    and "entry_for tid (table (tick_table now s)) =
      (case entry_for tid (table s) of
         Some t \<Rightarrow> if takeable now t then None else Some (tick_slot now t) | None \<Rightarrow> None)"
proof -
  show d': "slots_distinct (table (tick_table now s))"
    unfolding slots_distinct_def
    by (intro allI impI slots_distinctD [OF d]) (auto simp: tick_table_def)
  have "entry_for tid (table (tick_table now s)) = Some t' \<longleftrightarrow>
      (\<exists>t. entry_for tid (table s) = Some t \<and> \<not> takeable now t \<and> t' = tick_slot now t)" for t'
    by (auto simp: entry_Some [OF d'] entry_Some [OF d]) (auto simp: tick_table_def)
  then show "entry_for tid (table (tick_table now s)) =
      (case entry_for tid (table s) of
         Some t \<Rightarrow> if takeable now t then None else Some (tick_slot now t) | None \<Rightarrow> None)"
    by (cases "entry_for tid (table (tick_table now s))"; cases "entry_for tid (table s)") auto
qed

lemma on_packet_inv: "trackers_inv s \<Longrightarrow> keeps_id upd \<Longrightarrow> trackers_inv (on_packet tid now upd s)"
  using on_packet_table by (simp add: trackers_inv_def)

lemma tick_inv: "trackers_inv s \<Longrightarrow> trackers_inv (tick_table now s)"
  using tick_table_map by (auto simp: trackers_inv_def) (simp add: tick_table_def)

subsection \<open>Histories\<close>

text \<open>What happens to the table between emissions, each with its time; \<open>trk_step\<close> is the code's reaction.\<close>

datatype trk_event =
    Sample u16 u16 int
  | TStatus htk_tstatus int
  | Tick int

fun trk_step :: "trk_event \<Rightarrow> trackers \<Rightarrow> trackers" where
  "trk_step (Sample tid seq now) = trackers_on_sample tid seq now"
| "trk_step (TStatus ts now) = trackers_on_tstatus ts now"
| "trk_step (Tick now) = tick_table now"

fun ev_time :: "trk_event \<Rightarrow> int" where
  "ev_time (Sample tid seq now) = now"
| "ev_time (TStatus ts now) = now"
| "ev_time (Tick now) = now"

fun ev_from :: "u16 \<Rightarrow> trk_event \<Rightarrow> bool" where
  "ev_from tid (Sample tid' seq now) \<longleftrightarrow> tid' = tid"
| "ev_from tid (TStatus ts now) \<longleftrightarrow> tt_id ts = tid"
| "ev_from tid (Tick now) \<longleftrightarrow> False"

text \<open>
  \<open>on_time tid heard evs\<close>: whenever something happens, tracker \<open>tid\<close> has been heard in the 30 s before.
  \<open>sample_seqs\<close> are the sequence numbers of its samples, and \<open>steps_ok n ns\<close> says that the tracker's
  own packet count goes up from \<open>n\<close>, by at most half of the 16-bit range at a time.
\<close>

fun on_time :: "u16 \<Rightarrow> int \<Rightarrow> trk_event list \<Rightarrow> bool" where
  "on_time tid heard [] \<longleftrightarrow> True"
| "on_time tid heard (ev # evs) \<longleftrightarrow>
     ev_time ev - heard \<le> EVICT_SILENT_MS \<and> on_time tid (if ev_from tid ev then ev_time ev else heard) evs"

fun sample_seqs :: "u16 \<Rightarrow> trk_event list \<Rightarrow> u16 list" where
  "sample_seqs tid [] = []"
| "sample_seqs tid (Sample tid' seq now # evs) = (if tid' = tid then [seq] else []) @ sample_seqs tid evs"
| "sample_seqs tid (ev # evs) = sample_seqs tid evs"

fun steps_ok :: "nat \<Rightarrow> nat list \<Rightarrow> bool" where
  "steps_ok n [] \<longleftrightarrow> True"
| "steps_ok n (m # ns) \<longleftrightarrow> n < m \<and> m \<le> n + 0x8000 \<and> steps_ok m ns"

fun entry_step :: "u16 \<Rightarrow> trk_event \<Rightarrow> tracker \<Rightarrow> tracker" where
  "entry_step tid (Sample tid' seq now) t = (if tid' = tid then note_sample seq now t else t)"
| "entry_step tid (TStatus ts now) t = (if tt_id ts = tid then note_tstatus ts now t else t)"
| "entry_step tid (Tick now) t = tick_slot now t"

lemma trk_step_inv: "trackers_inv s \<Longrightarrow> trackers_inv (trk_step ev s)"
  by (cases ev) (simp_all add: trackers_on_sample_def trackers_on_tstatus_def on_packet_inv tick_inv)

lemma packet_entry:
  assumes "trackers_inv s" and "keeps_id upd" and "entry_for tid (table s) = Some t"
    and "now - tk_last_seen t \<le> EVICT_SILENT_MS"
  shows "entry_for tid (table (on_packet tid' now upd s)) = Some (if tid' = tid then upd t else t)"
proof -
  have d: "slots_distinct (table s)" using assms(1) by (simp add: trackers_inv_def)
  have recent: "\<not> takeable now t" using entry_SomeD [OF assms(3)] assms(4) by (simp add: takeable_def)
  show ?thesis
  proof (cases "tid' = tid")
    case True
    then show ?thesis using on_packet_table(3) [OF d assms(2), of tid now] assms(3) by simp
  next
    case False
    then have "tid \<noteq> tid'" by simp
    from on_packet_table(4) [OF d assms(2) this, of now] recent assms(3) False show ?thesis by auto
  qed
qed

lemma trk_step_entry:
  assumes "trackers_inv s" and "entry_for tid (table s) = Some t" and "ev_time ev - tk_last_seen t \<le> EVICT_SILENT_MS"
  shows "entry_for tid (table (trk_step ev s)) = Some (entry_step tid ev t)"
proof (cases ev)
  case (Sample tid' seq now)
  then show ?thesis using packet_entry [OF assms(1) _ assms(2)] assms(3) by (simp add: trackers_on_sample_def)
next
  case (TStatus ts now)
  then show ?thesis using packet_entry [OF assms(1) _ assms(2)] assms(3) by (simp add: trackers_on_tstatus_def)
next
  case (Tick now)
  then show ?thesis using tick_table_map(2) assms entry_SomeD [OF assms(2)]
    by (simp add: trackers_inv_def takeable_def)
qed

lemma entry_step_last_seen:
  "tk_last_seen (entry_step tid ev t) = (if ev_from tid ev then ev_time ev else tk_last_seen t)"
  by (cases ev) (simp_all add: note_sample_def note_tstatus_def tick_slot_def Let_def)

lemma trk_run_entry:
  assumes "trackers_inv s" and "entry_for tid (table s) = Some t" and "on_time tid (tk_last_seen t) evs"
  shows "entry_for tid (table (fold trk_step evs s)) = Some (fold (entry_step tid) evs t) \<and>
    trackers_inv (fold trk_step evs s)"
  using assms
proof (induction evs arbitrary: s t)
  case (Cons ev evs)
  then show ?case
    using Cons.IH [of "trk_step ev s" "entry_step tid ev t"] trk_step_inv [of s ev] trk_step_entry [of s tid t ev]
    by (simp add: entry_step_last_seen)
qed simp

text \<open>One sample whose predecessor is known: the loss counter grows by the samples in between.\<close>

lemma note_sample_loss:
  assumes "tk_have_seq t" and "tk_last_seq t = of_nat n" and "n < m" and "m \<le> n + 0x8000"
  shows "tk_seq_lost (note_sample (of_nat m) now t) = tk_seq_lost t + of_nat (m - n - 1)"
    and "tk_last_seq (note_sample (of_nat m) now t) = of_nat m"
    and "tk_have_seq (note_sample seq now t)"
proof -
  obtain k where k: "m = n + Suc k" "k < 0x8000"
    using assms(3,4) less_imp_Suc_add [of n m] by auto
  let ?step = "of_nat m - of_nat n :: u16"
  have step: "?step = of_nat (Suc k)" using k by simp
  have le: "unat ?step = Suc k"
    unfolding step unat_of_nat using k(2) by (simp add: take_bit_eq_mod del: of_nat_Suc)
  have c: "?step \<noteq> 0" "?step \<le> 0x8000"
    using k(2) le by (auto simp: word_le_nat_alt)
  have "(ucast ?step :: u32) = of_nat (Suc k)"
    by (metis le of_nat_unat)
  then have u: "ucast ?step - 1 = (of_nat (m - n - 1) :: u32)" using k by simp
  show "tk_seq_lost (note_sample (of_nat m) now t) = tk_seq_lost t + of_nat (m - n - 1)"
    using assms(1,2) c u by (simp add: note_sample_def Let_def del: of_nat_diff)
  show "tk_last_seq (note_sample (of_nat m) now t) = of_nat m"
    using assms(1,2) c by (simp add: note_sample_def Let_def)
  show "tk_have_seq (note_sample seq now t)"
    by (simp add: note_sample_def Let_def)
qed

lemma entry_step_seq_other:
  "sample_seqs tid [ev] = [] \<Longrightarrow> tk_seq_lost (entry_step tid ev t) = tk_seq_lost t \<and>
    tk_last_seq (entry_step tid ev t) = tk_last_seq t \<and> tk_have_seq (entry_step tid ev t) = tk_have_seq t"
  by (cases ev) (auto simp: note_tstatus_def tick_slot_def Let_def)

lemma sample_seqs_Cons: "sample_seqs tid (ev # evs) = sample_seqs tid [ev] @ sample_seqs tid evs"
  by (cases ev) simp_all

lemma steps_ok_last: "steps_ok n ns \<Longrightarrow> n + length ns \<le> last (n # ns)"
proof (induction ns arbitrary: n)
  case (Cons m ns)
  from Cons.IH [of m] Cons.prems show ?case by (cases ns) auto
qed simp

lemma run_loss:
  assumes "tk_have_seq t" and "tk_last_seq t = of_nat n"
    and "sample_seqs tid evs = map of_nat ns" and "steps_ok n ns"
  shows "tk_seq_lost (fold (entry_step tid) evs t) = tk_seq_lost t + of_nat (last (n # ns) - n - length ns)"
  using assms
proof (induction evs arbitrary: t n ns)
  case (Cons ev evs)
  show ?case
  proof (cases "sample_seqs tid [ev]")
    case Nil
    with entry_step_seq_other [OF Nil, of t] Cons.IH [of "entry_step tid ev t" n ns] Cons.prems
    show ?thesis by (simp add: sample_seqs_Cons [of tid ev evs])
  next
    case (Cons q qs)
    then obtain now where ev: "ev = Sample tid q now" "qs = []" by (cases ev) (auto split: if_splits)
    with Cons.prems obtain m ms where ns: "ns = m # ms" "q = of_nat m" "sample_seqs tid evs = map of_nat ms"
      by (cases ns) auto
    with Cons.prems have st: "n < m" "m \<le> n + 0x8000" "steps_ok m ms" by simp_all
    note loss = note_sample_loss [OF Cons.prems(1,2) st(1,2)]
    have "tk_seq_lost (fold (entry_step tid) (ev # evs) t) =
        tk_seq_lost t + of_nat (m - n - 1) + of_nat (last (m # ms) - m - length ms)"
      using Cons.IH [of "note_sample q now t" m ms] loss ns st(3) ev by simp
    moreover have "m - n - 1 + (last (m # ms) - m - length ms) = last (n # ns) - n - length ns"
      using st(1) steps_ok_last [OF st(3)] ns(1) by simp
    ultimately show ?thesis by (metis add.assoc of_nat_add)
  qed
qed simp

lemma u16_max: "unat (c :: u16) \<le> 0xFFFF"
proof -
  have "unat c < 2 ^ LENGTH(16)" by (rule unsigned_less)
  then show ?thesis by simp
qed

lemma note_sample_count:
  "unat (tk_pkt_count (note_sample seq now t)) = min 0xFFFF (unat (tk_pkt_count t) + 1)"
proof -
  have "unat (c + 1) = unat c + 1" if "c < 0xFFFF" for c :: u16
  proof -
    have "unat c < 0xFFFF" using that by (simp add: word_less_nat_alt)
    then show ?thesis by (simp add: unat_word_ariths)
  qed
  moreover have "unat c = 0xFFFF" if "\<not> c < 0xFFFF" for c :: u16
    using that u16_max [of c] by (simp add: word_less_nat_alt)
  ultimately show ?thesis by (auto simp: note_sample_def Let_def min_def word_less_nat_alt)
qed

fun no_tick :: "trk_event \<Rightarrow> bool" where
  "no_tick (Tick now) \<longleftrightarrow> False"
| "no_tick _ \<longleftrightarrow> True"

lemma run_count:
  "list_all no_tick evs \<Longrightarrow>
    unat (tk_pkt_count (fold (entry_step tid) evs t)) =
    min 0xFFFF (unat (tk_pkt_count t) + length (sample_seqs tid evs))"
proof (induction evs arbitrary: t)
  case Nil
  then show ?case using u16_max [of "tk_pkt_count t"] by simp
next
  case (Cons ev evs)
  then show ?case
    by (cases ev) (auto simp: note_sample_count note_tstatus_def)
qed

lemma run_rx_count:
  "list_all no_tick evs \<Longrightarrow>
    rx_count_this_second (fold trk_step evs s) = rx_count_this_second s + of_nat (length evs)"
proof (induction evs arbitrary: s)
  case (Cons ev evs)
  have "rx_count_this_second (on_packet tid now upd s) = rx_count_this_second s + 1" for tid now upd
    by (simp add: on_packet_def Let_def split: prod.split option.split)
  with Cons show ?case
    by (cases ev) (simp_all add: trackers_on_sample_def trackers_on_tstatus_def ac_simps)
qed simp

subsection \<open>Properties\<close>

text \<open>C13. Sample accounting refines updating a finite map: the table always has eight slots and no id
  twice; a known tracker's entry is updated in place; a new one starts from zero in a free slot or in one
  whose tracker has been silent for over 30 s, and stays out if there is none; and no packet ever touches
  another tracker heard in the last 30 s. A TSTATUS report behaves the same way.\<close>

theorem trackers_refine_map:
  fixes tid tid' seq :: u16 and now :: int
  assumes "trackers_inv s" and "tid' \<noteq> tid" and "tt_id ts = tid"
  defines "a \<equiv> trackers_on_sample tid seq now s" and "b \<equiv> trackers_on_tstatus ts now s"
    and "upd f old \<equiv> (case old of Some t \<Rightarrow> Some (f t)
      | None \<Rightarrow> if \<exists>t \<in> set (table s). takeable now t then Some (f (fresh_tracker tid)) else None)"
  shows "trackers_inv a \<and>
    trackers_inv b \<and>
    (entry_for tid (table a) = upd (note_sample seq now) (entry_for tid (table s))) \<and>
    (entry_for tid (table b) = upd (note_tstatus ts now) (entry_for tid (table s))) \<and>
    (entry_for tid' (table s) = Some t \<and> now - tk_last_seen t \<le> EVICT_SILENT_MS \<longrightarrow>
      entry_for tid' (table a) = Some t \<and> entry_for tid' (table b) = Some t)"
proof (rule conj5I)
  have d: "slots_distinct (table s)" using assms(1) by (simp add: trackers_inv_def)
  show "trackers_inv a" "trackers_inv b"
    using trk_step_inv [OF assms(1), of "Sample tid seq now"] trk_step_inv [OF assms(1), of "TStatus ts now"]
    by (simp_all add: a_def b_def)
  show "entry_for tid (table a) = upd (note_sample seq now) (entry_for tid (table s))"
    "entry_for tid (table b) = upd (note_tstatus ts now) (entry_for tid (table s))"
    by (simp_all add: a_def b_def upd_def trackers_on_sample_def trackers_on_tstatus_def assms(3)
        on_packet_table(3) [OF d])
  show "entry_for tid' (table s) = Some t \<and> now - tk_last_seen t \<le> EVICT_SILENT_MS \<longrightarrow>
      entry_for tid' (table a) = Some t \<and> entry_for tid' (table b) = Some t"
  proof
    assume old: "entry_for tid' (table s) = Some t \<and> now - tk_last_seen t \<le> EVICT_SILENT_MS"
    show "entry_for tid' (table a) = Some t \<and> entry_for tid' (table b) = Some t"
      using packet_entry [OF assms(1) _ conjunct1 [OF old] conjunct2 [OF old]] assms(2,3)
      by (simp add: a_def b_def trackers_on_sample_def trackers_on_tstatus_def)
  qed
qed

theorem trackers_refine_map_witness:
  "let s = trackers_on_sample 9 4 900 trackers_boot;
       ts = \<lparr>tt_type = HTK_PKT_TSTATUS, tt_id = 7, tt_vbat_mV = 4012, tt_fw_major = 0, tt_fw_minor = 1,
             tt_fw_patch = 0, tt_mode = 0, tt_rate = 208, tt_uptime_s = 5\<rparr>
   in entry_for 7 (table (trackers_on_sample 7 3 1000 s)) = Some (note_sample 3 1000 (fresh_tracker 7)) \<and>
      entry_for 9 (table (trackers_on_tstatus ts 1000 s)) = Some (note_sample 4 900 (fresh_tracker 9))"
proof -
  let ?s = "trackers_on_sample 9 4 900 trackers_boot"
  let ?ts = "\<lparr>tt_type = HTK_PKT_TSTATUS, tt_id = 7, tt_vbat_mV = 4012, tt_fw_major = 0, tt_fw_minor = 1,
             tt_fw_patch = 0, tt_mode = 0, tt_rate = 208, tt_uptime_s = 5\<rparr>"
  have inv: "trackers_inv ?s"
    using trk_step_inv [OF trackers_inv_boot, of "Sample 9 4 900"] by simp
  have e: "entry_for 7 (table ?s) = None" "entry_for 9 (table ?s) = Some (note_sample 4 900 (fresh_tracker 9))"
    "\<exists>t \<in> set (table ?s). takeable 1000 t" by code_simp+
  have ids: "(9 :: u16) \<noteq> 7" "tt_id ?ts = 7" by simp_all
  note refine = trackers_refine_map [OF inv ids, of 3 1000 "note_sample 4 900 (fresh_tracker 9)"]
  have age: "1000 - tk_last_seen (note_sample 4 900 (fresh_tracker 9)) \<le> EVICT_SILENT_MS" by code_simp
  have "entry_for 7 (table (trackers_on_sample 7 3 1000 ?s)) = Some (note_sample 3 1000 (fresh_tracker 7))"
    unfolding refine [THEN conjunct2, THEN conjunct2, THEN conjunct1] e(1) option.case using e(3) by (rule if_P)
  with refine e(2) age show ?thesis unfolding Let_def by blast
qed

text \<open>C33. Loss accounting is exact: over any history in which a tracker is heard every 30 s, whatever the
  other trackers do meanwhile, if its own packet count goes up by at most 32768 between received
  samples, then \<^verbatim>\<open>seq_lost\<close> grows by exactly the number of samples that were sent and not received
  (modulo 2^32), although only 16-bit sequence numbers travel and wrap.\<close>

theorem seq_lost_exact:
  assumes "trackers_inv s" and "entry_for tid (table s) = Some t" and "on_time tid (tk_last_seen t) evs"
    and "tk_have_seq t" and "tk_last_seq t = of_nat n"
    and "sample_seqs tid evs = map of_nat ns" and "steps_ok n ns"
  shows "\<exists>t'. entry_for tid (table (fold trk_step evs s)) = Some t' \<and>
    tk_seq_lost t' = tk_seq_lost t + of_nat (last (n # ns) - n - length ns)"
  using trk_run_entry [OF assms(1-3)] run_loss [OF assms(4-7)] by simp

theorem seq_lost_exact_witness:
  "let s = trackers_on_sample 7 65534 1000 trackers_boot;
       evs = [Sample 7 65535 1005, Sample 9 3 1010, Sample 7 2 1020, Tick 2000, Sample 7 3 2001]
   in \<exists>t'. entry_for 7 (table (fold trk_step evs s)) = Some t' \<and> tk_seq_lost t' = 2"
proof -
  let ?s = "trackers_on_sample 7 65534 1000 trackers_boot"
  let ?t = "note_sample 65534 1000 (fresh_tracker 7)"
  let ?evs = "[Sample 7 65535 1005, Sample 9 3 1010, Sample 7 2 1020, Tick 2000, Sample 7 3 2001]"
  let ?ns = "[65535, 65538, 65539] :: nat list"
  have inv: "trackers_inv ?s"
    using trk_step_inv [OF trackers_inv_boot, of "Sample 7 65534 1000"] by simp
  have e: "entry_for 7 (table ?s) = Some ?t" "on_time 7 (tk_last_seen ?t) ?evs" "tk_have_seq ?t"
    "tk_seq_lost ?t = 0" by code_simp+
  have seqs: "sample_seqs 7 ?evs = map of_nat ?ns" by simp
  have n: "tk_last_seq ?t = of_nat 65534" by (simp add: note_sample_def fresh_tracker_def tracker_zero_def)
  have "steps_ok 65534 ?ns" by simp
  from seq_lost_exact [OF inv e(1-3) n seqs this] e(4) show ?thesis by (simp only: Let_def) simp
qed

text \<open>The published rates count the second just past: after a second without a tick in which \<open>k\<close> samples
  of a tracker and \<open>m\<close> packets in all arrived, the tick sets that tracker's rate to \<open>min 65535 k\<close>
  and the dongle's receive rate to \<open>min 65535 m\<close>, and starts both counts again from zero.\<close>

theorem tick_publishes_rates:
  fixes now :: int
  assumes "trackers_inv s" and "entry_for tid (table s) = Some t" and "on_time tid (tk_last_seen t) (evs @ [Tick now])"
    and "list_all no_tick evs" and "tk_pkt_count t = 0" and "rx_count_this_second s = 0" and "length evs < 2 ^ 32"
  defines "s' \<equiv> fold trk_step (evs @ [Tick now]) s"
  shows "(\<exists>t'. entry_for tid (table s') = Some t' \<and> tk_pkt_count t' = 0 \<and>
      unat (tk_rate t') = min 0xFFFF (length (sample_seqs tid evs))) \<and>
    (unat (rx_rate s') = min 0xFFFF (length evs)) \<and>
    (rx_count_this_second s' = 0)"
proof (rule conj3I)
  let ?t = "fold (entry_step tid) evs t" and ?c = "rx_count_this_second (fold trk_step evs s)"
  have e: "entry_for tid (table s') = Some (tick_slot now ?t)"
    using trk_run_entry [OF assms(1-3)] by (simp add: s'_def)
  then have "tk_valid (tick_slot now ?t)" by (rule entry_SomeD [THEN conjunct1])
  then have "tick_slot now ?t = ?t\<lparr>tk_rate := tk_pkt_count ?t, tk_pkt_count := 0\<rparr>"
    by (auto simp: tick_slot_def takeable_def Let_def)
  with e run_count [OF assms(4), of tid t] assms(5)
  show "\<exists>t'. entry_for tid (table s') = Some t' \<and> tk_pkt_count t' = 0 \<and>
      unat (tk_rate t') = min 0xFFFF (length (sample_seqs tid evs))" by simp
  have "unat ?c = length evs"
    using run_rx_count [OF assms(4), of s] assms(6,7) by (simp add: unat_of_nat take_bit_eq_mod)
  then show "unat (rx_rate s') = min 0xFFFF (length evs)"
    by (auto simp: s'_def tick_table_def word_less_nat_alt unsigned_ucast_eq unsigned_take_bit_eq take_bit_eq_mod)
  show "rx_count_this_second s' = 0" by (simp add: s'_def tick_table_def)
qed

theorem tick_publishes_rates_witness:
  "let s = fold trk_step [Sample 7 0 1000, Tick 1001] trackers_boot;
       s' = fold trk_step [Sample 7 1 1100, Sample 9 0 1200, Sample 7 2 1300, Tick 2001] s
   in (\<exists>t'. entry_for 7 (table s') = Some t' \<and> unat (tk_rate t') = 2) \<and> unat (rx_rate s') = 3"
proof -
  let ?s = "fold trk_step [Sample 7 0 1000, Tick 1001] trackers_boot"
  let ?t = "tick_slot 1001 (note_sample 0 1000 (fresh_tracker 7))"
  let ?evs = "[Sample 7 1 1100, Sample 9 0 1200, Sample 7 2 1300]"
  have inv: "trackers_inv ?s"
    using trk_step_inv [OF trk_step_inv [OF trackers_inv_boot, of "Sample 7 0 1000"], of "Tick 1001"] by simp
  have e: "entry_for 7 (table ?s) = Some ?t" "on_time 7 (tk_last_seen ?t) (?evs @ [Tick 2001])"
    "list_all no_tick ?evs" "tk_pkt_count ?t = 0" "rx_count_this_second ?s = 0" by code_simp+
  have len: "length ?evs < 2 ^ 32" by simp
  have k: "min 65535 (length (sample_seqs 7 ?evs)) = 2" "min 65535 (length ?evs) = 3" by simp_all
  show ?thesis
    using tick_publishes_rates [OF inv e len] unfolding k append_Cons append_Nil Let_def by blast
qed

end
