(* ===== verification/Drivers.thy ===== *)
theory Drivers
  imports Protocol
begin

text \<open>
  The radio constants of \<^verbatim>\<open>firmware/common/radio/htk_radio.h\<close>, and the two interfaces of code outside the
  repository that both firmwares use: Zephyr's message queue and the Enhanced ShockBurst driver.

  A message queue is a parameter \<open>ops\<close> with a view \<open>cont\<close> of its contents, and \<open>msgq_law\<close> is what its
  documentation promises. The ESB driver is a parameter \<open>drv\<close>: it answers each call with an error code
  and moves its own state. The semaphore and the sleeps, through which time and the radio's
  interrupts act on the caller, are calls of the same kind.
\<close>

subsection \<open>Radio constants\<close>

definition HTK_RF_CHANNEL :: nat where [code_defs, simp]: "HTK_RF_CHANNEL = 77"
definition HTK_ADDR_BASE :: bytes where [code_defs, simp]: "HTK_ADDR_BASE = [0xA9, 0x5E, 0x3C, 0xD7]"
definition HTK_PREFIX_UPLINK :: u8 where [code_defs, simp]: "HTK_PREFIX_UPLINK = 0x48"
definition HTK_PREFIX_DOWNLINK :: u8 where [code_defs, simp]: "HTK_PREFIX_DOWNLINK = 0x21"
definition HTK_ESB_MAX_PAYLOAD :: nat where [code_defs, simp]: "HTK_ESB_MAX_PAYLOAD = 32"
definition HTK_BEACON_PERIOD_MS :: nat where [code_defs, simp]: "HTK_BEACON_PERIOD_MS = 100"
definition HTK_BEACON_CMD_REPEATS :: u8 where [code_defs, simp]: "HTK_BEACON_CMD_REPEATS = 30"
definition HTK_LISTEN_PERIOD_ACTIVE_MS :: int where [code_defs, simp]: "HTK_LISTEN_PERIOD_ACTIVE_MS = 1000"
definition HTK_LISTEN_PERIOD_STANDBY_MS :: int where [code_defs, simp]: "HTK_LISTEN_PERIOD_STANDBY_MS = 5000"
definition HTK_LISTEN_WINDOW_MS :: int where [code_defs, simp]: "HTK_LISTEN_WINDOW_MS = 110"
definition HTK_STANDBY_AFTER_MS :: int where [code_defs, simp]: "HTK_STANDBY_AFTER_MS = 15000"

subsection \<open>Message queues\<close>

text \<open>\<open>k_msgq_put\<close> without waiting (true when it returns 0), and \<open>k_msgq_get\<close> without waiting.\<close>

record ('a, 'q) msgq_ops =
  msgq_put :: "'a \<Rightarrow> 'q \<Rightarrow> bool \<times> 'q"
  msgq_get :: "'q \<Rightarrow> 'a option \<times> 'q"

definition msgq_law :: "('a, 'q) msgq_ops \<Rightarrow> ('q \<Rightarrow> 'a list) \<Rightarrow> nat \<Rightarrow> bool" where
  "msgq_law ops cont cap \<longleftrightarrow>
     (\<forall>q. length (cont q) \<le> cap \<and>
       (\<forall>x. fst (msgq_put ops x q) = (length (cont q) < cap) \<and>
            cont (snd (msgq_put ops x q)) = (if length (cont q) < cap then cont q @ [x] else cont q)) \<and>
       fst (msgq_get ops q) = (if cont q = [] then None else Some (hd (cont q))) \<and>
       cont (snd (msgq_get ops q)) = tl (cont q))"

lemma msgq_lawD:
  assumes "msgq_law ops cont cap"
  shows msgq_cap: "length (cont q) \<le> cap"
    and msgq_put: "msgq_put ops x q = (ok, q1) \<Longrightarrow>
      ok = (length (cont q) < cap) \<and> cont q1 = (if ok then cont q @ [x] else cont q)"
    and msgq_get: "msgq_get ops q = (r, q2) \<Longrightarrow>
      r = (if cont q = [] then None else Some (hd (cont q))) \<and> cont q2 = tl (cont q)"
  using assms unfolding msgq_law_def by (metis fst_conv snd_conv)+

text \<open>An instance, for evaluation.\<close>

definition list_msgq :: "nat \<Rightarrow> ('a, 'a list) msgq_ops" where
  "list_msgq cap =
     \<lparr>msgq_put = (\<lambda>x q. if length q < cap then (True, q @ [x]) else (False, q)),
      msgq_get = (\<lambda>q. case take cap q of [] \<Rightarrow> (None, []) | x # xs \<Rightarrow> (Some x, xs))\<rparr>"

lemma list_msgq_law: "msgq_law (list_msgq cap) (take cap) cap"
proof -
  have "(case xs of [] \<Rightarrow> (None, []) | x # xs \<Rightarrow> (Some x, xs)) =
      (if xs = [] then None else Some (hd xs), tl xs)" for xs :: "'a list"
    by (cases xs) simp_all
  then show ?thesis
    by (auto simp: msgq_law_def list_msgq_def take_all not_less split: list.split)
qed

subsection \<open>The ESB driver\<close>

datatype esb_mode = ESB_MODE_PTX | ESB_MODE_PRX

text \<open>The fields of \<^verbatim>\<open>struct esb_config\<close> that the code sets; the rest are the driver's defaults.\<close>

datatype esb_setting = ESB_PROTOCOL_ESB_DPL | ESB_BITRATE_2MBPS | ESB_CRC_16BIT

record esb_config =
  esb_protocol :: esb_setting
  esb_mode_of :: esb_mode
  esb_bitrate :: esb_setting
  esb_crc :: esb_setting
  esb_selective_auto_ack :: bool

datatype radio_call =
    EsbInit esb_config
  | EsbSetBaseAddress0 bytes
  | EsbSetPrefixes bytes
  | EsbSetRfChannel nat
  | EsbStartRx
  | EsbStopRx
  | EsbDisable
  | EsbFlushTx
  | EsbWritePayload bytes
  | SemReset
  | SemGive
  | SemTake int
  | SleepUs int

text \<open>
  What the driver's interrupt reports; \<^verbatim>\<open>ESB_EVENT_RX_RECEIVED\<close> comes with the payloads that it hands
  out before it has no more.
\<close>

datatype esb_event = RxReceived "bytes list" | TxSuccess | TxFailed

type_synonym 'd driver = "radio_call \<Rightarrow> 'd \<Rightarrow> int \<times> 'd"

text \<open>Calls made one after the other until one fails: \<^verbatim>\<open>err = f(); if (err) return err;\<close>.\<close>

fun calls_until_error :: "'d driver \<Rightarrow> radio_call list \<Rightarrow> 'd \<Rightarrow> int \<times> 'd" where
  "calls_until_error drv [] d = (0, d)"
| "calls_until_error drv (c # cs) d =
     (case drv c d of (err, d) \<Rightarrow> if err \<noteq> 0 then (err, d) else calls_until_error drv cs d)"

text \<open>A driver for evaluation: it keeps a log of its calls and fails those that \<open>err\<close> says.\<close>

definition log_driver :: "(radio_call \<Rightarrow> int) \<Rightarrow> radio_call list driver" where
  "log_driver err c d = (err c, d @ [c])"

lemma calls_log:
  "\<forall>c \<in> set cs. err c = 0 \<Longrightarrow> calls_until_error (log_driver err) cs d = (0, d @ cs)"
  by (induction cs arbitrary: d) (simp_all add: log_driver_def)

text \<open>Any driver, with the calls made of it recorded.\<close>

definition tap :: "'d driver \<Rightarrow> ('d \<times> radio_call list) driver" where
  "tap drv c x = (case x of (d, log) \<Rightarrow> case drv c d of (err, d) \<Rightarrow> (err, (d, log @ [c])))"

lemma tap_simps [simp]: "tap drv c (d, log) = (fst (drv c d), (snd (drv c d), log @ [c]))"
  by (simp add: tap_def split: prod.split)

lemma calls_tap:
  "calls_until_error (tap drv) cs (d, log) = (err, (d', log')) \<Longrightarrow>
    calls_until_error drv cs d = (err, d') \<and> (\<exists>n. log' = log @ take n cs) \<and> (err = 0 \<longrightarrow> log' = log @ cs)"
proof (induction cs arbitrary: d log)
  case Nil
  then show ?case by simp
next
  case (Cons c cs)
  show ?case
  proof (cases "fst (drv c d) = 0")
    case True
    with Cons.prems have "calls_until_error (tap drv) cs (snd (drv c d), log @ [c]) = (err, (d', log'))"
      by simp
    from Cons.IH [OF this] obtain n where
      "calls_until_error drv cs (snd (drv c d)) = (err, d')" "log' = (log @ [c]) @ take n cs"
      "err = 0 \<longrightarrow> log' = (log @ [c]) @ cs" by blast
    with True show ?thesis by (auto simp: case_prod_beta intro!: exI [of _ "Suc n"])
  next
    case False
    with Cons.prems show ?thesis by (auto simp: case_prod_beta intro: exI [of _ 1])
  qed
qed

text \<open>
  The four calls that put the radio on the fabric, in a mode and on the pipe with a given prefix.
\<close>

definition fabric_calls :: "esb_mode \<Rightarrow> u8 \<Rightarrow> radio_call list" where
  "fabric_calls mode prefix =
     [EsbInit \<lparr>esb_protocol = ESB_PROTOCOL_ESB_DPL, esb_mode_of = mode, esb_bitrate = ESB_BITRATE_2MBPS,
        esb_crc = ESB_CRC_16BIT, esb_selective_auto_ack = True\<rparr>,
      EsbSetBaseAddress0 HTK_ADDR_BASE, EsbSetPrefixes [prefix], EsbSetRfChannel HTK_RF_CHANNEL]"

fun writes :: "radio_call list \<Rightarrow> bytes list" where
  "writes [] = []"
| "writes (EsbWritePayload p # cs) = p # writes cs"
| "writes (c # cs) = writes cs"

lemma writes_append [simp]: "writes (cs @ cs') = writes cs @ writes cs'"
  by (induction cs rule: writes.induct) simp_all

lemma writes_fabric [simp]: "writes (take n (fabric_calls mode prefix)) = []" "writes (fabric_calls mode prefix) = []"
  by (simp_all add: fabric_calls_def take_Cons' numeral_eq_Suc)

end
