(* ===== verification/Dongle_Radio.thy ===== *)
theory Dongle_Radio
  imports Trackers Drivers
begin

text \<open>
  The dongle's side of the radio, \<^verbatim>\<open>firmware/app_dongle/src/radio.c\<close>, and its LEDs,
  \<^verbatim>\<open>firmware/app_dongle/src/leds.c\<close>: presence beacons that carry the pending command, the hand-off
  queue filled by the radio interrupt, and the processing thread that feeds the tracker table and
  forwards samples to USB.
\<close>

subsection \<open>LEDs\<close>

text \<open>The logical level of each pin, and whether the delayed switch-off is scheduled.\<close>

record dongle_leds =
  led_red :: bool
  led_green :: bool
  led_blue :: bool
  activity_count :: u32
  activity_off_work :: bool

definition dongle_leds_boot :: dongle_leds where
  "dongle_leds_boot = \<lparr>led_red = False, led_green = False, led_blue = False, activity_count = 0,
     activity_off_work = False\<rparr>"

definition ACTIVITY_DIV_MASK :: u32 where [code_defs, simp]: "ACTIVITY_DIV_MASK = 0x0F"

definition leds_set_red :: "bool \<Rightarrow> dongle_leds \<Rightarrow> dongle_leds" where
  "leds_set_red on l = l\<lparr>led_red := on\<rparr>"

definition leds_set_blue :: "bool \<Rightarrow> dongle_leds \<Rightarrow> dongle_leds" where
  "leds_set_blue on l = l\<lparr>led_blue := on\<rparr>"

definition activity_off_fn :: "dongle_leds \<Rightarrow> dongle_leds" where
  "activity_off_fn l = l\<lparr>led_green := False, activity_off_work := False\<rparr>"

definition leds_activity :: "dongle_leds \<Rightarrow> dongle_leds" where
  "leds_activity l =
     (let l = l\<lparr>activity_count := activity_count l + 1\<rparr> in
      if activity_count l AND ACTIVITY_DIV_MASK = 0 then
        l\<lparr>led_green := \<not> led_green l, activity_off_work := True\<rparr>
      else l)"

subsection \<open>State\<close>

definition PENDING_CMD_MAX :: nat where [code_defs, simp]: "PENDING_CMD_MAX = 8"

record pending_cmd =
  pc_buf :: bytes
  pc_len :: u8
  pc_repeats_left :: u8

record radio_beacon_stats =
  bs_attempts :: u32
  bs_sent :: u32
  bs_setup_fail :: u32
  bs_write_fail :: u32
  bs_tx_timeout :: u32
  bs_prx_fail :: u32

record 'q dongle_radio =
  pending :: pending_cmd
  beacon_seq :: u8
  rx_queue_overruns :: u32
  bcn_stats :: radio_beacon_stats
  rx_msgq :: 'q
  beacon_timer :: bool

definition dongle_radio_boot :: "'q \<Rightarrow> 'q dongle_radio" where
  "dongle_radio_boot q =
     \<lparr>pending = \<lparr>pc_buf = replicate PENDING_CMD_MAX 0, pc_len = 0, pc_repeats_left = 0\<rparr>, beacon_seq = 0,
      rx_queue_overruns = 0,
      bcn_stats = \<lparr>bs_attempts = 0, bs_sent = 0, bs_setup_fail = 0, bs_write_fail = 0, bs_tx_timeout = 0,
        bs_prx_fail = 0\<rparr>,
      rx_msgq = q, beacon_timer = False\<rparr>"

subsection \<open>The radio interrupt\<close>

definition queue_rx :: "(bytes, 'q) msgq_ops \<Rightarrow> bytes \<Rightarrow> 'q dongle_radio \<Rightarrow> 'q dongle_radio" where
  "queue_rx mq pkt r =
     (case msgq_put mq pkt (rx_msgq r) of (ok, q) \<Rightarrow>
        let r = r\<lparr>rx_msgq := q\<rparr> in
        if \<not> ok then r\<lparr>rx_queue_overruns := rx_queue_overruns r + 1\<rparr> else r)"

fun on_esb_event ::
  "(bytes, 'q) msgq_ops \<Rightarrow> 'd driver \<Rightarrow> esb_event \<Rightarrow> 'q dongle_radio \<times> 'd \<Rightarrow> 'q dongle_radio \<times> 'd" where
  "on_esb_event mq drv (RxReceived pkts) (r, d) = (fold (queue_rx mq) pkts r, d)"
| "on_esb_event mq drv TxSuccess (r, d) = (r, snd (drv SemGive d))"
| "on_esb_event mq drv TxFailed (r, d) = (r, snd (drv SemGive d))"

subsection \<open>Beacons\<close>

definition esb_setup :: "'d driver \<Rightarrow> esb_mode \<Rightarrow> 'd \<Rightarrow> int \<times> 'd" where
  "esb_setup drv mode =
     calls_until_error drv
       [EsbInit \<lparr>esb_protocol = ESB_PROTOCOL_ESB_DPL, esb_mode_of = mode, esb_bitrate = ESB_BITRATE_2MBPS,
          esb_crc = ESB_CRC_16BIT, esb_selective_auto_ack = True\<rparr>,
        EsbSetBaseAddress0 HTK_ADDR_BASE,
        EsbSetPrefixes [if mode = ESB_MODE_PTX then HTK_PREFIX_DOWNLINK else HTK_PREFIX_UPLINK],
        EsbSetRfChannel HTK_RF_CHANNEL]"

definition beacon_payload :: "'q dongle_radio \<Rightarrow> bytes \<times> 'q dongle_radio" where
  "beacon_payload r =
     (let hdr = \<lparr>bh_type = HTK_PKT_BEACON, bh_beacon_seq = beacon_seq r\<rparr>;
          r = r\<lparr>beacon_seq := beacon_seq r + 1\<rparr>;
          p = pending r in
      if pc_repeats_left p > 0 then
        (enc_beacon_hdr hdr @ take (unat (pc_len p)) (pc_buf p),
         r\<lparr>pending := p\<lparr>pc_repeats_left := pc_repeats_left p - 1\<rparr>\<rparr>)
      else (enc_beacon_hdr hdr, r))"

text \<open>The transmission between the two reconfigurations, with its outcome counted.\<close>

definition beacon_transmit ::
  "'d driver \<Rightarrow> bytes \<Rightarrow> radio_beacon_stats \<times> 'd \<Rightarrow> radio_beacon_stats \<times> 'd" where
  "beacon_transmit drv tx x = (case x of (st, d) \<Rightarrow>
     let (_, d) = drv EsbStopRx d; (_, d) = drv EsbDisable d; (err, d) = esb_setup drv ESB_MODE_PTX d in
     if err = 0 then
       (let (_, d) = drv SemReset d; (werr, d) = drv (EsbWritePayload tx) d;
            (st, d) =
              (if werr = 0 then
                 (let (serr, d) = drv (SemTake 10) d in
                  if serr \<noteq> 0 then (st\<lparr>bs_tx_timeout := bs_tx_timeout st + 1\<rparr>, d)
                  else (st\<lparr>bs_sent := bs_sent st + 1\<rparr>, d))
               else (st\<lparr>bs_write_fail := bs_write_fail st + 1\<rparr>, d));
            (_, d) = drv EsbDisable d in (st, d))
     else (st\<lparr>bs_setup_fail := bs_setup_fail st + 1\<rparr>, d))"

definition beacon_work_fn ::
  "'d driver \<Rightarrow> 'q dongle_radio \<times> dongle_leds \<times> 'd \<Rightarrow> 'q dongle_radio \<times> dongle_leds \<times> 'd" where
  "beacon_work_fn drv x = (case x of (r, l, d) \<Rightarrow>
     let (tx, r) = beacon_payload r;
         st = bcn_stats r; st = st\<lparr>bs_attempts := bs_attempts st + 1\<rparr>;
         (st, d) = beacon_transmit drv tx (st, d);
         (err, d) = esb_setup drv ESB_MODE_PRX d;
         (err, d) = (if err = 0 then drv EsbStartRx d else (err, d)) in
     if err \<noteq> 0 then (r\<lparr>bcn_stats := st\<lparr>bs_prx_fail := bs_prx_fail st + 1\<rparr>\<rparr>, leds_set_red True l, d)
     else (r\<lparr>bcn_stats := st\<rparr>, l, d))"

definition radio_get_beacon_stats :: "'q dongle_radio \<Rightarrow> radio_beacon_stats" where
  "radio_get_beacon_stats r = bcn_stats r"

definition radio_set_pending_cmd :: "bytes \<Rightarrow> 'q dongle_radio \<Rightarrow> 'q dongle_radio" where
  "radio_set_pending_cmd payload r =
     (let len = length payload in
      if len = 0 \<or> len > PENDING_CMD_MAX \<or> len > HTK_ESB_MAX_PAYLOAD - 2 then r
      else r\<lparr>pending := \<lparr>pc_buf = payload @ drop len (pc_buf (pending r)), pc_len = of_nat len,
               pc_repeats_left = HTK_BEACON_CMD_REPEATS\<rparr>\<rparr>)"

subsection \<open>The processing thread\<close>

text \<open>What one packet does to the table, the USB pipe and the LEDs: the body of the thread's loop.\<close>

definition rx_packet ::
  "'r ring_ops \<Rightarrow> int \<Rightarrow> bytes \<Rightarrow> trackers \<times> 'r usb_io \<times> dongle_leds \<Rightarrow>
   trackers \<times> 'r usb_io \<times> dongle_leds" where
  "rx_packet ops now pkt x = (case x of (s, u, l) \<Rightarrow>
     if length pkt < 1 then (s, u, l)
     else if pkt ! 0 = HTK_PKT_ORIENT then
       (if length pkt \<noteq> 26 then (s, u, l)
        else
          (let smp = dec_orient pkt in
           (trackers_on_sample (or_id smp) (or_seq smp) now s, usb_io_send_payload ops pkt u, leds_activity l)))
     else if pkt ! 0 = HTK_PKT_RAW then
       (if length pkt \<noteq> 22 then (s, u, l)
        else
          (let smp = dec_raw pkt in
           (trackers_on_sample (raw_id smp) (raw_seq smp) now s, usb_io_send_payload ops pkt u, leds_activity l)))
     else if pkt ! 0 = HTK_PKT_TSTATUS then
       (if length pkt \<noteq> 13 then (s, u, l)
        else (trackers_on_tstatus (dec_tstatus pkt) now s, u, leds_activity l))
     else (s, u, l))"

text \<open>One round of the thread: it waits for a packet and processes it; \<open>None\<close> while the queue is empty.\<close>

definition rx_thread_round ::
  "(bytes, 'q) msgq_ops \<Rightarrow> 'r ring_ops \<Rightarrow> int \<Rightarrow> 'q dongle_radio \<times> trackers \<times> 'r usb_io \<times> dongle_leds \<Rightarrow>
   ('q dongle_radio \<times> trackers \<times> 'r usb_io \<times> dongle_leds) option" where
  "rx_thread_round mq ops now x = (case x of (r, y) \<Rightarrow>
     case msgq_get mq (rx_msgq r) of
       (None, q) \<Rightarrow> None
     | (Some pkt, q) \<Rightarrow> Some (r\<lparr>rx_msgq := q\<rparr>, rx_packet ops now pkt y))"

subsection \<open>Start-up\<close>

text \<open>
  \<open>fetch n\<close> is what the \<open>n\<close>-th \<^verbatim>\<open>sys_notify_fetch_result\<close> returns and stores. The loop waits as long as this
  is \<^verbatim>\<open>-EAGAIN\<close>; \<open>None\<close> is a loop that never ends.
\<close>

definition ENODEV :: int where [code_defs]: "ENODEV = 19"
definition ERR_AGAIN :: int where [code_defs]: "ERR_AGAIN = 11"

partial_function (option) fetch_loop :: "(nat \<Rightarrow> int \<times> int) \<Rightarrow> nat \<Rightarrow> (int \<times> int) option" where
  "fetch_loop fetch n = (if fst (fetch n) = - ERR_AGAIN then fetch_loop fetch (n + 1) else Some (fetch n))"

definition clocks_start :: "bool \<Rightarrow> int \<Rightarrow> (nat \<Rightarrow> int \<times> int) \<Rightarrow> int option" where
  "clocks_start have_mgr request fetch =
     (if \<not> have_mgr then Some (- ENODEV)
      else if request < 0 then Some request
      else (case fetch_loop fetch 0 of
          None \<Rightarrow> None
        | Some (err, res) \<Rightarrow> Some (if err < 0 then err else res)))"

text \<open>The wait ends with the first answer that is not \<^verbatim>\<open>-EAGAIN\<close>, and exactly if there is one.\<close>

lemma fetch_loop_first:
  assumes "\<forall>j < n. fst (fetch (k + j)) = - ERR_AGAIN" and "fst (fetch (k + n)) \<noteq> - ERR_AGAIN"
  shows "fetch_loop fetch k = Some (fetch (k + n))"
  using assms
proof (induction n arbitrary: k)
  case 0
  then show ?case by (simp add: fetch_loop.simps)
next
  case (Suc n)
  have "fst (fetch k) = - ERR_AGAIN" using Suc.prems(1) by force
  moreover have "\<forall>j < n. fst (fetch (k + 1 + j)) = - ERR_AGAIN" using Suc.prems(1) by force
  ultimately show ?case using Suc.IH [of "k + 1"] Suc.prems(2) by (simp add: fetch_loop.simps [of _ k])
qed

lemma fetch_loop_answers:
  assumes "fetch_loop fetch k = Some r"
  shows "\<exists>n. r = fetch n \<and> fst r \<noteq> - ERR_AGAIN"
  by (rule fetch_loop.raw_induct [of "\<lambda>fetch k r. \<exists>n. r = fetch n \<and> fst r \<noteq> - ERR_AGAIN", OF _ assms])
     (auto split: if_splits, metis)

lemma clocks_start_returns:
  "clocks_start True 0 fetch \<noteq> None \<longleftrightarrow> (\<exists>n. fst (fetch n) \<noteq> - ERR_AGAIN)"
proof
  assume "\<exists>n. fst (fetch n) \<noteq> - ERR_AGAIN"
  then obtain n where "fst (fetch n) \<noteq> - ERR_AGAIN" and "\<forall>j < n. fst (fetch j) = - ERR_AGAIN"
    using exists_least_iff [of "\<lambda>n. fst (fetch n) \<noteq> - ERR_AGAIN"] by blast
  then show "clocks_start True 0 fetch \<noteq> None"
    using fetch_loop_first [of n fetch 0] by (auto simp: clocks_start_def split: prod.splits)
next
  assume "clocks_start True 0 fetch \<noteq> None"
  then obtain r where "fetch_loop fetch 0 = Some r" by (auto simp: clocks_start_def split: option.splits)
  then show "\<exists>n. fst (fetch n) \<noteq> - ERR_AGAIN" using fetch_loop_answers by blast
qed

text \<open>\<open>clocks\<close> is what \<^verbatim>\<open>clocks_start\<close> returns; \<open>beacon_timer\<close> says that the beacon timer and its work queue run.\<close>

definition radio_init :: "'d driver \<Rightarrow> int \<Rightarrow> 'q dongle_radio \<times> 'd \<Rightarrow> int \<times> 'q dongle_radio \<times> 'd" where
  "radio_init drv clocks x = (case x of (r, d) \<Rightarrow>
     if clocks \<noteq> 0 then (clocks, r, d)
     else
       (case esb_setup drv ESB_MODE_PRX d of (err, d) \<Rightarrow>
          if err \<noteq> 0 then (err, r, d)
          else
            (case drv EsbStartRx d of (err, d) \<Rightarrow>
               if err \<noteq> 0 then (err, r, d) else (0, r\<lparr>beacon_timer := True\<rparr>, d))))"

subsection \<open>Beacons, seen from the driver\<close>

definition setup_calls :: "esb_mode \<Rightarrow> radio_call list" where
  "setup_calls mode =
     fabric_calls mode (if mode = ESB_MODE_PTX then HTK_PREFIX_DOWNLINK else HTK_PREFIX_UPLINK)"

lemma esb_setup_calls: "esb_setup drv mode = calls_until_error drv (setup_calls mode)"
  by (simp add: esb_setup_def setup_calls_def fabric_calls_def)

lemma writes_setup [simp]: "writes (take n (setup_calls mode)) = []" "writes (setup_calls mode) = []"
  by (simp_all add: setup_calls_def)

lemma setup_tap:
  assumes "esb_setup (tap drv) mode (d, log) = (err, (d', log'))"
  shows "esb_setup drv mode d = (err, d')" and "writes log' = writes log"
    and "err = 0 \<Longrightarrow> log' = log @ setup_calls mode"
  using calls_tap [OF assms [unfolded esb_setup_calls]] by (auto simp: esb_setup_calls)

text \<open>The four outcomes that a beacon's statistics distinguish.\<close>

definition outcomes :: "radio_beacon_stats \<Rightarrow> u32" where
  "outcomes st = bs_sent st + bs_setup_fail st + bs_write_fail st + bs_tx_timeout st"

lemma transmit_stats:
  assumes "beacon_transmit drv tx (st, d) = (st', d')"
  shows "outcomes st' = outcomes st + 1" and "bs_attempts st' = bs_attempts st" and "bs_prx_fail st' = bs_prx_fail st"
  using assms
  by (auto simp: beacon_transmit_def outcomes_def Let_def split: prod.splits if_splits)

lemma transmit_writes:
  assumes "beacon_transmit (tap drv) tx (st, (d, log)) = (st', (d', log'))"
    and ok: "\<And>d. fst (esb_setup drv ESB_MODE_PTX d) = 0"
  shows "writes log' = writes log @ [tx]"
proof -
  let ?d = "snd (drv EsbDisable (snd (drv EsbStopRx d)))"
  obtain err d1 log1 where s: "esb_setup (tap drv) ESB_MODE_PTX (?d, (log @ [EsbStopRx]) @ [EsbDisable]) = (err, (d1, log1))"
    by (metis surj_pair)
  have "err = 0" "writes log1 = writes log"
    using setup_tap [OF s] ok [of ?d] by simp_all
  then show ?thesis
    using assms(1) s by (auto simp: beacon_transmit_def Let_def split: if_splits prod.splits)
qed

definition carried :: "pending_cmd \<Rightarrow> bytes" where
  "carried p = (if pc_repeats_left p > 0 then take (unat (pc_len p)) (pc_buf p) else [])"

definition after_beacon :: "pending_cmd \<Rightarrow> pending_cmd" where
  "after_beacon p = (if pc_repeats_left p > 0 then p\<lparr>pc_repeats_left := pc_repeats_left p - 1\<rparr> else p)"

lemma beacon_payload_eq:
  "beacon_payload r = ([HTK_PKT_BEACON, beacon_seq r] @ carried (pending r),
     r\<lparr>beacon_seq := beacon_seq r + 1, pending := after_beacon (pending r)\<rparr>)"
  by (auto simp: beacon_payload_def carried_def after_beacon_def Let_def enc_beacon_hdr_def)

text \<open>There is one slot, whatever tracker a command is for: the latest command replaces the one that was pending.\<close>

lemma pending_is_one_slot:
  assumes "1 \<le> length c" and "length c \<le> PENDING_CMD_MAX"
  shows "carried (pending (radio_set_pending_cmd c r)) = c" and "pc_repeats_left (pending (radio_set_pending_cmd c r)) = 30"
proof -
  have "unat (of_nat (length c) :: u8) = length c"
    using assms(2) by (simp add: unat_of_nat take_bit_eq_mod)
  with assms show "carried (pending (radio_set_pending_cmd c r)) = c" "pc_repeats_left (pending (radio_set_pending_cmd c r)) = 30"
    by (auto simp: radio_set_pending_cmd_def carried_def Let_def)
qed

text \<open>One run of the beacon work: how the state moves, whatever the driver does.\<close>

lemma beacon_work_state:
  assumes "beacon_work_fn drv (r, l, d) = (r', l', d')"
  shows "beacon_seq r' = beacon_seq r + 1" and "pending r' = after_beacon (pending r)"
    and "bs_attempts (bcn_stats r') = bs_attempts (bcn_stats r) + 1"
    and "outcomes (bcn_stats r') = outcomes (bcn_stats r) + 1"
proof -
  let ?st = "(bcn_stats r)\<lparr>bs_attempts := bs_attempts (bcn_stats r) + 1\<rparr>"
  obtain st1 d1 where t: "beacon_transmit drv ([HTK_PKT_BEACON, beacon_seq r] @ carried (pending r)) (?st, d) = (st1, d1)"
    by (metis surj_pair)
  have st: "bcn_stats r' = st1 \<or> bcn_stats r' = st1\<lparr>bs_prx_fail := bs_prx_fail st1 + 1\<rparr>"
    and "beacon_seq r' = beacon_seq r + 1" and "pending r' = after_beacon (pending r)"
    using assms t by (auto simp: beacon_work_fn_def beacon_payload_eq Let_def split: prod.splits if_splits)
  then show "beacon_seq r' = beacon_seq r + 1" and "pending r' = after_beacon (pending r)" by simp_all
  have "outcomes ?st = outcomes (bcn_stats r)" by (simp add: outcomes_def)
  with st transmit_stats [OF t]
  show "bs_attempts (bcn_stats r') = bs_attempts (bcn_stats r) + 1"
    and "outcomes (bcn_stats r') = outcomes (bcn_stats r) + 1"
    by (auto simp: outcomes_def)
qed

lemma beacon_work_writes:
  assumes "beacon_work_fn (tap drv) (r, l, (d, log)) = (r', l', (d', log'))"
    and ok: "\<And>d. fst (esb_setup drv ESB_MODE_PTX d) = 0"
  shows "writes log' = writes log @ [[HTK_PKT_BEACON, beacon_seq r] @ carried (pending r)]"
proof -
  let ?st = "(bcn_stats r)\<lparr>bs_attempts := bs_attempts (bcn_stats r) + 1\<rparr>"
    and ?tx = "[HTK_PKT_BEACON, beacon_seq r] @ carried (pending r)"
  obtain st1 d1 log1 where t: "beacon_transmit (tap drv) ?tx (?st, (d, log)) = (st1, (d1, log1))"
    by (metis surj_pair)
  obtain err d2 log2 where s: "esb_setup (tap drv) ESB_MODE_PRX (d1, log1) = (err, (d2, log2))"
    by (metis surj_pair)
  have "writes log' = writes log2"
    using assms(1) t s by (auto simp: beacon_work_fn_def beacon_payload_eq Let_def split: if_splits)
  with setup_tap(2) [OF s] transmit_writes [OF t ok] show ?thesis by simp
qed

lemma beacon_run:
  assumes ok: "\<And>d. fst (esb_setup drv ESB_MODE_PTX d) = 0"
    and c: "1 \<le> length c" "length c \<le> PENDING_CMD_MAX"
    and run: "(beacon_work_fn (tap drv) ^^ n) (radio_set_pending_cmd c r, l, (d, [])) = (r', l', (d', log'))"
  shows "writes log' = map (\<lambda>i. [HTK_PKT_BEACON, beacon_seq r + of_nat i] @ (if i < 30 then c else [])) [0..<n] \<and>
    beacon_seq r' = beacon_seq r + of_nat n \<and> unat (pc_repeats_left (pending r')) = 30 - n \<and>
    take (unat (pc_len (pending r'))) (pc_buf (pending r')) = c"
  using run
proof (induction n arbitrary: r' l' d' log')
  case 0
  have "unat (of_nat (length c) :: u8) = length c"
    using c(2) by (simp add: unat_of_nat take_bit_eq_mod)
  with 0 c show ?case by (auto simp: radio_set_pending_cmd_def Let_def)
next
  case (Suc n)
  obtain r1 l1 d1 log1 where
    run: "(beacon_work_fn (tap drv) ^^ n) (radio_set_pending_cmd c r, l, (d, [])) = (r1, l1, (d1, log1))"
    by (metis surj_pair)
  note IH = Suc.IH [OF run]
  have work: "beacon_work_fn (tap drv) (r1, l1, (d1, log1)) = (r', l', (d', log'))"
    using Suc.prems run by simp
  note state = beacon_work_state [OF work]
  have pos: "pc_repeats_left (pending r1) > 0 \<longleftrightarrow> n < 30"
    using IH by (simp add: word_less_nat_alt)
  then have "carried (pending r1) = (if n < 30 then c else [])" using IH by (simp add: carried_def)
  moreover have "unat (pc_repeats_left (after_beacon (pending r1))) = 30 - Suc n"
  proof (cases "n < 30")
    case True
    with pos IH show ?thesis by (simp add: after_beacon_def unat_minus_one)
  next
    case False
    with pos IH show ?thesis by (simp add: after_beacon_def)
  qed
  moreover have "pc_len (after_beacon p) = pc_len p" "pc_buf (after_beacon p) = pc_buf p" for p
    by (simp_all add: after_beacon_def)
  ultimately show ?case
    using beacon_work_writes [OF work ok] IH state by simp
qed

subsection \<open>Properties\<close>

text \<open>A command handed to the radio is carried by exactly the next 30 beacons: whatever the driver does
  otherwise, if it can be put into transmit mode, the first 30 beacons written after
  \<^verbatim>\<open>radio_set_pending_cmd\<close> are the header with consecutive sequence numbers followed by the command's
  bytes, and all later ones are the bare header.\<close>

theorem beacons_carry_command:
  assumes "\<And>d. fst (esb_setup drv ESB_MODE_PTX d) = 0"
    and "1 \<le> length c" and "length c \<le> PENDING_CMD_MAX"
  shows "writes (snd (snd (snd ((beacon_work_fn (tap drv) ^^ n) (radio_set_pending_cmd c r, l, (d, [])))))) =
    map (\<lambda>i. [HTK_PKT_BEACON, beacon_seq r + of_nat i] @ (if i < 30 then c else [])) [0..<n]"
proof -
  obtain r' l' d' log' where
    run: "(beacon_work_fn (tap drv) ^^ n) (radio_set_pending_cmd c r, l, (d, [])) = (r', l', (d', log'))"
    by (metis surj_pair)
  show ?thesis using beacon_run [OF assms run] run by simp
qed

theorem beacons_carry_command_witness:
  "writes (snd (snd (snd ((beacon_work_fn (tap (log_driver (\<lambda>c. 0))) ^^ 31)
      (radio_set_pending_cmd [0x15, 0x34, 0x12] (dongle_radio_boot ()), dongle_leds_boot, ([], [])))))) =
    map (\<lambda>i. [0x20, of_nat i, 0x15, 0x34, 0x12]) [0..<30] @ [[0x20, 30]]"
proof -
  let ?r = "dongle_radio_boot ()" and ?c = "[0x15, 0x34, 0x12] :: bytes"
  have ok: "fst (esb_setup (log_driver (\<lambda>c. 0)) ESB_MODE_PTX d) = 0" for d
    by (simp add: esb_setup_calls calls_log)
  have c: "1 \<le> length ?c" "length ?c \<le> PENDING_CMD_MAX" by simp_all
  have "map (\<lambda>i. [HTK_PKT_BEACON, beacon_seq ?r + of_nat i] @ (if i < 30 then ?c else [])) [0..<31] =
      map (\<lambda>i. [0x20, of_nat i, 0x15, 0x34, 0x12]) [0..<30] @ [[0x20, 30]]"
    by (simp add: dongle_radio_boot_def upt_rec)
  then show ?thesis unfolding beacons_carry_command [OF ok c] .
qed

text \<open>Any driver, with its answers recorded beside the calls; the receiver is up after a log that ends with the
  configuration as a receiver and the start of it, each answered with success.\<close>

definition answered :: "'d driver \<Rightarrow> ('d \<times> (radio_call \<times> int) list) driver" where
  "answered drv c x = (case x of (d, log) \<Rightarrow> case drv c d of (err, d) \<Rightarrow> (err, (d, log @ [(c, err)])))"

lemma answered_simps [simp]: "answered drv c (d, log) = (fst (drv c d), (snd (drv c d), log @ [(c, fst (drv c d))]))"
  by (simp add: answered_def split: prod.split)

definition receiver_up :: "(radio_call \<times> int) list \<Rightarrow> bool" where
  "receiver_up log \<longleftrightarrow> (\<exists>log0. log = log0 @ map (\<lambda>c. (c, 0)) (setup_calls ESB_MODE_PRX @ [EsbStartRx]))"

lemma not_up: "snd (last log) \<noteq> 0 \<Longrightarrow> \<not> receiver_up log"
  by (auto simp: receiver_up_def)

lemma calls_answered:
  "calls_until_error (answered drv) cs (d, log) = (err, (d', log')) \<Longrightarrow>
    if err = 0 then log' = log @ map (\<lambda>c. (c, 0)) cs else snd (last log') = err"
proof (induction cs arbitrary: d log)
  case (Cons c cs)
  show ?case
  proof (cases "fst (drv c d) = 0")
    case True
    with Cons.prems have "calls_until_error (answered drv) cs (snd (drv c d), log @ [(c, 0)]) = (err, (d', log'))" by simp
    from Cons.IH [OF this] show ?thesis by simp
  next
    case False
    with Cons.prems show ?thesis by auto
  qed
qed simp

text \<open>C30. The beacon's error handling: whatever the driver answers, each run of the beacon work counts one
  attempt and exactly one outcome (sent, setup failure, write failure or completion timeout). If at its end the
  radio has been configured as a receiver and started, by calls that the driver answered with success, no failure is counted and
  the LEDs are as they were; if it has not, because the configuration or the start failed, one restore failure is
  counted and the red LED is on. The radio is never left deaf in silence.\<close>

theorem beacon_restores_receiver:
  fixes r :: "'q dongle_radio" and drv :: "'d driver" and log :: "(radio_call \<times> int) list"
    and l :: dongle_leds and d :: 'd
  defines "out \<equiv> beacon_work_fn (answered drv) (r, l, (d, log))"
  defines "st \<equiv> bcn_stats r" and "st' \<equiv> bcn_stats (fst out)"
  shows "bs_attempts st' = bs_attempts st + 1 \<and>
    bs_sent st' + bs_setup_fail st' + bs_write_fail st' + bs_tx_timeout st' =
      bs_sent st + bs_setup_fail st + bs_write_fail st + bs_tx_timeout st + 1 \<and>
    (if receiver_up (snd (snd (snd out))) then bs_prx_fail st' = bs_prx_fail st \<and> fst (snd out) = l
     else bs_prx_fail st' = bs_prx_fail st + 1 \<and> led_red (fst (snd out)))"
proof (rule conj3I)
  obtain r' l' d' log' where out: "out = (r', l', (d', log'))" by (metis surj_pair)
  note work = out [unfolded out_def]
  show "bs_attempts st' = bs_attempts st + 1"
    and "bs_sent st' + bs_setup_fail st' + bs_write_fail st' + bs_tx_timeout st' =
      bs_sent st + bs_setup_fail st + bs_write_fail st + bs_tx_timeout st + 1"
    using beacon_work_state(3,4) [OF work] by (simp_all add: st_def st'_def out outcomes_def)
  let ?st = "(bcn_stats r)\<lparr>bs_attempts := bs_attempts (bcn_stats r) + 1\<rparr>"
    and ?tx = "[HTK_PKT_BEACON, beacon_seq r] @ carried (pending r)"
  obtain st1 d1 log1 where t: "beacon_transmit (answered drv) ?tx (?st, (d, log)) = (st1, (d1, log1))"
    by (metis surj_pair)
  obtain err d2 log2 where s: "esb_setup (answered drv) ESB_MODE_PRX (d1, log1) = (err, (d2, log2))"
    by (metis surj_pair)
  note calls = calls_answered [OF s [unfolded esb_setup_calls]]
  have prx: "bs_prx_fail st1 = bs_prx_fail st" using transmit_stats(3) [OF t] by (simp add: st_def)
  show "if receiver_up (snd (snd (snd out))) then bs_prx_fail st' = bs_prx_fail st \<and> fst (snd out) = l
     else bs_prx_fail st' = bs_prx_fail st + 1 \<and> led_red (fst (snd out))"
  proof (cases "err = 0 \<and> fst (drv EsbStartRx d2) = 0")
    case True
    with work t s have "bcn_stats r' = st1" "l' = l" "log' = log2 @ [(EsbStartRx, 0)]"
      by (auto simp: beacon_work_fn_def beacon_payload_eq Let_def split: if_splits)
    moreover from this calls True have "receiver_up log'" by (auto simp: receiver_up_def)
    ultimately show ?thesis using prx by (simp add: st'_def out)
  next
    case False
    with work t s have "bcn_stats r' = st1\<lparr>bs_prx_fail := bs_prx_fail st1 + 1\<rparr>" "led_red l'"
      "log' = (if err = 0 then log2 @ [(EsbStartRx, fst (drv EsbStartRx d2))] else log2)"
      by (auto simp: beacon_work_fn_def beacon_payload_eq Let_def leds_set_red_def split: if_splits)
    moreover from this calls False have "snd (last log') \<noteq> 0" by (auto split: if_splits)
    note not_up [OF this]
    ultimately show ?thesis using prx by (simp add: st'_def out)
  qed
qed

end
