(* ===== verification/Commands.thy ===== *)
theory Commands
  imports Frame
begin

text \<open>
  Host to dongle command encoding, \<^verbatim>\<open>host/libheadtracker/src/commands.cpp\<close>. An empty list is the empty
  vector with which the code signals an argument the protocol forbids.

  \<open>command\<close> and \<open>command_wire\<close> are the specification: what a command is, and the payload that
  stands for it.
\<close>

subsection \<open>The encoders\<close>

definition frame_from :: "bytes \<Rightarrow> bytes" where
  "frame_from payload = htk_frame_encode payload HTK_MAX_FRAME"

definition valid_target :: "u16 \<Rightarrow> bool" where
  "valid_target tid \<longleftrightarrow> tid \<noteq> HTK_ID_INVALID \<and> tid \<noteq> HTK_ID_SIM"

definition encode_hello :: bytes where
  "encode_hello = frame_from (enc_hello \<lparr>he_type = HTK_PKT_HELLO, he_proto_ver = HTK_PROTO_VERSION\<rparr>)"

definition encode_get_stats :: bytes where
  "encode_get_stats = frame_from (enc_get_stats \<lparr>gs_type = HTK_PKT_GET_STATS\<rparr>)"

definition encode_sim_mode :: "bool \<Rightarrow> bytes" where
  "encode_sim_mode on =
     frame_from (enc_sim_mode \<lparr>si_type = HTK_PKT_SIM_MODE, si_on = (if on then 1 else 0)\<rparr>)"

definition encode_reset_fusion :: "u16 \<Rightarrow> bytes" where
  "encode_reset_fusion tid =
     (if \<not> valid_target tid then []
      else frame_from (enc_cmd_id \<lparr>ci_type = HTK_PKT_RESET_FUSION, ci_id = tid\<rparr>))"

definition encode_identify :: "u16 \<Rightarrow> bytes" where
  "encode_identify tid =
     (if \<not> valid_target tid then []
      else frame_from (enc_cmd_id \<lparr>ci_type = HTK_PKT_IDENTIFY, ci_id = tid\<rparr>))"

definition encode_set_rate :: "u16 \<Rightarrow> u16 \<Rightarrow> bytes" where
  "encode_set_rate tid hz =
     (if \<not> valid_target tid then []
      else frame_from (enc_set_rate \<lparr>sr_type = HTK_PKT_SET_RATE, sr_id = tid, sr_hz = hz\<rparr>))"

definition encode_set_mode :: "u16 \<Rightarrow> u8 \<Rightarrow> bytes" where
  "encode_set_mode tid mode =
     (if \<not> valid_target tid \<or> mode > HTK_MODE_BOTH then []
      else frame_from (enc_set_mode \<lparr>sm_type = HTK_PKT_SET_MODE, sm_id = tid, sm_mode = mode\<rparr>))"

subsection \<open>Commands and their payloads\<close>

datatype command =
    Hello
  | GetStats
  | SimMode bool
  | ResetFusion u16
  | Identify u16
  | SetRate u16 u16
  | SetMode u16 u8

fun encode_command :: "command \<Rightarrow> bytes" where
  "encode_command Hello = encode_hello"
| "encode_command GetStats = encode_get_stats"
| "encode_command (SimMode on) = encode_sim_mode on"
| "encode_command (ResetFusion tid) = encode_reset_fusion tid"
| "encode_command (Identify tid) = encode_identify tid"
| "encode_command (SetRate tid hz) = encode_set_rate tid hz"
| "encode_command (SetMode tid mode) = encode_set_mode tid mode"

fun command_wire :: "command \<Rightarrow> bytes" where
  "command_wire Hello = [0x10, 1]"
| "command_wire GetStats = [0x14]"
| "command_wire (SimMode on) = [0x1F, of_bool on]"
| "command_wire (ResetFusion tid) = 0x11 # le16 tid"
| "command_wire (Identify tid) = 0x15 # le16 tid"
| "command_wire (SetRate tid hz) = 0x12 # le16 tid @ le16 hz"
| "command_wire (SetMode tid mode) = 0x13 # le16 tid @ [mode]"

text \<open>The tracker a command is directed at, and the commands the protocol allows.\<close>

fun command_target :: "command \<Rightarrow> u16 option" where
  "command_target (ResetFusion tid) = Some tid"
| "command_target (Identify tid) = Some tid"
| "command_target (SetRate tid hz) = Some tid"
| "command_target (SetMode tid mode) = Some tid"
| "command_target _ = None"

fun command_ok :: "command \<Rightarrow> bool" where
  "command_ok (SetMode tid mode) \<longleftrightarrow> tid \<noteq> 0 \<and> tid \<noteq> 0xFFFF \<and> mode \<le> 2"
| "command_ok cmd \<longleftrightarrow> command_target cmd \<notin> {Some 0, Some 0xFFFF}"

lemmas cmd_encs = enc_hello_def enc_get_stats_def enc_sim_mode_def enc_cmd_id_def enc_set_rate_def
  enc_set_mode_def

lemma command_wire_ok [simp]: "payload_ok (command_wire cmd)"
  by (cases cmd) (simp_all add: payload_ok_def)

lemma command_wire_nonempty [simp]: "command_wire cmd \<noteq> []"
  by (cases cmd) simp_all

lemma frame_from_ok: "payload_ok p \<Longrightarrow> frame_from p = frame_block p @ [0]"
  unfolding frame_from_def by (rule htk_frame_encode_ok)

lemma encode_command_eq:
  "encode_command cmd = (if command_ok cmd then frame_block (command_wire cmd) @ [0] else [])"
proof -
  have "encode_command cmd = (if command_ok cmd then frame_from (command_wire cmd) else [])"
    by (cases cmd)
      (simp_all add: encode_hello_def encode_get_stats_def encode_sim_mode_def encode_reset_fusion_def
        encode_identify_def encode_set_rate_def encode_set_mode_def valid_target_def cmd_encs
        flip: not_le)
  then show ?thesis by (simp add: frame_from_ok)
qed

subsection \<open>Properties\<close>

text \<open>The command API: a command aimed at a reserved tracker id (0 or 0xFFFF), or with a stream mode
  above 2, gives the empty vector; every other command gives one frame of at most 63 bytes with a single
  zero byte at its end, from which the frame decoder recovers exactly the command's documented payload.\<close>

theorem encode_command_frames:
  "if command_ok cmd
   then (\<exists>block. encode_command cmd = block @ [0] \<and> 0 \<notin> set block \<and> length block < 63 \<and>
           htk_frame_decode block HTK_MAX_PAYLOAD = command_wire cmd)
   else encode_command cmd = []"
  using frame_block_length [of "command_wire cmd"] frame_block_no_zero [of "command_wire cmd"]
    htk_frame_decode_block [of "command_wire cmd" 59] command_wire_ok [of cmd]
  by (auto simp: encode_command_eq payload_ok_def)

end
