(* ===== verification/Usb_Rx.thy ===== *)
theory Usb_Rx
  imports Dongle_Radio Deframe Commands
begin

text \<open>
  The receive direction of \<^verbatim>\<open>firmware/app_dongle/src/usb_io.c\<close>: frame assembly and the dispatch of host
  commands, with the on/off switch of \<^verbatim>\<open>firmware/app_dongle/src/sim.c\<close> that a command can throw.

  \<open>dongle\<close> collects the state of the modules that a command can reach. The clock is a sequence of
  readings: \<open>k_uptime_get\<close> takes the next one.
\<close>

subsection \<open>The simulator switch (sim.c)\<close>

text \<open>\<open>sim_timer\<close> says that the sample timer runs; \<open>sim_yaw\<close> is a single-precision bit pattern.\<close>

record sim =
  sim_active :: bool
  sim_timer :: bool
  sim_seq :: u16
  sim_yaw :: f32

definition sim_boot :: sim where
  "sim_boot = \<lparr>sim_active = False, sim_timer = False, sim_seq = 0, sim_yaw = 0\<rparr>"

definition sim_set :: "bool \<Rightarrow> sim \<Rightarrow> sim" where
  "sim_set on s =
     (if on = sim_active s then s
      else
        (let s = s\<lparr>sim_active := on\<rparr> in
         if on then s\<lparr>sim_timer := True\<rparr> else s\<lparr>sim_timer := False\<rparr>))"

definition sim_is_active :: "sim \<Rightarrow> bool" where
  "sim_is_active s = sim_active s"

subsection \<open>The dongle's state\<close>

record ('r, 'q) dongle =
  dg_usb :: "'r usb_io"
  dg_trk :: trackers
  dg_radio :: "'q dongle_radio"
  dg_sim :: sim
  dg_leds :: dongle_leds
  dg_clock :: "nat \<Rightarrow> int"
  dg_reads :: nat

definition k_uptime_get :: "('r, 'q) dongle \<Rightarrow> int \<times> ('r, 'q) dongle" where
  "k_uptime_get dg = (dg_clock dg (dg_reads dg), dg\<lparr>dg_reads := dg_reads dg + 1\<rparr>)"

definition send_usb :: "'r ring_ops \<Rightarrow> bytes \<Rightarrow> ('r, 'q) dongle \<Rightarrow> ('r, 'q) dongle" where
  "send_usb ops payload dg = dg\<lparr>dg_usb := usb_io_send_payload ops payload (dg_usb dg)\<rparr>"

text \<open>\<^verbatim>\<open>trackers_emit_stats\<close> on the dongle: two clock readings, the simulator's flag, the packets.\<close>

definition emit_stats :: "'r ring_ops \<Rightarrow> ('r, 'q) dongle \<Rightarrow> ('r, 'q) dongle" where
  "emit_stats ops dg =
     (let (now, dg) = k_uptime_get dg; (uptime, dg) = k_uptime_get dg;
          (s, u) = trackers_emit_stats ops now uptime (sim_is_active (dg_sim dg)) (dg_trk dg, dg_usb dg) in
      dg\<lparr>dg_trk := s, dg_usb := u\<rparr>)"

subsection \<open>Dispatch\<close>

definition send_hello_resp :: "'r ring_ops \<Rightarrow> ('r, 'q) dongle \<Rightarrow> ('r, 'q) dongle" where
  "send_hello_resp ops =
     send_usb ops (enc_hello_resp
       \<lparr>hr_type = HTK_PKT_HELLO_RESP, hr_proto_ver = HTK_PROTO_VERSION, hr_fw_major = HTK_FW_MAJOR,
        hr_fw_minor = HTK_FW_MINOR, hr_fw_patch = HTK_FW_PATCH, hr_device = 1,
        hr_caps = HTK_CAP_QUAT OR HTK_CAP_RAW OR HTK_CAP_SIM OR HTK_CAP_MULTI\<rparr>)"

definition dispatch_payload :: "'r ring_ops \<Rightarrow> bytes \<Rightarrow> ('r, 'q) dongle \<Rightarrow> ('r, 'q) dongle" where
  "dispatch_payload ops p dg =
     (let t = p ! 0; len = length p in
      if t = HTK_PKT_HELLO then
        (if len = 2 then send_hello_resp ops dg else dg)
      else if t = HTK_PKT_GET_STATS then
        (if len = 1 then emit_stats ops dg else dg)
      else if t = HTK_PKT_SIM_MODE then
        (if len = 2 then dg\<lparr>dg_sim := sim_set (p ! 1 \<noteq> 0) (dg_sim dg)\<rparr> else dg)
      else if t \<in> {HTK_PKT_RESET_FUSION, HTK_PKT_IDENTIFY, HTK_PKT_SET_RATE, HTK_PKT_SET_MODE} then
        (let want = (if t = HTK_PKT_SET_RATE then 5 else if t = HTK_PKT_SET_MODE then 4 else 3) in
         if len \<noteq> want then dg
         else
           (let tid = rd16 p 1 in
            if tid = HTK_ID_INVALID \<or> tid = HTK_ID_SIM then dg
            else dg\<lparr>dg_radio := radio_set_pending_cmd p (dg_radio dg)\<rparr>))
      else dg)"

subsection \<open>Frame assembly\<close>

record usb_rx =
  rx_block :: bytes
  rx_block_overflow :: bool
  rx_bad_frames :: u32

definition usb_rx_boot :: usb_rx where
  "usb_rx_boot = \<lparr>rx_block = [], rx_block_overflow = False, rx_bad_frames = 0\<rparr>"

definition rx_block_done ::
  "'r ring_ops \<Rightarrow> bytes \<Rightarrow> u32 \<times> ('r, 'q) dongle \<Rightarrow> u32 \<times> ('r, 'q) dongle" where
  "rx_block_done ops blk y = (case y of (bad, dg) \<Rightarrow>
     let payload = htk_frame_decode blk HTK_MAX_PAYLOAD in
     if length payload > 0 then (bad, dispatch_payload ops payload dg) else (bad + 1, dg))"

text \<open>The body of the loop, for one byte.\<close>

definition rx_byte :: "'r ring_ops \<Rightarrow> u8 \<Rightarrow> usb_rx \<times> ('r, 'q) dongle \<Rightarrow> usb_rx \<times> ('r, 'q) dongle" where
  "rx_byte ops b x = (case x of (rx, dg) \<Rightarrow>
     if b \<noteq> 0x00 then
       (if length (rx_block rx) < HTK_MAX_FRAME then (rx\<lparr>rx_block := rx_block rx @ [b]\<rparr>, dg)
        else (rx\<lparr>rx_block_overflow := True\<rparr>, dg))
     else
       (let (bad, dg) =
          (if length (rx_block rx) > 0 \<and> \<not> rx_block_overflow rx then
             rx_block_done ops (rx_block rx) (rx_bad_frames rx, dg)
           else (rx_bad_frames rx, dg)) in
        (\<lparr>rx_block = [], rx_block_overflow = False, rx_bad_frames = bad\<rparr>, dg)))"

text \<open>
  \<open>rx_get\<close>: the loop's \<^verbatim>\<open>ring_buf_get\<close>. The loop ends when the ring is empty; that it does is a
  theorem about a ring that keeps its law, so the definition allows it not to.
\<close>

definition rx_get :: "'r ring_ops \<Rightarrow> ('r, 'q) dongle \<Rightarrow> u8 option \<times> ('r, 'q) dongle" where
  "rx_get ops dg =
     (case ring_buf_get ops 1 (rx_ring (dg_usb dg)) of (got, r) \<Rightarrow>
        (if length got = 1 then Some (hd got) else None, dg\<lparr>dg_usb := (dg_usb dg)\<lparr>rx_ring := r\<rparr>\<rparr>))"

partial_function (option) rx_work_fn ::
  "'r ring_ops \<Rightarrow> usb_rx \<Rightarrow> ('r, 'q) dongle \<Rightarrow> (usb_rx \<times> ('r, 'q) dongle) option" where
  "rx_work_fn ops rx dg =
     (case rx_get ops dg of
        (None, dg) \<Rightarrow> Some (rx, dg)
      | (Some b, dg) \<Rightarrow> (case rx_byte ops b (rx, dg) of (rx, dg) \<Rightarrow> rx_work_fn ops rx dg))"

subsection \<open>The dongle is a receiver of frames\<close>

definition rx_obs :: "usb_rx \<times> ('r, 'q) dongle \<Rightarrow> u32 \<times> ('r, 'q) dongle" where
  "rx_obs = (\<lambda>(rx, dg). (rx_bad_frames rx, dg))"

definition rx_view :: "usb_rx \<times> ('r, 'q) dongle \<Rightarrow> bytes option" where
  "rx_view = (\<lambda>(rx, dg). if rx_block_overflow rx then None else Some (rx_block rx))"

definition count_bad :: "u32 \<times> ('r, 'q) dongle \<Rightarrow> u32 \<times> ('r, 'q) dongle" where
  "count_bad y = (case y of (bad, dg) \<Rightarrow> (bad + 1, dg))"

definition on_payload :: "'r ring_ops \<Rightarrow> bytes \<Rightarrow> u32 \<times> ('r, 'q) dongle \<Rightarrow> u32 \<times> ('r, 'q) dongle" where
  "on_payload ops p y = (case y of (bad, dg) \<Rightarrow> (bad, dispatch_payload ops p dg))"

interpretation dongle_rx: link "\<lambda>p. htk_frame_encode p 64" "\<lambda>blk. htk_frame_decode blk 59" payload_ok
    frame_block 62 "rx_byte ops" rx_view rx_obs "rx_block_done ops" "\<lambda>y. y" 64 count_bad "on_payload ops"
  for ops
  by unfold_locales
    (auto simp: rx_byte_def rx_view_def rx_obs_def rx_block_done_def count_bad_def on_payload_def Let_def
      split: prod.splits if_splits)

text \<open>Ring updates and the dispatch do not see each other.\<close>

lemma send_rx_ring [simp]:
  "usb_io_send_payload ops p (u\<lparr>rx_ring := r\<rparr>) = (usb_io_send_payload ops p u)\<lparr>rx_ring := r\<rparr>"
  by (simp add: usb_io_send_payload_def Let_def split: prod.split)

lemma send_keeps_rx_ring [simp]: "rx_ring (usb_io_send_payload ops p u) = rx_ring u"
  by (simp add: usb_io_send_payload_def Let_def split: prod.split)

lemma emit_rx_ring [simp]:
  "emit_locked_snapshot ops now up act s (u\<lparr>rx_ring := r\<rparr>) = (emit_locked_snapshot ops now up act s u)\<lparr>rx_ring := r\<rparr>"
  "rx_ring (emit_locked_snapshot ops now up act s u) = rx_ring u"
proof -
  let ?step = "\<lambda>t u. if \<not> tk_valid t then u
    else usb_io_send_payload ops (enc_tracker_stat (tracker_stat_of now t)) u"
  have "fold ?step ts (v\<lparr>rx_ring := r\<rparr>) = (fold ?step ts v)\<lparr>rx_ring := r\<rparr>"
    and "rx_ring (fold ?step ts v) = rx_ring v" for ts v
    by (induction ts arbitrary: v) simp_all
  then show "emit_locked_snapshot ops now up act s (u\<lparr>rx_ring := r\<rparr>) =
      (emit_locked_snapshot ops now up act s u)\<lparr>rx_ring := r\<rparr>"
    and "rx_ring (emit_locked_snapshot ops now up act s u) = rx_ring u"
    by (simp_all add: emit_locked_snapshot_def)
qed

definition with_rx_ring :: "'r \<Rightarrow> ('r, 'q) dongle \<Rightarrow> ('r, 'q) dongle" where
  "with_rx_ring r dg = dg\<lparr>dg_usb := (dg_usb dg)\<lparr>rx_ring := r\<rparr>\<rparr>"

lemma with_rx_ring_twice [simp]: "with_rx_ring r (with_rx_ring r' dg) = with_rx_ring r dg"
  by (simp add: with_rx_ring_def)

lemma dispatch_rx_ring [simp]:
  "dispatch_payload ops p (with_rx_ring r dg) = with_rx_ring r (dispatch_payload ops p dg)"
  "rx_ring (dg_usb (dispatch_payload ops p dg)) = rx_ring (dg_usb dg)"
  by (simp_all add: dispatch_payload_def with_rx_ring_def send_hello_resp_def send_usb_def emit_stats_def
      k_uptime_get_def trackers_emit_stats_def Let_def)

lemma rx_byte_rx_ring:
  "rx_byte ops b (rx, with_rx_ring r dg) = apsnd (with_rx_ring r) (rx_byte ops b (rx, dg))"
  "rx_ring (dg_usb (snd (rx_byte ops b (rx, dg)))) = rx_ring (dg_usb dg)"
  by (simp_all add: rx_byte_def rx_block_done_def Let_def)

lemma rx_bytes_rx_ring:
  "fold (rx_byte ops) bs (rx, with_rx_ring r dg) = apsnd (with_rx_ring r) (fold (rx_byte ops) bs (rx, dg))"
proof (induction bs arbitrary: rx dg)
  case (Cons b bs)
  obtain rx' dg' where "rx_byte ops b (rx, dg) = (rx', dg')" by fastforce
  with Cons [of rx' dg'] show ?case by (simp add: rx_byte_rx_ring)
qed simp

lemma rx_bytes_keep_ring: "rx_ring (dg_usb (snd (fold (rx_byte ops) bs x))) = rx_ring (dg_usb (snd x))"
proof (induction bs arbitrary: x)
  case (Cons b bs)
  then show ?case by (cases x) (simp add: rx_byte_rx_ring)
qed simp

text \<open>The loop ends, having processed the contents of the ring.\<close>

lemma rx_work_fn_total:
  assumes law: "ring_law ops cont cap"
  shows "\<exists>r. cont r = [] \<and> rx_work_fn ops rx dg =
    Some (apsnd (with_rx_ring r) (fold (rx_byte ops) (cont (rx_ring (dg_usb dg))) (rx, dg)))"
proof (induction "cont (rx_ring (dg_usb dg))" arbitrary: rx dg)
  case Nil
  obtain got r where g: "ring_buf_get ops 1 (rx_ring (dg_usb dg)) = (got, r)" by fastforce
  note ring_get [OF law g]
  then have "got = []" "cont r = []" by (simp_all add: Nil(1) [symmetric])
  then have "cont r = [] \<and> rx_work_fn ops rx dg = Some (rx, with_rx_ring r dg)"
    using g by (subst rx_work_fn.simps) (simp add: rx_get_def with_rx_ring_def)
  then show ?case by (auto simp: Nil(1) [symmetric])
next
  case (Cons b bs)
  obtain got r where g: "ring_buf_get ops 1 (rx_ring (dg_usb dg)) = (got, r)" by fastforce
  note ring_get [OF law g]
  then have got: "got = [b]" "cont r = bs" by (simp_all add: Cons(2) [symmetric])
  obtain rx1 dg1 where b: "rx_byte ops b (rx, dg) = (rx1, dg1)" by fastforce
  let ?dg = "with_rx_ring r dg1"
  have step: "rx_work_fn ops rx dg = rx_work_fn ops rx1 ?dg"
    using g got b rx_byte_rx_ring(1) [of ops b rx r dg]
    by (subst rx_work_fn.simps) (simp add: rx_get_def with_rx_ring_def)
  have "bs = cont (rx_ring (dg_usb ?dg))" using got by (simp add: with_rx_ring_def)
  from Cons(1) [OF this, of rx1] obtain r' where
    "cont r' = []" "rx_work_fn ops rx1 ?dg = Some (apsnd (with_rx_ring r') (fold (rx_byte ops) bs (rx1, ?dg)))"
    using got by (auto simp: with_rx_ring_def)
  moreover have "apsnd (with_rx_ring r') (fold (rx_byte ops) bs (rx1, ?dg)) =
      apsnd (with_rx_ring r') (fold (rx_byte ops) bs (rx1, dg1))"
    unfolding rx_bytes_rx_ring by (cases "fold (rx_byte ops) bs (rx1, dg1)") simp
  ultimately show ?case using step b by (auto simp: Cons(2) [symmetric])
qed

subsection \<open>What commands do\<close>

text \<open>The effect of a command, by its meaning instead of its bytes.\<close>

fun perform :: "'r ring_ops \<Rightarrow> command \<Rightarrow> ('r, 'q) dongle \<Rightarrow> ('r, 'q) dongle" where
  "perform ops Hello dg = send_usb ops [0x04, 1, 0, 1, 0, 1, 0x17, 0x00] dg"
| "perform ops GetStats dg = emit_stats ops dg"
| "perform ops (SimMode on) dg = dg\<lparr>dg_sim := sim_set on (dg_sim dg)\<rparr>"
| "perform ops cmd dg =
     dg\<lparr>dg_radio := (dg_radio dg)\<lparr>pending :=
       \<lparr>pc_buf = command_wire cmd @ drop (length (command_wire cmd)) (pc_buf (pending (dg_radio dg))),
        pc_len = of_nat (length (command_wire cmd)), pc_repeats_left = 30\<rparr>\<rparr>\<rparr>"

lemma dispatch_command: "command_ok cmd \<Longrightarrow> dispatch_payload ops (command_wire cmd) dg = perform ops cmd dg"
proof (cases cmd)
  case Hello
  then show ?thesis
    by (simp add: dispatch_payload_def send_hello_resp_def enc_hello_resp_def le16_def byte_of_def)
qed (simp_all add: dispatch_payload_def radio_set_pending_cmd_def)

lemma perform_commands:
  "\<forall>cmd \<in> set cmds. command_ok cmd \<Longrightarrow>
    fold (on_payload ops) (map command_wire cmds) (bad, dg) = (bad, fold (perform ops) cmds dg)"
  by (induction cmds arbitrary: dg) (simp_all add: on_payload_def dispatch_command)

text \<open>A payload that the dongle forwards to the air: exact size, and a concrete tracker.\<close>

definition directed_ok :: "bytes \<Rightarrow> bool" where
  "directed_ok p \<longleftrightarrow>
     ((p ! 0 = HTK_PKT_RESET_FUSION \<or> p ! 0 = HTK_PKT_IDENTIFY) \<and> length p = 3 \<or>
      p ! 0 = HTK_PKT_SET_RATE \<and> length p = 5 \<or> p ! 0 = HTK_PKT_SET_MODE \<and> length p = 4) \<and>
     rd16 p 1 \<noteq> HTK_ID_INVALID \<and> rd16 p 1 \<noteq> HTK_ID_SIM"

definition pending_ok :: "pending_cmd \<Rightarrow> bool" where
  "pending_ok p \<longleftrightarrow> carried p = [] \<or> directed_ok (carried p)"

lemma dispatch_pending:
  "pending (dg_radio (dispatch_payload ops p dg)) = pending (dg_radio dg) \<or>
   (directed_ok p \<and> carried (pending (dg_radio (dispatch_payload ops p dg))) = p)"
  by (auto simp: dispatch_payload_def directed_ok_def send_hello_resp_def send_usb_def emit_stats_def
      k_uptime_get_def trackers_emit_stats_def radio_set_pending_cmd_def carried_def Let_def)

lemma dispatch_pending_ok:
  "pending_ok (pending (dg_radio dg)) \<Longrightarrow> pending_ok (pending (dg_radio (dispatch_payload ops p dg)))"
  using dispatch_pending [of ops p dg] by (auto simp: pending_ok_def)

lemma rx_byte_pending_ok:
  "pending_ok (pending (dg_radio (snd x))) \<Longrightarrow> pending_ok (pending (dg_radio (snd (rx_byte ops b x))))"
  by (cases x) (auto simp: rx_byte_def rx_block_done_def Let_def dispatch_pending_ok)

lemma rx_bytes_pending_ok:
  "pending_ok (pending (dg_radio (snd x))) \<Longrightarrow> pending_ok (pending (dg_radio (snd (fold (rx_byte ops) bs x))))"
  by (induction bs arbitrary: x) (simp_all add: rx_byte_pending_ok)

lemma after_beacon_pending_ok: "pending_ok p \<Longrightarrow> pending_ok (after_beacon p)"
  by (auto simp: pending_ok_def carried_def after_beacon_def split: if_splits)

text \<open>The block buffer stays inside its array.\<close>

definition rx_inv :: "usb_rx \<Rightarrow> bool" where
  "rx_inv rx \<longleftrightarrow> length (rx_block rx) \<le> HTK_MAX_FRAME \<and> 0 \<notin> set (rx_block rx) \<and>
     (rx_block_overflow rx \<longrightarrow> length (rx_block rx) = HTK_MAX_FRAME)"

lemma rx_byte_inv: "rx_inv (fst x) \<Longrightarrow> rx_inv (fst (rx_byte ops b x))"
  by (cases x) (auto simp: rx_inv_def rx_byte_def Let_def split: prod.splits)

lemma rx_bytes_inv: "rx_inv (fst x) \<Longrightarrow> rx_inv (fst (fold (rx_byte ops) bs x))"
  by (induction bs arbitrary: x) (simp_all add: rx_byte_inv)

lemma commands_after_noise:
  assumes "\<forall>cmd \<in> set cmds. command_ok cmd"
    and "fold (rx_byte ops) (noise @ [0]) x = (rx0, dg0)"
  shows "fold (rx_byte ops) (noise @ [0] @ concat (map encode_command cmds)) x =
    (\<lparr>rx_block = [], rx_block_overflow = False, rx_bad_frames = rx_bad_frames rx0\<rparr>,
     fold (perform ops) cmds dg0)"
proof -
  let ?frames = "concat (map encode_command cmds)"
  have "\<forall>cmd \<in> set cmds. encode_command cmd = htk_frame_encode (command_wire cmd) 64"
    using assms(1) htk_frame_encode_ok(1) by (simp add: encode_command_eq)
  then have frames: "?frames = concat (map (\<lambda>p. htk_frame_encode p 64) (map command_wire cmds))"
    by (simp add: comp_def cong: map_cong)
  have ok: "\<forall>p \<in> set (map command_wire cmds). payload_ok p" by simp
  obtain rx' dg' where run: "fold (rx_byte ops) ?frames (rx0, dg0) = (rx', dg')" by fastforce
  have "view = Some []" if "view = rx_view (rx0, dg0)" for view
    using that dongle_rx.feed_resync [of ops noise x] assms(2) by simp
  then have view: "rx_view (rx0, dg0) = Some []" by blast
  have "rx_obs (fold (rx_byte ops) ?frames (rx0, dg0)) = fold (on_payload ops) (map command_wire cmds) (rx_obs (rx0, dg0))"
    unfolding frames by (rule dongle_rx.delivers(1) [OF view ok])
  then have obs: "rx_bad_frames rx' = rx_bad_frames rx0" "dg' = fold (perform ops) cmds dg0"
    using run perform_commands [OF assms(1), of ops "rx_bad_frames rx0" dg0] by (simp_all add: rx_obs_def)
  have "rx_view (fold (rx_byte ops) ?frames (rx0, dg0)) = Some []"
    unfolding frames by (rule dongle_rx.delivers(2) [OF view ok])
  then have "rx_block rx' = []" "\<not> rx_block_overflow rx'"
    using run by (simp_all add: rx_view_def split: if_splits)
  with obs have "rx' = \<lparr>rx_block = [], rx_block_overflow = False, rx_bad_frames = rx_bad_frames rx0\<rparr>" by simp
  with obs run have "fold (rx_byte ops) ?frames (rx0, dg0) =
    (\<lparr>rx_block = [], rx_block_overflow = False, rx_bad_frames = rx_bad_frames rx0\<rparr>, fold (perform ops) cmds dg0)" by simp
  then show ?thesis using assms(2) by simp
qed

subsection \<open>Properties\<close>

text \<open>C10. Host commands reach the dongle: after any noise and a delimiter, every command the host
  library encodes is carried out exactly once and in order, by its meaning (HELLO answered, statistics
  emitted, simulator switched, a sensor command made the pending one with 30 repeats, in place of whichever command was
  pending, be it for the same tracker or for another one), no bad frame is counted, and the
  receiver is left at a block boundary. Without the delimiter the noise and the first command are one block, and that
  command may be lost.\<close>

theorem host_commands_performed:
  assumes "\<forall>cmd \<in> set cmds. command_ok cmd"
    and "fold (rx_byte ops) (noise @ [0]) x = (rx0, dg0)"
  shows "fold (rx_byte ops) (noise @ [0] @ concat (map encode_command cmds)) x =
    (\<lparr>rx_block = [], rx_block_overflow = False, rx_bad_frames = rx_bad_frames rx0\<rparr>,
     fold (perform ops) cmds dg0)"
  by (rule commands_after_noise [OF assms])

theorem host_commands_performed_witness:
  "let dg = \<lparr>dg_usb = usb_io_boot (2048, []) (256, []), dg_trk = trackers_boot, dg_radio = dongle_radio_boot (), dg_sim = sim_boot,
       dg_leds = dongle_leds_boot, dg_clock = (\<lambda>n. int n), dg_reads = 0\<rparr>;
       (rx', dg') = fold (rx_byte list_ring)
         ([9, 9] @ [0] @ concat (map encode_command [SimMode True, Identify 0x1234])) (usb_rx_boot, dg)
   in rx_bad_frames rx' = 1 \<and> sim_active (dg_sim dg') \<and> carried (pending (dg_radio dg')) = [0x15, 0x34, 0x12]"
proof -
  let ?dg = "\<lparr>dg_usb = usb_io_boot (2048, []) (256, []), dg_trk = trackers_boot, dg_radio = dongle_radio_boot (), dg_sim = sim_boot,
       dg_leds = dongle_leds_boot, dg_clock = (\<lambda>n. int n), dg_reads = 0\<rparr>"
  let ?cmds = "[SimMode True, Identify 0x1234]"
  let ?x0 = "fold (rx_byte list_ring) ([9, 9] @ [0]) (usb_rx_boot, ?dg)"
  have ok: "\<forall>cmd \<in> set ?cmds. command_ok cmd" by simp
  have "fold (rx_byte list_ring) ([9, 9] @ [0] @ concat (map encode_command ?cmds)) (usb_rx_boot, ?dg) =
    (\<lparr>rx_block = [], rx_block_overflow = False, rx_bad_frames = rx_bad_frames (fst ?x0)\<rparr>,
     fold (perform list_ring) ?cmds (snd ?x0))"
    by (rule host_commands_performed [OF ok prod.collapse [symmetric]])
  moreover have "rx_bad_frames (fst ?x0) = 1" "sim_active (dg_sim (fold (perform list_ring) ?cmds (snd ?x0)))"
    "carried (pending (dg_radio (fold (perform list_ring) ?cmds (snd ?x0)))) = [0x15, 0x34, 0x12]"
    by code_simp+
  ultimately show ?thesis by (simp only: Let_def prod.case usb_rx.simps simp_thms)
qed

text \<open>The receive work always returns: whatever bytes are in the ring, it processes exactly those, in order,
  leaves the ring empty, and the block buffer never outgrows its 64 bytes.\<close>

theorem rx_work_processes_ring:
  assumes "ring_law ops cont cap" and "rx_inv rx"
  shows "\<exists>rx' dg'. rx_work_fn ops rx dg = Some (rx', dg') \<and>
    cont (rx_ring (dg_usb dg')) = [] \<and> rx_inv rx' \<and>
    (rx', with_rx_ring (rx_ring (dg_usb dg)) dg') = fold (rx_byte ops) (cont (rx_ring (dg_usb dg))) (rx, dg)"
proof -
  let ?ring = "rx_ring (dg_usb dg)"
  obtain rx1 dg1 where run: "fold (rx_byte ops) (cont ?ring) (rx, dg) = (rx1, dg1)" by fastforce
  from rx_work_fn_total [OF assms(1), of rx dg] obtain r where
    r: "cont r = []" "rx_work_fn ops rx dg = Some (rx1, with_rx_ring r dg1)" by (auto simp: run)
  have "rx_ring (dg_usb dg1) = ?ring"
    using rx_bytes_keep_ring [of ops "cont ?ring" "(rx, dg)"] run by simp
  then have "with_rx_ring ?ring (with_rx_ring r dg1) = dg1" by (simp add: with_rx_ring_def)
  moreover have "rx_inv rx1" using rx_bytes_inv [of "(rx, dg)" ops "cont ?ring"] run assms(2) by simp
  ultimately show ?thesis using r run by (auto simp: with_rx_ring_def)
qed

theorem rx_work_processes_ring_witness:
  "let dg = \<lparr>dg_usb = usb_io_boot (2048, []) (256, encode_sim_mode True @ [9, 0, 9]), dg_trk = trackers_boot,
       dg_radio = dongle_radio_boot (), dg_sim = sim_boot, dg_leds = dongle_leds_boot, dg_clock = (\<lambda>n. int n),
       dg_reads = 0\<rparr>
   in \<exists>rx' dg'. rx_work_fn list_ring usb_rx_boot dg = Some (rx', dg') \<and> list_ring_bytes (rx_ring (dg_usb dg')) = [] \<and>
      rx_block rx' = [9] \<and> rx_bad_frames rx' = 1"
proof -
  let ?dg = "\<lparr>dg_usb = usb_io_boot (2048, []) (256, encode_sim_mode True @ [9, 0, 9]), dg_trk = trackers_boot,
       dg_radio = dongle_radio_boot (), dg_sim = sim_boot, dg_leds = dongle_leds_boot, dg_clock = (\<lambda>n. int n),
       dg_reads = 0\<rparr>"
  have inv: "rx_inv usb_rx_boot" by (simp add: rx_inv_def usb_rx_boot_def)
  have "rx_block (fst (fold (rx_byte list_ring) (list_ring_bytes (rx_ring (dg_usb ?dg))) (usb_rx_boot, ?dg))) = [9]"
    "rx_bad_frames (fst (fold (rx_byte list_ring) (list_ring_bytes (rx_ring (dg_usb ?dg))) (usb_rx_boot, ?dg))) = 1"
    by code_simp+
  with rx_work_processes_ring [OF list_ring_law inv, of ?dg] show ?thesis unfolding Let_def by (metis fst_conv)
qed

end
