(* ===== verification/Floats.thy ===== *)
theory Floats
  imports Protocol
begin

text \<open>
  Single-precision numbers. A \<^verbatim>\<open>float\<close> is its IEEE-754 bit pattern (\<open>f32\<close>). What the format alone
  fixes is defined here: classification, sign, comparison, conversion to integers. What depends on the
  target, because the compiler may contract \<open>a * b + c\<close> and because \<^verbatim>\<open>libm\<close> is not correctly rounded,
  is a parameter: a record \<open>float_ops\<close> that the definitions take as \<open>F\<close>. They keep the order of
  operations of the C expressions, one operation at a time. Nothing is assumed of the operations:
  what is proved of code that uses them holds for all of them.
\<close>

subsection \<open>What the format fixes\<close>

definition f_mag :: "f32 \<Rightarrow> int" where
  "f_mag x = uint (x AND 0x7FFFFFFF)"

definition f_neg :: "f32 \<Rightarrow> f32" where
  "f_neg x = x XOR 0x80000000"

definition f_abs :: "f32 \<Rightarrow> f32" where
  "f_abs x = x AND 0x7FFFFFFF"

definition f_sign :: "f32 \<Rightarrow> bool" where
  "f_sign x \<longleftrightarrow> bit x 31"

definition f_nan :: "f32 \<Rightarrow> bool" where
  "f_nan x \<longleftrightarrow> f_mag x > 0x7F800000"

text \<open>An integer that orders the numbers as their values do.\<close>

definition f_key :: "f32 \<Rightarrow> int" where
  "f_key x = (if f_sign x then - f_mag x else f_mag x)"

definition f_less :: "f32 \<Rightarrow> f32 \<Rightarrow> bool" where
  "f_less x y \<longleftrightarrow> \<not> f_nan x \<and> \<not> f_nan y \<and> f_key x < f_key y"

definition f_le :: "f32 \<Rightarrow> f32 \<Rightarrow> bool" where
  "f_le x y \<longleftrightarrow> \<not> f_nan x \<and> \<not> f_nan y \<and> f_key x \<le> f_key y"

definition f_eq :: "f32 \<Rightarrow> f32 \<Rightarrow> bool" where
  "f_eq x y \<longleftrightarrow> \<not> f_nan x \<and> \<not> f_nan y \<and> f_key x = f_key y"

text \<open>\<^verbatim>\<open>fminf\<close> and \<^verbatim>\<open>fmaxf\<close>: a number beats a NaN.\<close>

definition f_min :: "f32 \<Rightarrow> f32 \<Rightarrow> f32" where
  "f_min x y = (if f_nan x then y else if f_nan y then x else if f_less x y then x else y)"

definition f_max :: "f32 \<Rightarrow> f32 \<Rightarrow> f32" where
  "f_max x y = (if f_nan x then y else if f_nan y then x else if f_less y x then x else y)"

text \<open>
  The significand and the exponent of a finite number, \<open>m * 2 ^ e\<close>, and its integer part. A conversion
  to an integer type that cannot hold the integer part is undefined in C; the model takes it modulo the
  size of the type.
\<close>

definition f_parts :: "f32 \<Rightarrow> int \<times> int" where
  "f_parts x =
     (let e = f_mag x div 2 ^ 23; m = f_mag x mod 2 ^ 23;
          (m, e) = (if e = 0 then (m, - 149) else (m + 2 ^ 23, e - 150)) in
      (if f_sign x then - m else m, e))"

definition f_trunc :: "f32 \<Rightarrow> int" where
  "f_trunc x =
     (let (m, e) = f_parts x; n = (if e \<ge> 0 then \<bar>m\<bar> * 2 ^ nat e else \<bar>m\<bar> div 2 ^ nat (- e)) in
      if f_mag x \<ge> 0x7F800000 then 0 else if m < 0 then - n else n)"

lemma f_less_irrefl [simp]: "\<not> f_less x x"
  by (simp add: f_less_def)

lemma f_less_trans: "f_less x y \<Longrightarrow> f_less y z \<Longrightarrow> f_less x z"
  by (auto simp: f_less_def)

lemma f_less_asym: "f_less x y \<Longrightarrow> \<not> f_less y x"
  by (auto simp: f_less_def)

lemma f_le_less_trans: "f_le x y \<Longrightarrow> f_less y z \<Longrightarrow> f_less x z"
  and f_less_le_trans: "f_less x y \<Longrightarrow> f_le y z \<Longrightarrow> f_less x z"
  and f_le_trans: "f_le x y \<Longrightarrow> f_le y z \<Longrightarrow> f_le x z"
  and f_less_imp_le: "f_less x y \<Longrightarrow> f_le x y"
  by (auto simp: f_less_def f_le_def)

lemma not_f_less: "\<not> f_nan x \<Longrightarrow> \<not> f_nan y \<Longrightarrow> \<not> f_less x y \<longleftrightarrow> f_le y x"
  by (auto simp: f_less_def f_le_def)

lemma f_mag_neg [simp]: "f_mag (f_neg x) = f_mag x"
  by (simp add: f_mag_def f_neg_def bit.conj_xor_distrib2)

lemma f_nan_neg [simp]: "f_nan (f_neg x) = f_nan x"
  by (simp add: f_nan_def)

lemma f_sign_neg [simp]: "f_sign (f_neg x) = (\<not> f_sign x)"
proof -
  have "bit (0x80000000 :: f32) 31" by code_simp
  then show ?thesis by (simp add: f_sign_def f_neg_def bit_simps)
qed

lemma f_key_neg [simp]: "f_key (f_neg x) = - f_key x"
  by (simp add: f_key_def)

lemma f_key_0 [simp]: "f_key 0 = 0"
  by (simp add: f_key_def f_mag_def)

lemma f_less_neg_iff: "f_less (f_neg x) (f_neg y) = f_less y x"
  and f_less_neg_swap: "f_less x (f_neg y) = f_less y (f_neg x)"
  by (auto simp: f_less_def)

subsection \<open>What the target fixes\<close>

record float_ops =
  f_add :: "f32 \<Rightarrow> f32 \<Rightarrow> f32"
  f_sub :: "f32 \<Rightarrow> f32 \<Rightarrow> f32"
  f_mul :: "f32 \<Rightarrow> f32 \<Rightarrow> f32"
  f_div :: "f32 \<Rightarrow> f32 \<Rightarrow> f32"
  f_sqrt :: "f32 \<Rightarrow> f32"
  f_of_u32 :: "u32 \<Rightarrow> f32"
  f_cos :: "f32 \<Rightarrow> f32"
  f_sin :: "f32 \<Rightarrow> f32"
  f_atan2 :: "f32 \<Rightarrow> f32 \<Rightarrow> f32"

subsection \<open>An instance with rounding to nearest\<close>

text \<open>
  IEEE-754 arithmetic with each operation rounded to nearest, ties to even: \<open>f_pack s m e\<close> is the number
  nearest to \<open>m * 2 ^ e\<close> with sign \<open>s\<close>, for \<open>m \<ge> 0\<close>. An operation computes its result exactly, or to
  more bits than the format has with a last bit that says whether anything was cut off.
\<close>

fun bit_len :: "nat \<Rightarrow> int \<Rightarrow> nat" where
  "bit_len 0 m = 0"
| "bit_len (Suc k) m = (if m \<le> 0 then 0 else Suc (bit_len k (m div 2)))"

definition f_pack :: "bool \<Rightarrow> int \<Rightarrow> int \<Rightarrow> f32" where
  "f_pack s m e =
     (let e' = max (e + int (bit_len 700 m) - 24) (- 149); k = nat (e' - e);
          q = m div 2 ^ k; r = 2 * (m mod 2 ^ k);
          q = (if e' \<le> e then m * 2 ^ nat (e - e')
               else if r > 2 ^ k \<or> r = 2 ^ k \<and> odd q then q + 1 else q);
          b = (if m = 0 then 0 else min ((e' + 149) * 2 ^ 23 + q) 0x7F800000) in
      word_of_int (if s then b + 2 ^ 31 else b))"

definition f_num :: "f32 \<Rightarrow> bool" where
  "f_num x \<longleftrightarrow> f_mag x < 0x7F800000"

definition ieee_add :: "f32 \<Rightarrow> f32 \<Rightarrow> f32" where
  "ieee_add x y =
     (if f_nan x \<or> f_nan y then 0x7FC00000
      else if \<not> f_num x then (if \<not> f_num y \<and> f_sign x \<noteq> f_sign y then 0x7FC00000 else x)
      else if \<not> f_num y then y
      else
        (let (m, e) = f_parts x; (m', e') = f_parts y; e0 = min e e';
             n = m * 2 ^ nat (e - e0) + m' * 2 ^ nat (e' - e0) in
         f_pack (n < 0 \<or> n = 0 \<and> f_sign x \<and> f_sign y) \<bar>n\<bar> e0))"

definition ieee_mul :: "f32 \<Rightarrow> f32 \<Rightarrow> f32" where
  "ieee_mul x y =
     (let s = (f_sign x \<noteq> f_sign y); (m, e) = f_parts x; (m', e') = f_parts y in
      if f_nan x \<or> f_nan y then 0x7FC00000
      else if \<not> f_num x \<or> \<not> f_num y then
        (if f_mag x = 0 \<or> f_mag y = 0 then 0x7FC00000 else if s then 0xFF800000 else 0x7F800000)
      else f_pack s \<bar>m * m'\<bar> (e + e'))"

definition ieee_div :: "f32 \<Rightarrow> f32 \<Rightarrow> f32" where
  "ieee_div x y =
     (let s = (f_sign x \<noteq> f_sign y); (m, e) = f_parts x; (m', e') = f_parts y;
          n = \<bar>m\<bar> * 2 ^ 50; inf = (if s then 0xFF800000 else 0x7F800000) in
      if f_nan x \<or> f_nan y then 0x7FC00000
      else if \<not> f_num x then (if \<not> f_num y then 0x7FC00000 else inf)
      else if \<not> f_num y then (if s then 0x80000000 else 0)
      else if m' = 0 then (if m = 0 then 0x7FC00000 else inf)
      else f_pack s (2 * (n div \<bar>m'\<bar>) + (if n mod \<bar>m'\<bar> = 0 then 0 else 1)) (e - e' - 51))"

text \<open>The integer square root, bit by bit.\<close>

fun int_sqrt :: "nat \<Rightarrow> int \<Rightarrow> int" where
  "int_sqrt 0 n = 0"
| "int_sqrt (Suc k) n =
     (if n \<le> 0 then 0
      else (let r = 2 * int_sqrt k (n div 4) in if (r + 1) * (r + 1) \<le> n then r + 1 else r))"

definition ieee_sqrt :: "f32 \<Rightarrow> f32" where
  "ieee_sqrt x =
     (let (m, e) = f_parts x; (n, e) = (if even e then (m * 2 ^ 50, e - 50) else (m * 2 ^ 51, e - 51));
          r = int_sqrt 80 n in
      if f_nan x then 0x7FC00000
      else if f_mag x = 0 then x
      else if f_sign x then 0x7FC00000
      else if \<not> f_num x then x
      else f_pack False (2 * r + (if r * r = n then 0 else 1)) (e div 2 - 1))"

text \<open>Of the trigonometric functions only the values at zero are filled in.\<close>

definition ieee_ops :: float_ops where
  "ieee_ops = \<lparr>f_add = ieee_add, f_sub = (\<lambda>x y. ieee_add x (f_neg y)), f_mul = ieee_mul, f_div = ieee_div,
     f_sqrt = ieee_sqrt, f_of_u32 = (\<lambda>n. f_pack False (uint n) 0),
     f_cos = (\<lambda>x. 0x3F800000), f_sin = (\<lambda>x. x), f_atan2 = (\<lambda>y x. 0)\<rparr>"

text \<open>Numbers from the sources: \<^verbatim>\<open>1 / 416\<close>, \<^verbatim>\<open>0.04 + 1/416\<close>, \<open>10 * 0.017453293 / 208\<close>, the square root of 2.\<close>

lemma ieee_examples:
  "f_div ieee_ops 0x3F800000 0x43D00000 = 0x3B1D89D9"
  "f_sqrt ieee_ops 0x40000000 = 0x3FB504F3"
  "f_sub ieee_ops 0x411CF5C3 0x411CF5C3 = 0"
  "f_mul ieee_ops 0x41200000 0x3C8EFA35 = 0x3E32B8C2"
  "f_add ieee_ops 0x3D23D70A 0x3B1D89D9 = 0x3D2DAFA8"
  "f_trunc 0x43D00000 = 416" "f_trunc 0xC2F6E979 = - 123" "f_of_u32 ieee_ops 16777217 = 0x4B800000"
  by code_simp+

text \<open>
  A degenerate instance, in which an operation gives back its first argument (a sum, its first summand
  that is not zero), for the evaluation of long
  runs: comparisons and state machines are the real ones, the arithmetic is not.
\<close>

definition toy_ops :: float_ops where
  "toy_ops = \<lparr>f_add = (\<lambda>x y. if x = 0 then y else x), f_sub = (\<lambda>x y. x), f_mul = (\<lambda>x y. x), f_div = (\<lambda>x y. x), f_sqrt = (\<lambda>x. x),
     f_of_u32 = (\<lambda>x. x), f_cos = (\<lambda>x. x), f_sin = (\<lambda>x. x), f_atan2 = (\<lambda>y x. y)\<rparr>"

end
