(* ===== verification/Dongle.thy ===== *)
theory Dongle
  imports Usb_Rx Parser Floats
begin

text \<open>
  The dongle as a whole: \<^verbatim>\<open>firmware/app_dongle/src/main.c\<close>, the simulator's sample work of \<^verbatim>\<open>sim.c\<close>,
  the start-up of \<^verbatim>\<open>usb_io.c\<close>, and the step relation \<open>dongle_step\<close> in which every interrupt,
  timer, work item and thread round of the firmware is one step.

  Each handler runs to completion in the model. In the firmware the spinlocks make the shared accesses
  of two handlers atomic, which is what the interleaving of whole handlers relies on.
\<close>

subsection \<open>The simulator's sample (sim.c)\<close>

text \<open>The literals: 10.0, 0.017453293, 208.0, 6.283185307 and 0.5.\<close>

definition SIM_YAW_RATE_DPS :: f32 where "SIM_YAW_RATE_DPS = 0x41200000"
definition DEG_TO_RAD :: f32 where "DEG_TO_RAD = 0x3C8EFA35"
definition SIM_RATE_HZ :: f32 where "SIM_RATE_HZ = 0x43500000"
definition TWO_PI :: f32 where "TWO_PI = 0x40C90FDB"
definition f_half :: f32 where "f_half = 0x3F000000"

definition sim_work_fn :: "float_ops \<Rightarrow> 'r ring_ops \<Rightarrow> int \<Rightarrow> sim \<times> 'r usb_io \<Rightarrow> sim \<times> 'r usb_io" where
  "sim_work_fn F ops us x = (case x of (s, u) \<Rightarrow>
     let yaw = f_add F (sim_yaw s) (f_div F (f_mul F SIM_YAW_RATE_DPS DEG_TO_RAD) SIM_RATE_HZ);
         yaw = (if f_less TWO_PI yaw then f_sub F yaw TWO_PI else yaw);
         smp = \<lparr>or_type = HTK_PKT_ORIENT, or_id = HTK_ID_SIM, or_seq = sim_seq s, or_t_us = word_of_int us,
                or_q_w = f_cos F (f_mul F yaw f_half), or_q_x = 0, or_q_y = 0,
                or_q_z = f_sin F (f_mul F yaw f_half), or_flags = HTK_ORIENT_SIM\<rparr> in
     (s\<lparr>sim_yaw := yaw, sim_seq := sim_seq s + 1\<rparr>, usb_io_send_payload ops (enc_orient smp) u))"

subsection \<open>The periodic work of main.c\<close>

text \<open>\<^verbatim>\<open>%u\<close>, and the text of the diagnostic LOG line.\<close>

fun dec_digits :: "nat \<Rightarrow> bytes" where
  "dec_digits n =
     (case n div 10 of 0 \<Rightarrow> [] | Suc m \<Rightarrow> dec_digits (n div 10)) @ [0x30 + of_nat (n mod 10)]"

declare dec_digits.simps [simp del]

definition beacon_log_text :: "radio_beacon_stats \<Rightarrow> bytes" where
  "beacon_log_text b =
     [0x62, 0x63, 0x6E, 0x20, 0x61, 0x3D] @ dec_digits (unat (bs_attempts b)) @
     [0x20, 0x73, 0x3D] @ dec_digits (unat (bs_sent b)) @
     [0x20, 0x73, 0x66, 0x3D] @ dec_digits (unat (bs_setup_fail b)) @
     [0x20, 0x77, 0x66, 0x3D] @ dec_digits (unat (bs_write_fail b)) @
     [0x20, 0x74, 0x6F, 0x3D] @ dec_digits (unat (bs_tx_timeout b)) @
     [0x20, 0x70, 0x66, 0x3D] @ dec_digits (unat (bs_prx_fail b))"

text \<open>
  \<^verbatim>\<open>snprintf\<close> into \<open>sz\<close> bytes: the text cut to \<open>sz - 1\<close> characters with a zero byte behind it,
  and the untruncated length as the result.
\<close>

definition snprintf_text :: "nat \<Rightarrow> bytes \<Rightarrow> bytes \<times> nat" where
  "snprintf_text sz txt = (take (sz - 1) txt @ [0], length txt)"

definition beacon_log_payload :: "radio_beacon_stats \<Rightarrow> bytes" where
  "beacon_log_payload b =
     (let (buf, n) = snprintf_text (HTK_MAX_PAYLOAD - 1) (beacon_log_text b) in
      take (min (n + 1) HTK_MAX_PAYLOAD) (HTK_PKT_LOG # buf))"

definition stats_work_fn :: "'r ring_ops \<Rightarrow> ('r, 'q) dongle \<Rightarrow> ('r, 'q) dongle" where
  "stats_work_fn ops dg =
     (let (now, dg) = k_uptime_get dg; (now1, dg) = k_uptime_get dg; (now2, dg) = k_uptime_get dg;
          (s, u) = trackers_tick_1hz ops now now1 now2 (sim_is_active (dg_sim dg)) (dg_trk dg, dg_usb dg);
          dg = dg\<lparr>dg_trk := s, dg_usb := u\<rparr> in
      send_usb ops (beacon_log_payload (radio_get_beacon_stats (dg_radio dg))) dg)"

text \<open>\<open>on\<close> is the handler's static variable.\<close>

definition heartbeat_timer_fn :: "bool \<times> ('r, 'q) dongle \<Rightarrow> bool \<times> ('r, 'q) dongle" where
  "heartbeat_timer_fn x = (case x of (on, dg) \<Rightarrow>
     let on = (usb_io_is_configured (dg_usb dg) \<and> \<not> on) in
     (on, dg\<lparr>dg_leds := leds_set_blue on (dg_leds dg)\<rparr>))"

subsection \<open>Start-up\<close>


text \<open>\<open>leds_init\<close>: for each pin, whether its port is ready and what configuring it returns.\<close>

fun leds_init :: "(bool \<times> int) list \<Rightarrow> int" where
  "leds_init [] = 0"
| "leds_init ((ready, err) # pins) =
     (if \<not> ready then - ENODEV else if err \<noteq> 0 then err else leds_init pins)"

text \<open>\<open>usb_io_init\<close>: whether the CDC device is ready, and what \<^verbatim>\<open>usb_enable\<close> returns.\<close>

definition usb_io_init :: "bool \<Rightarrow> int \<Rightarrow> int" where
  "usb_io_init ready err = (if \<not> ready then - ENODEV else if err \<noteq> 0 then err else 0)"

text \<open>The whole of the dongle's memory, with the driver's state \<open>'d\<close>.\<close>

record ('r, 'q, 'd) dongle_sys =
  sys_dongle :: "('r, 'q) dongle"
  sys_rx :: usb_rx
  sys_heartbeat :: bool
  sys_timers :: bool
  sys_esb :: 'd

definition dongle_reset :: "'r \<Rightarrow> 'r \<Rightarrow> 'q \<Rightarrow> (nat \<Rightarrow> int) \<Rightarrow> 'd \<Rightarrow> ('r, 'q, 'd) dongle_sys" where
  "dongle_reset tx rx q clock d =
     \<lparr>sys_dongle = \<lparr>dg_usb = usb_io_boot tx rx, dg_trk = trackers_boot, dg_radio = dongle_radio_boot q,
        dg_sim = sim_boot, dg_leds = dongle_leds_boot, dg_clock = clock, dg_reads = 0\<rparr>,
      sys_rx = usb_rx_boot, sys_heartbeat = False, sys_timers = False, sys_esb = d\<rparr>"

definition dongle_main ::
  "'d driver \<Rightarrow> int \<Rightarrow> int \<Rightarrow> ('r, 'q, 'd) dongle_sys \<Rightarrow> ('r, 'q, 'd) dongle_sys" where
  "dongle_main drv usb_err clocks s =
     (let dg = sys_dongle s;
          dg = (if usb_err \<noteq> 0 then dg\<lparr>dg_leds := leds_set_red True (dg_leds dg)\<rparr> else dg);
          (err, r, d) = radio_init drv clocks (dg_radio dg, sys_esb s);
          dg = dg\<lparr>dg_radio := r\<rparr>;
          dg = (if err \<noteq> 0 then dg\<lparr>dg_leds := leds_set_red True (dg_leds dg)\<rparr> else dg) in
      s\<lparr>sys_dongle := dg, sys_timers := True, sys_esb := d\<rparr>)"

subsection \<open>One step of the dongle\<close>

definition upd_dongle :: "(('r, 'q) dongle \<Rightarrow> ('r, 'q) dongle) \<Rightarrow> ('r, 'q, 'd) dongle_sys \<Rightarrow> ('r, 'q, 'd) dongle_sys" where
  "upd_dongle f s = s\<lparr>sys_dongle := f (sys_dongle s)\<rparr>"

text \<open>
  What the hardware and the kernel can make happen. The timers run once \<^verbatim>\<open>main\<close> has started them, the
  beacon work once \<^verbatim>\<open>radio_init\<close> has succeeded, and the simulator's work while its timer runs.
\<close>

inductive dongle_step ::
  "'r ring_ops \<Rightarrow> (bytes, 'q) msgq_ops \<Rightarrow> 'd driver \<Rightarrow> float_ops \<Rightarrow>
   ('r, 'q, 'd) dongle_sys \<Rightarrow> ('r, 'q, 'd) dongle_sys \<Rightarrow> bool"
  for ops mq drv F where
  uart: "list_all uart_law its \<Longrightarrow>
    dongle_step ops mq drv F s (upd_dongle (\<lambda>dg. dg\<lparr>dg_usb := cdc_irq_handler ops its (dg_usb dg)\<rparr>) s)"
| usb_status:
    "dongle_step ops mq drv F s (upd_dongle (\<lambda>dg. dg\<lparr>dg_usb := usb_status_cb st (dg_usb dg)\<rparr>) s)"
| rx_work: "rx_work_fn ops (sys_rx s) (sys_dongle s) = Some (rx, dg) \<Longrightarrow>
    dongle_step ops mq drv F s (s\<lparr>sys_rx := rx, sys_dongle := dg\<rparr>)"
| esb_event: "on_esb_event mq drv ev (dg_radio (sys_dongle s), sys_esb s) = (r, d) \<Longrightarrow>
    dongle_step ops mq drv F s (upd_dongle (\<lambda>dg. dg\<lparr>dg_radio := r\<rparr>) (s\<lparr>sys_esb := d\<rparr>))"
| rx_thread: "k_uptime_get (sys_dongle s) = (now, dg) \<Longrightarrow>
    rx_thread_round mq ops now (dg_radio dg, dg_trk dg, dg_usb dg, dg_leds dg) = Some (r, t, u, l) \<Longrightarrow>
    dongle_step ops mq drv F s
      (s\<lparr>sys_dongle := dg\<lparr>dg_radio := r, dg_trk := t, dg_usb := u, dg_leds := l\<rparr>\<rparr>)"
| beacon: "beacon_timer (dg_radio (sys_dongle s)) \<Longrightarrow>
    beacon_work_fn drv (dg_radio (sys_dongle s), dg_leds (sys_dongle s), sys_esb s) = (r, l, d) \<Longrightarrow>
    dongle_step ops mq drv F s (upd_dongle (\<lambda>dg. dg\<lparr>dg_radio := r, dg_leds := l\<rparr>) (s\<lparr>sys_esb := d\<rparr>))"
| stats: "sys_timers s \<Longrightarrow> dongle_step ops mq drv F s (upd_dongle (stats_work_fn ops) s)"
| heartbeat: "sys_timers s \<Longrightarrow> heartbeat_timer_fn (sys_heartbeat s, sys_dongle s) = (on, dg) \<Longrightarrow>
    dongle_step ops mq drv F s (s\<lparr>sys_heartbeat := on, sys_dongle := dg\<rparr>)"
| sim_sample: "sim_timer (dg_sim (sys_dongle s)) \<Longrightarrow>
    sim_work_fn F ops us (dg_sim (sys_dongle s), dg_usb (sys_dongle s)) = (m, u) \<Longrightarrow>
    dongle_step ops mq drv F s (upd_dongle (\<lambda>dg. dg\<lparr>dg_sim := m, dg_usb := u\<rparr>) s)"
| activity_off: "activity_off_work (dg_leds (sys_dongle s)) \<Longrightarrow>
    dongle_step ops mq drv F s (upd_dongle (\<lambda>dg. dg\<lparr>dg_leds := activity_off_fn (dg_leds dg)\<rparr>) s)"
| start: "\<not> sys_timers s \<Longrightarrow> dongle_step ops mq drv F s (dongle_main drv usb_err clocks s)"

inductive_simps dongle_step_iff: "dongle_step ops mq drv F s s'"

inductive dongle_reachable ::
  "'r ring_ops \<Rightarrow> (bytes, 'q) msgq_ops \<Rightarrow> 'd driver \<Rightarrow> float_ops \<Rightarrow>
   ('r, 'q, 'd) dongle_sys \<Rightarrow> ('r, 'q, 'd) dongle_sys \<Rightarrow> bool"
  for ops mq drv F s0 where
  here: "dongle_reachable ops mq drv F s0 s0"
| step: "dongle_reachable ops mq drv F s0 s \<Longrightarrow> dongle_step ops mq drv F s s' \<Longrightarrow>
    dongle_reachable ops mq drv F s0 s'"

subsection \<open>Invariants\<close>

text \<open>
  The payloads that the dongle sends are the packets of the protocol, and what every use of the pipe
  keeps: whole frames of such packets, one behind the other.
\<close>

definition dongle_payload :: "bytes \<Rightarrow> bool" where
  "dongle_payload p \<longleftrightarrow> (\<exists>pkt. packet_wf pkt \<and> packet_bytes pkt = p)"

lemma dongle_payloadI:
  "or_type o1 = HTK_PKT_ORIENT \<Longrightarrow> dongle_payload (enc_orient o1)"
  "st_type o2 = HTK_PKT_STATUS \<Longrightarrow> dongle_payload (enc_status o2)"
  "ts_type o3 = HTK_PKT_TRACKER_STAT \<Longrightarrow> dongle_payload (enc_tracker_stat o3)"
  "hr_type o4 = HTK_PKT_HELLO_RESP \<Longrightarrow> dongle_payload (enc_hello_resp o4)"
  "length txt < HTK_MAX_PAYLOAD \<Longrightarrow> dongle_payload (HTK_PKT_LOG # txt)"
  unfolding dongle_payload_def
  by (metis packet_wf.simps packet_bytes.simps)+

lemma forwarded_payload:
  "length p = 26 \<Longrightarrow> p ! 0 = HTK_PKT_ORIENT \<Longrightarrow> dongle_payload p"
  "length p = 22 \<Longrightarrow> p ! 0 = HTK_PKT_RAW \<Longrightarrow> dongle_payload p"
  unfolding dongle_payload_def
  by (metis dec_type_byte(1) orient_wire.enc_dec packet_wf.simps(1) packet_bytes.simps(1))
     (metis dec_type_byte(3) raw_wire.enc_dec packet_wf.simps(4) packet_bytes.simps(4))

lemma dongle_payload_ok: "dongle_payload p \<Longrightarrow> payload_ok p"
  by (auto simp: dongle_payload_def packet_bytes_ok)

definition stream_ok :: "('r \<Rightarrow> bytes) \<Rightarrow> 'r usb_io \<Rightarrow> bool" where
  "stream_ok cont u \<longleftrightarrow> tx_inv cont u \<and> (\<exists>acc. (\<forall>p \<in> set acc. dongle_payload p) \<and> tx_stream cont u = frames_for acc)"

lemma stream_ok_send:
  assumes law: "ring_law ops cont cap" and ok: "stream_ok cont u" and p: "dongle_payload p"
  shows "stream_ok cont (usb_io_send_payload ops p u)"
proof -
  from ok obtain acc where acc: "\<forall>p \<in> set acc. dongle_payload p" "tx_stream cont u = frames_for acc" "tx_inv cont u"
    by (auto simp: stream_ok_def)
  let ?more = "if send_accepts ops p u then [p] else []"
  have "tx_stream cont (usb_io_send_payload ops p u) = frames_for (acc @ ?more)"
    using usb_step_stream(2) [OF law acc(3), of "SendPayload p"] acc(2) by simp
  moreover have "\<forall>p \<in> set (acc @ ?more). dongle_payload p" using acc(1) p by auto
  ultimately show ?thesis
    using usb_step_stream(1) [OF law acc(3), of "SendPayload p"] unfolding stream_ok_def by (auto simp del: set_append)
qed

lemma stream_ok_irq:
  assumes "ring_law ops cont cap" and "list_all uart_law its" and "stream_ok cont u"
  shows "stream_ok cont (cdc_irq_handler ops its u)"
  using assms usb_step_stream [OF assms(1), of u "UartIrq its"] by (auto simp: stream_ok_def)

lemma stream_ok_rx_ring [simp]: "stream_ok cont (u\<lparr>rx_ring := r\<rparr>) = stream_ok cont u"
  by (simp add: stream_ok_def tx_inv_def tx_queue_def tx_current_def tx_stream_def)

lemma stream_ok_status [simp]: "stream_ok cont (usb_status_cb st u) = stream_ok cont u"
  by (simp add: stream_ok_def tx_stream_def)

lemma emitted_types [simp]:
  "ts_type (tracker_stat_of now t) = HTK_PKT_TRACKER_STAT" "st_type (status_of now up act s) = HTK_PKT_STATUS"
  by (simp_all add: tracker_stat_of_def status_of_def Let_def)

lemma stream_ok_emit:
  assumes law: "ring_law ops cont cap" and ok: "stream_ok cont u"
  shows "stream_ok cont (emit_locked_snapshot ops now up act s u)"
proof -
  have "stream_ok cont v \<Longrightarrow> stream_ok cont (fold (\<lambda>t u. if \<not> tk_valid t then u
      else usb_io_send_payload ops (enc_tracker_stat (tracker_stat_of now t)) u) ts v)" for ts v
  proof (induction ts arbitrary: v)
    case (Cons t ts)
    have "stream_ok cont (if \<not> tk_valid t then v
        else usb_io_send_payload ops (enc_tracker_stat (tracker_stat_of now t)) v)"
      using Cons.prems by (auto intro!: stream_ok_send [OF law] dongle_payloadI)
    from Cons.IH [OF this] show ?case by (simp only: fold.simps comp_apply)
  qed simp
  moreover have "stream_ok cont (usb_io_send_payload ops (enc_status (status_of now up act s)) u)"
    by (intro stream_ok_send [OF law ok] dongle_payloadI) simp
  ultimately show ?thesis unfolding emit_locked_snapshot_def by blast
qed

text \<open>The invariant of everything a handler can change besides the frame assembly.\<close>

definition dongle_inv :: "('r \<Rightarrow> bytes) \<Rightarrow> ('r, 'q) dongle \<Rightarrow> bool" where
  "dongle_inv cont dg \<longleftrightarrow>
     stream_ok cont (dg_usb dg) \<and> trackers_inv (dg_trk dg) \<and> pending_ok (pending (dg_radio dg)) \<and>
     outcomes (bcn_stats (dg_radio dg)) = bs_attempts (bcn_stats (dg_radio dg)) \<and>
     sim_timer (dg_sim dg) = sim_active (dg_sim dg)"

lemmas dongle_ops = send_usb_def emit_stats_def k_uptime_get_def trackers_emit_stats_def send_hello_resp_def
  stats_work_fn_def trackers_tick_1hz_def heartbeat_timer_fn_def

lemma beacon_log_dongle_payload: "dongle_payload (beacon_log_payload b)"
proof -
  have "take (min (n + 1) HTK_MAX_PAYLOAD) (HTK_PKT_LOG # buf) = HTK_PKT_LOG # take (min n 58) buf" for n buf
    by (simp add: min_def)
  then show ?thesis
    by (auto simp: beacon_log_payload_def snprintf_text_def Let_def simp del: HTK_PKT_LOG_def take_append
        intro!: dongle_payloadI(5))
qed

lemma dispatch_dongle_inv:
  assumes "ring_law ops cont cap" and "dongle_inv cont dg"
  shows "dongle_inv cont (dispatch_payload ops p dg)"
proof -
  have "pending_ok (pending (dg_radio (dispatch_payload ops p dg)))"
    using assms(2) by (simp add: dongle_inv_def dispatch_pending_ok)
  with assms show ?thesis
    by (auto simp: dongle_inv_def dispatch_payload_def dongle_ops sim_set_def radio_set_pending_cmd_def Let_def
        stream_ok_send stream_ok_emit dongle_payloadI)
qed

lemma rx_bytes_dongle_inv:
  assumes "ring_law ops cont cap" and "dongle_inv cont (snd x)"
  shows "dongle_inv cont (snd (fold (rx_byte ops) bs x))"
  using assms(2)
proof (induction bs arbitrary: x)
  case (Cons b bs)
  obtain rx dg where x: "x = (rx, dg)" by fastforce
  have "dongle_inv cont (snd (rx_byte ops b x))"
    using Cons.prems dispatch_dongle_inv [OF assms(1)]
    by (auto simp: x rx_byte_def rx_block_done_def Let_def)
  then show ?case using Cons.IH by simp
qed simp

lemma stats_dongle_inv:
  assumes "ring_law ops cont cap" and "dongle_inv cont dg"
  shows "dongle_inv cont (stats_work_fn ops dg)"
  using assms by (simp add: dongle_inv_def dongle_ops Let_def stream_ok_send stream_ok_emit tick_inv beacon_log_dongle_payload)

lemma rx_packet_inv:
  assumes law: "ring_law ops cont cap" and "stream_ok cont u" and "trackers_inv s"
    and "rx_packet ops now pkt (s, u, l) = (s', u', l')"
  shows "stream_ok cont u' \<and> trackers_inv s'"
  using assms(2-) stream_ok_send [OF law] forwarded_payload
  by (auto simp: rx_packet_def trackers_on_sample_def trackers_on_tstatus_def on_packet_inv Let_def split: if_splits)

lemma on_esb_event_radio:
  assumes "on_esb_event mq drv ev (r, d) = (r', d')"
  shows "pending r' = pending r \<and> bcn_stats r' = bcn_stats r"
proof -
  have "pending (fold (queue_rx mq) pkts r) = pending r \<and> bcn_stats (fold (queue_rx mq) pkts r) = bcn_stats r" for pkts r
    by (induction pkts arbitrary: r) (auto simp: queue_rx_def Let_def split: prod.split)
  with assms show ?thesis by (cases ev) auto
qed

definition sys_inv :: "('r \<Rightarrow> bytes) \<Rightarrow> ('r, 'q, 'd) dongle_sys \<Rightarrow> bool" where
  "sys_inv cont s \<longleftrightarrow> dongle_inv cont (sys_dongle s) \<and> rx_inv (sys_rx s)"

lemma sys_inv_reset: "cont tx = [] \<Longrightarrow> sys_inv cont (dongle_reset tx rx q clock d)"
  using tx_inv_boot [of cont tx rx]
  by (auto simp: sys_inv_def dongle_inv_def dongle_reset_def stream_ok_def trackers_inv_boot pending_ok_def carried_def
      dongle_radio_boot_def outcomes_def sim_boot_def rx_inv_def usb_rx_boot_def tx_stream_def tx_queue_def
      tx_current_def usb_io_boot_def intro!: exI [of _ "[]"])

lemma radio_init_radio:
  "radio_init drv clocks (r, d) = (err, r', d') \<Longrightarrow> pending r' = pending r \<and> bcn_stats r' = bcn_stats r"
  by (auto simp: radio_init_def split: if_splits prod.splits)

lemma dongle_main_inv: "sys_inv cont (dongle_main drv usb_err clocks s) = sys_inv cont s"
proof -
  obtain err r d where ri: "radio_init drv clocks (dg_radio (sys_dongle s), sys_esb s) = (err, r, d)"
    by (metis surj_pair)
  show ?thesis using radio_init_radio [OF ri]
    by (cases "usb_err = 0"; cases "err = 0") (simp_all add: sys_inv_def dongle_inv_def dongle_main_def ri Let_def)
qed

lemma dongle_step_inv:
  assumes law: "ring_law ops cont cap" and inv: "sys_inv cont s" and st: "dongle_step ops mq drv F s s'"
  shows "sys_inv cont s'"
  using st
proof cases
  case (uart its)
  then show ?thesis using inv stream_ok_irq [OF law] by (simp add: sys_inv_def dongle_inv_def upd_dongle_def)
next
  case usb_status
  then show ?thesis using inv by (simp add: sys_inv_def dongle_inv_def upd_dongle_def)
next
  case (rx_work rx dg)
  let ?x = "fold (rx_byte ops) (cont (rx_ring (dg_usb (sys_dongle s)))) (sys_rx s, sys_dongle s)"
  from rx_work_fn_total [OF law, of "sys_rx s" "sys_dongle s"] rx_work(2) obtain r where
    "(rx, dg) = apsnd (with_rx_ring r) ?x" by auto
  then have eq: "rx = fst ?x" "dg = with_rx_ring r (snd ?x)" by (simp_all add: apsnd_def map_prod_def split: prod.splits)
  have "dongle_inv cont (snd ?x)" "rx_inv (fst ?x)"
    using inv by (auto simp: sys_inv_def intro!: rx_bytes_dongle_inv [OF law] rx_bytes_inv)
  then show ?thesis using rx_work(1) eq by (simp add: sys_inv_def dongle_inv_def with_rx_ring_def)
next
  case (esb_event ev r d)
  then show ?thesis using inv on_esb_event_radio [OF esb_event(2)]
    by (simp add: sys_inv_def dongle_inv_def upd_dongle_def)
next
  case (rx_thread now dg r t u l)
  have dg: "dg = (sys_dongle s)\<lparr>dg_reads := dg_reads (sys_dongle s) + 1\<rparr>"
    using rx_thread(2) by (simp add: k_uptime_get_def)
  from rx_thread(3) obtain pkt q where p: "rx_packet ops now pkt (dg_trk dg, dg_usb dg, dg_leds dg) = (t, u, l)"
    "r = (dg_radio dg)\<lparr>rx_msgq := q\<rparr>"
    by (auto simp: rx_thread_round_def split: prod.splits option.splits)
  show ?thesis using inv rx_packet_inv [OF law _ _ p(1)] p(2) rx_thread(1)
    by (simp add: sys_inv_def dongle_inv_def dg)
next
  case (beacon r l d)
  then show ?thesis using inv beacon_work_state [OF beacon(3)]
    by (simp add: sys_inv_def dongle_inv_def upd_dongle_def after_beacon_pending_ok)
next
  case stats
  then show ?thesis using inv stats_dongle_inv [OF law] by (auto simp: sys_inv_def upd_dongle_def)
next
  case (heartbeat on dg)
  then show ?thesis using inv by (auto simp: sys_inv_def dongle_inv_def heartbeat_timer_fn_def Let_def)
next
  case (sim_sample us m u)
  then show ?thesis using inv stream_ok_send [OF law] dongle_payloadI(1)
    by (auto simp: sys_inv_def dongle_inv_def upd_dongle_def sim_work_fn_def Let_def)
next
  case activity_off
  then show ?thesis using inv by (simp add: sys_inv_def dongle_inv_def upd_dongle_def)
next
  case (start usb_err clocks)
  then show ?thesis using inv by (simp add: dongle_main_inv)
qed

lemma dongle_reachable_sys_inv:
  assumes "ring_law ops cont cap" and "sys_inv cont s0" and "dongle_reachable ops mq drv F s0 s"
  shows "sys_inv cont s"
  using assms(3) by induction (use assms(1,2) dongle_step_inv in blast)+

lemma payloads_packets:
  "\<forall>p \<in> set acc. \<exists>pkt. packet_wf pkt \<and> packet_bytes pkt = p \<Longrightarrow>
    \<exists>pkts. (\<forall>pkt \<in> set pkts. packet_wf pkt) \<and> acc = map packet_bytes pkts"
proof (induction acc)
  case (Cons p acc)
  then obtain pkt pkts where "packet_wf pkt" "packet_bytes pkt = p"
    "\<forall>pkt \<in> set pkts. packet_wf pkt" "acc = map packet_bytes pkts" by auto
  then show ?case by (intro exI [of _ "pkt # pkts"]) simp
qed simp

subsection \<open>Properties\<close>

text \<open>C4. Whatever happens to the dongle, in any order of interrupts, timers, work items and thread rounds, from
  reset on: what has gone to the host and what waits for it are whole frames of well-formed protocol
  packets, one behind the other; the tracker table keeps eight slots with no id twice; the command carried
  by beacons is none or a well-formed one for a concrete tracker; every beacon attempt has exactly one
  counted outcome; the block buffer stays inside its array; and the simulator's timer runs exactly while it
  is switched on.\<close>

theorem dongle_always_safe:
  assumes "ring_law ops cont cap" and "cont tx = []"
    and "dongle_reachable ops mq drv F (dongle_reset tx rx q clock d) s"
  defines "dg \<equiv> sys_dongle s"
  defines "st \<equiv> bcn_stats (dg_radio dg)"
  shows "(\<exists>pkts. (\<forall>pkt \<in> set pkts. packet_wf pkt) \<and>
      cdc_out (dg_usb dg) @ concat (tx_queue cont (dg_usb dg)) = frames_for (map packet_bytes pkts)) \<and>
    (length (table (dg_trk dg)) = 8 \<and> slots_distinct (table (dg_trk dg))) \<and>
    (carried (pending (dg_radio dg)) = [] \<or> directed_ok (carried (pending (dg_radio dg)))) \<and>
    (bs_sent st + bs_setup_fail st + bs_write_fail st + bs_tx_timeout st = bs_attempts st) \<and>
    (length (rx_block (sys_rx s)) \<le> HTK_MAX_FRAME \<and> 0 \<notin> set (rx_block (sys_rx s))) \<and>
    (sim_timer (dg_sim dg) = sim_active (dg_sim dg))"
proof (rule conj6I)
  have "sys_inv cont s" by (rule dongle_reachable_sys_inv [OF assms(1) sys_inv_reset assms(3)]) (rule assms(2))
  then have inv: "dongle_inv cont dg" "rx_inv (sys_rx s)" by (simp_all add: sys_inv_def dg_def)
  from inv(1) obtain acc where acc: "\<forall>p \<in> set acc. dongle_payload p" "tx_stream cont (dg_usb dg) = frames_for acc"
    by (auto simp: dongle_inv_def stream_ok_def)
  then obtain pkts where "\<forall>pkt \<in> set pkts. packet_wf pkt" "acc = map packet_bytes pkts"
    using payloads_packets [of acc] unfolding dongle_payload_def by blast
  with acc show "\<exists>pkts. (\<forall>pkt \<in> set pkts. packet_wf pkt) \<and>
      cdc_out (dg_usb dg) @ concat (tx_queue cont (dg_usb dg)) = frames_for (map packet_bytes pkts)"
    by (auto simp: tx_stream_def)
  show "length (table (dg_trk dg)) = 8 \<and> slots_distinct (table (dg_trk dg))"
    and "carried (pending (dg_radio dg)) = [] \<or> directed_ok (carried (pending (dg_radio dg)))"
    and "bs_sent st + bs_setup_fail st + bs_write_fail st + bs_tx_timeout st = bs_attempts st"
    and "length (rx_block (sys_rx s)) \<le> HTK_MAX_FRAME \<and> 0 \<notin> set (rx_block (sys_rx s))"
    and "sim_timer (dg_sim dg) = sim_active (dg_sim dg)"
    using inv by (simp_all add: dongle_inv_def trackers_inv_def pending_ok_def rx_inv_def outcomes_def st_def)
qed

theorem dongle_always_safe_witness:
  "\<exists>s :: (nat \<times> bytes, bytes list, radio_call list) dongle_sys.
    let dg = sys_dongle s; st = bcn_stats (dg_radio dg) in
      usb_configured (dg_usb dg) \<and> bs_attempts st = 1 \<and>
      bs_sent st + bs_setup_fail st + bs_write_fail st + bs_tx_timeout st = 1 \<and>
      (\<exists>pkts. (\<forall>pkt \<in> set pkts. packet_wf pkt) \<and>
        cdc_out (dg_usb dg) @ concat (tx_queue list_ring_bytes (dg_usb dg)) = frames_for (map packet_bytes pkts))"
proof -
  let ?F = toy_ops
  let ?drv = "log_driver (\<lambda>c. 0)" and ?mq = "list_msgq 64 :: (bytes, bytes list) msgq_ops"
  let ?s0 = "dongle_reset (2048, []) (256, []) [] (\<lambda>n. 0) [] :: (nat \<times> bytes, bytes list, radio_call list) dongle_sys"
  let ?s1 = "dongle_main ?drv 0 0 ?s0"
  let ?s2 = "upd_dongle (\<lambda>dg. dg\<lparr>dg_usb := usb_status_cb USB_DC_CONFIGURED (dg_usb dg)\<rparr>) ?s1"
  obtain r l d where w: "beacon_work_fn ?drv (dg_radio (sys_dongle ?s2), dg_leds (sys_dongle ?s2), sys_esb ?s2) = (r, l, d)"
    by (rule prod_cases3)
  let ?s3 = "upd_dongle (\<lambda>dg. dg\<lparr>dg_radio := r, dg_leds := l\<rparr>) (?s2\<lparr>sys_esb := d\<rparr>)"
  have t: "\<not> sys_timers ?s0" "beacon_timer (dg_radio (sys_dongle ?s2))"
    "bs_attempts (bcn_stats (dg_radio (sys_dongle ?s2))) = 0" by code_simp+
  have "dongle_reachable list_ring ?mq ?drv ?F ?s0 ?s1"
    by (rule dongle_reachable.step [OF dongle_reachable.here dongle_step.start [OF t(1)]])
  then have "dongle_reachable list_ring ?mq ?drv ?F ?s0 ?s2"
    by (rule dongle_reachable.step [OF _ dongle_step.usb_status])
  then have "dongle_reachable list_ring ?mq ?drv ?F ?s0 ?s3"
    by (rule dongle_reachable.step [OF _ dongle_step.beacon [OF t(2) w]])
  note safe = dongle_always_safe [OF list_ring_law _ this]
  have "bs_attempts (bcn_stats (dg_radio (sys_dongle ?s3))) = 1"
    using beacon_work_state(3) [OF w] t(3) by (simp add: upd_dongle_def)
  moreover have "usb_configured (dg_usb (sys_dongle ?s3))" by (simp add: upd_dongle_def)
  ultimately show ?thesis using safe by (intro exI [of _ ?s3]) (simp only: Let_def list_ring_bytes_simp take_Nil simp_thms)
qed

end
