(* ===== verification/Head_Radio.thy ===== *)
theory Head_Radio
  imports Drivers
begin

text \<open>
  The head unit's radio, \<^verbatim>\<open>firmware/app_head/src/radio.c\<close> and \<^verbatim>\<open>radio.h\<close>: data out on the uplink pipe, and
  from time to time a window in which the radio is a receiver on the downlink pipe and collects beacons.

  \<open>radio_locked\<close> is the mutex \<^verbatim>\<open>radio_lock\<close>. \<^verbatim>\<open>htk_radio_listen\<close> holds it across a sleep, in which interrupts
  and the fusion thread run, so it is modelled in two parts: \<open>listen_begin\<close> up to the sleep and
  \<open>listen_end\<close> after it. The ESB driver and the message queue are the parameters of theory Drivers.
\<close>

subsection \<open>State\<close>

text \<open>Zephyr's error numbers that this code returns or compares with.\<close>

definition ENXIO :: int where [code_defs, simp]: "ENXIO = 6"
definition EAGAIN :: int where [code_defs, simp]: "EAGAIN = 11"
definition ENOMEM :: int where [code_defs, simp]: "ENOMEM = 12"
definition EBUSY :: int where [code_defs, simp]: "EBUSY = 16"
definition EMSGSIZE :: int where [code_defs, simp]: "EMSGSIZE = 122"

record htk_radio_debug =
  listens :: u32
  cfg_fail :: u32
  rx_events :: u32
  beacons_queued :: u32

text \<open>A \<^verbatim>\<open>struct htk_beacon_rx\<close> is the list of its \<^verbatim>\<open>len\<close> bytes.\<close>

type_synonym htk_beacon_rx = bytes

record 'q head_radio =
  radio_locked :: bool
  beacon_q :: 'q
  in_ptx :: bool
  dbg :: htk_radio_debug

definition head_radio_boot :: "'q \<Rightarrow> 'q head_radio" where
  "head_radio_boot q = \<lparr>radio_locked = False, beacon_q = q, in_ptx = False,
     dbg = \<lparr>listens = 0, cfg_fail = 0, rx_events = 0, beacons_queued = 0\<rparr>\<rparr>"

subsection \<open>The radio interrupt\<close>

definition beacon_rx :: "(htk_beacon_rx, 'q) msgq_ops \<Rightarrow> bytes \<Rightarrow> 'q head_radio \<Rightarrow> 'q head_radio" where
  "beacon_rx mq p r =
     (let r = r\<lparr>dbg := (dbg r)\<lparr>rx_events := rx_events (dbg r) + 1\<rparr>\<rparr> in
      if length p < 2 \<or> p ! 0 \<noteq> HTK_PKT_BEACON then r
      else
        (let b = take (min (length p) HTK_ESB_MAX_PAYLOAD) p in
         case msgq_put mq b (beacon_q r) of (ok, q) \<Rightarrow>
           let r = r\<lparr>beacon_q := q\<rparr> in
           if ok then r\<lparr>dbg := (dbg r)\<lparr>beacons_queued := beacons_queued (dbg r) + 1\<rparr>\<rparr> else r))"

fun esb_handler ::
  "(htk_beacon_rx, 'q) msgq_ops \<Rightarrow> 'd driver \<Rightarrow> esb_event \<Rightarrow> 'q head_radio \<times> 'd \<Rightarrow> 'q head_radio \<times> 'd" where
  "esb_handler mq drv TxSuccess (r, d) = (r, d)"
| "esb_handler mq drv TxFailed (r, d) = (r, snd (drv EsbFlushTx d))"
| "esb_handler mq drv (RxReceived pkts) (r, d) = (fold (beacon_rx mq) pkts r, d)"

subsection \<open>Start-up and configuration\<close>

text \<open>
  \<open>fetch n\<close> is what the \<open>n\<close>-th \<^verbatim>\<open>sys_notify_fetch_result\<close> returns and stores. The loop runs for as long as
  it returns an error, and \<open>None\<close> is a loop that never ends.
\<close>

partial_function (option) clock_wait :: "(nat \<Rightarrow> int \<times> int) \<Rightarrow> nat \<Rightarrow> int option" where
  "clock_wait fetch n =
     (case fetch n of (err, res) \<Rightarrow>
        if err = 0 \<and> res \<noteq> 0 then Some res
        else if err \<noteq> 0 then clock_wait fetch (n + 1)
        else Some 0)"

definition head_clocks_start :: "bool \<Rightarrow> int \<Rightarrow> (nat \<Rightarrow> int \<times> int) \<Rightarrow> int option" where
  "head_clocks_start have_mgr request fetch =
     (if \<not> have_mgr then Some (- ENXIO)
      else if request < 0 then Some request
      else clock_wait fetch 0)"

definition esb_configure :: "'d driver \<Rightarrow> bool \<Rightarrow> 'q head_radio \<times> 'd \<Rightarrow> int \<times> 'q head_radio \<times> 'd" where
  "esb_configure drv ptx x = (case x of (r, d) \<Rightarrow>
     case calls_until_error drv
       [EsbInit \<lparr>esb_protocol = ESB_PROTOCOL_ESB_DPL,
          esb_mode_of = (if ptx then ESB_MODE_PTX else ESB_MODE_PRX), esb_bitrate = ESB_BITRATE_2MBPS,
          esb_crc = ESB_CRC_16BIT, esb_selective_auto_ack = True\<rparr>,
        EsbSetBaseAddress0 HTK_ADDR_BASE,
        EsbSetPrefixes [if ptx then HTK_PREFIX_UPLINK else HTK_PREFIX_DOWNLINK],
        EsbSetRfChannel HTK_RF_CHANNEL] d of
       (err, d) \<Rightarrow> if err \<noteq> 0 then (err, r, d) else (0, r\<lparr>in_ptx := ptx\<rparr>, d))"

definition htk_radio_init :: "'d driver \<Rightarrow> int \<Rightarrow> 'q head_radio \<times> 'd \<Rightarrow> int \<times> 'q head_radio \<times> 'd" where
  "htk_radio_init drv clocks x = (if clocks \<noteq> 0 then (clocks, x) else esb_configure drv True x)"

subsection \<open>Sending\<close>

definition htk_radio_send :: "'d driver \<Rightarrow> bytes \<Rightarrow> 'q head_radio \<times> 'd \<Rightarrow> int \<times> 'q head_radio \<times> 'd" where
  "htk_radio_send drv payload x = (case x of (r, d) \<Rightarrow>
     if length payload > 32 then (- EMSGSIZE, r, d)
     else if radio_locked r then (- EBUSY, r, d)
     else if \<not> in_ptx r then (- EAGAIN, r, d)
     else
       (case drv (EsbWritePayload payload) d of (err, d) \<Rightarrow>
          if err = - ENOMEM then
            (case drv EsbFlushTx d of (_, d) \<Rightarrow>
               case drv (EsbWritePayload payload) d of (err, d) \<Rightarrow> (err, r, d))
          else (err, r, d)))"

subsection \<open>The listen window\<close>

definition listen_begin :: "'d driver \<Rightarrow> int \<Rightarrow> 'q head_radio \<times> 'd \<Rightarrow> int \<times> 'q head_radio \<times> 'd" where
  "listen_begin drv window_ms x = (case x of (r, d) \<Rightarrow>
     let r = r\<lparr>radio_locked := True, dbg := (dbg r)\<lparr>listens := listens (dbg r) + 1\<rparr>\<rparr>;
         (_, d) = drv (SleepUs 500) d; (_, d) = drv EsbDisable d;
         (err, r, d) = esb_configure drv False (r, d);
         (err, d) = (if err = 0 then drv EsbStartRx d else (err, d)) in
     if err \<noteq> 0 then (err, r\<lparr>dbg := (dbg r)\<lparr>cfg_fail := cfg_fail (dbg r) + 1\<rparr>\<rparr>, d)
     else (err, r, snd (drv (SleepUs (window_ms * 1000)) d)))"

definition listen_end :: "'d driver \<Rightarrow> int \<Rightarrow> 'q head_radio \<times> 'd \<Rightarrow> 'q head_radio \<times> 'd" where
  "listen_end drv err x = (case x of (r, d) \<Rightarrow>
     let d = (if err = 0 then snd (drv EsbStopRx d) else d); (_, d) = drv EsbDisable d;
         (_, r, d) = esb_configure drv True (r, d) in
     (r\<lparr>radio_locked := False\<rparr>, d))"

definition htk_radio_beacon_get :: "(htk_beacon_rx, 'q) msgq_ops \<Rightarrow> 'q head_radio \<Rightarrow> htk_beacon_rx option \<times> 'q head_radio" where
  "htk_radio_beacon_get mq r = (case msgq_get mq (beacon_q r) of (b, q) \<Rightarrow> (b, r\<lparr>beacon_q := q\<rparr>))"

definition htk_radio_get_debug :: "'q head_radio \<Rightarrow> htk_radio_debug" where
  "htk_radio_get_debug r = dbg r"

text \<open>
  What can happen while \<^verbatim>\<open>htk_radio_listen\<close> sleeps: radio interrupts, and sends by the fusion thread.
  When the receiver could not be set up there is no sleep.
\<close>

datatype window_event = Air esb_event | SendAttempt bytes

fun window_step ::
  "(htk_beacon_rx, 'q) msgq_ops \<Rightarrow> 'd driver \<Rightarrow> window_event \<Rightarrow> 'q head_radio \<times> 'd \<Rightarrow> 'q head_radio \<times> 'd" where
  "window_step mq drv (Air ev) x = esb_handler mq drv ev x"
| "window_step mq drv (SendAttempt p) x = snd (htk_radio_send drv p x)"

definition htk_radio_listen ::
  "(htk_beacon_rx, 'q) msgq_ops \<Rightarrow> 'd driver \<Rightarrow> int \<Rightarrow> window_event list \<Rightarrow> 'q head_radio \<times> 'd \<Rightarrow> 'q head_radio \<times> 'd" where
  "htk_radio_listen mq drv window_ms evs x =
     (case listen_begin drv window_ms x of (err, y) \<Rightarrow>
        listen_end drv err (if err = 0 then fold (window_step mq drv) evs y else y))"

subsection \<open>The calls made of the driver\<close>

definition head_calls :: "bool \<Rightarrow> radio_call list" where
  "head_calls ptx =
     fabric_calls (if ptx then ESB_MODE_PTX else ESB_MODE_PRX) (if ptx then HTK_PREFIX_UPLINK else HTK_PREFIX_DOWNLINK)"

lemma configure_eq:
  "esb_configure drv ptx (r, d) =
     (case calls_until_error drv (head_calls ptx) d of
        (err, d) \<Rightarrow> if err \<noteq> 0 then (err, r, d) else (0, r\<lparr>in_ptx := ptx\<rparr>, d))"
  by (simp only: esb_configure_def head_calls_def fabric_calls_def prod.case)

lemma writes_head_calls [simp]: "writes (head_calls ptx) = []" "writes (take n (head_calls ptx)) = []"
  by (simp_all add: head_calls_def)

lemma configure_tap:
  assumes "esb_configure (tap drv) ptx (r, (d, log)) = (err, r', (d', log'))"
  shows "r' = (if err = 0 then r\<lparr>in_ptx := ptx\<rparr> else r)" and "writes log' = writes log"
    and "err = 0 \<Longrightarrow> log' = log @ head_calls ptx" and "fst (calls_until_error drv (head_calls ptx) d) = err"
proof -
  obtain e d1 log1 where c: "calls_until_error (tap drv) (head_calls ptx) (d, log) = (e, (d1, log1))"
    by (metis surj_pair)
  with assms have e: "err = e" "d' = d1" "log' = log1" "r' = (if err = 0 then r\<lparr>in_ptx := ptx\<rparr> else r)"
    by (auto simp: configure_eq split: if_splits)
  show "r' = (if err = 0 then r\<lparr>in_ptx := ptx\<rparr> else r)" by fact
  show "writes log' = writes log" "err = 0 \<Longrightarrow> log' = log @ head_calls ptx"
    "fst (calls_until_error drv (head_calls ptx) d) = err"
    using calls_tap [OF c] e by auto
qed

lemma send_tap:
  assumes "htk_radio_send (tap drv) p (r, (d, log)) = (err, r', (d', log'))"
  shows "r' = r"
    and "\<exists>n. writes log' = writes log @ replicate n p \<and> (n > 0 \<longrightarrow> length p \<le> 32 \<and> \<not> radio_locked r \<and> in_ptx r)"
    and "err = 0 \<Longrightarrow> length p \<le> 32 \<and> \<not> radio_locked r \<and> in_ptx r"
proof -
  show "r' = r" using assms by (auto simp: htk_radio_send_def case_prod_beta split: if_splits)
  have "writes log' = writes log \<or> (length p \<le> 32 \<and> \<not> radio_locked r \<and> in_ptx r) \<and>
      (writes log' = writes log @ [p] \<or> writes log' = writes log @ [p, p])"
    using assms by (auto simp: htk_radio_send_def case_prod_beta split: if_splits)
  then show "\<exists>n. writes log' = writes log @ replicate n p \<and>
      (n > 0 \<longrightarrow> length p \<le> 32 \<and> \<not> radio_locked r \<and> in_ptx r)"
  proof (elim disjE conjE)
    assume "writes log' = writes log"
    then show ?thesis by (intro exI [of _ 0]) simp
  next
    assume "length p \<le> 32" "\<not> radio_locked r" "in_ptx r" "writes log' = writes log @ [p]"
    then show ?thesis by (intro exI [of _ 1]) simp
  next
    assume "length p \<le> 32" "\<not> radio_locked r" "in_ptx r" "writes log' = writes log @ [p, p]"
    then show ?thesis by (intro exI [of _ 2]) (simp add: numeral_2_eq_2)
  qed
  show "err = 0 \<Longrightarrow> length p \<le> 32 \<and> \<not> radio_locked r \<and> in_ptx r"
    using assms by (auto simp: htk_radio_send_def split: if_splits)
qed

subsection \<open>Collecting beacons\<close>

definition is_beacon :: "bytes \<Rightarrow> bool" where
  "is_beacon p \<longleftrightarrow> 2 \<le> length p \<and> p ! 0 = HTK_PKT_BEACON"

definition heard_beacons :: "bytes list \<Rightarrow> htk_beacon_rx list" where
  "heard_beacons pkts = map (take HTK_ESB_MAX_PAYLOAD) (filter is_beacon pkts)"

lemma heard_beacons_append: "heard_beacons (ps @ qs) = heard_beacons ps @ heard_beacons qs"
  and heard_beacons_Cons:
    "heard_beacons (p # ps) = (if is_beacon p then [take HTK_ESB_MAX_PAYLOAD p] else []) @ heard_beacons ps"
  and heard_beacons_Nil: "heard_beacons [] = []"
  by (simp_all add: heard_beacons_def)

lemma take_take_append: "take n (take n xs @ ys) = take n (xs @ ys)"
  by (simp add: min_def)

lemma beacon_rx_keeps:
  "radio_locked (beacon_rx mq p r) = radio_locked r" "in_ptx (beacon_rx mq p r) = in_ptx r"
  "listens (dbg (beacon_rx mq p r)) = listens (dbg r)" "cfg_fail (dbg (beacon_rx mq p r)) = cfg_fail (dbg r)"
  by (simp_all add: beacon_rx_def Let_def split: prod.split)

lemma fold_beacon_rx_keeps:
  "radio_locked (fold (beacon_rx mq) ps r) = radio_locked r" "in_ptx (fold (beacon_rx mq) ps r) = in_ptx r"
  "listens (dbg (fold (beacon_rx mq) ps r)) = listens (dbg r)"
  "cfg_fail (dbg (fold (beacon_rx mq) ps r)) = cfg_fail (dbg r)"
  by (induction ps arbitrary: r) (simp_all add: beacon_rx_keeps)

lemma beacon_rx_queue:
  assumes "msgq_law mq cont cap"
  shows "cont (beacon_q (beacon_rx mq p r)) =
    take cap (cont (beacon_q r) @ (if is_beacon p then [take HTK_ESB_MAX_PAYLOAD p] else []))"
proof -
  note cap = msgq_cap [OF assms, of "beacon_q r"]
  obtain ok q where put: "msgq_put mq (take 32 p) (beacon_q r) = (ok, q)" by fastforce
  have t: "take (min (length p) 32) p = take 32 p" by (metis min.commute take_take take_all order_refl)
  from msgq_put [OF assms put] have "cont q = take cap (cont (beacon_q r) @ [take 32 p])"
    using cap by (simp add: take_Cons')
  with put t cap show ?thesis
    by (auto simp: beacon_rx_def is_beacon_def Let_def)
qed

lemma fold_beacon_rx_queue:
  assumes "msgq_law mq cont cap"
  shows "cont (beacon_q (fold (beacon_rx mq) ps r)) = take cap (cont (beacon_q r) @ heard_beacons ps)"
proof (induction ps arbitrary: r)
  case Nil
  then show ?case using msgq_cap [OF assms] by (simp add: heard_beacons_def)
next
  case (Cons p ps)
  show ?case
    by (simp only: fold_Cons comp_apply Cons beacon_rx_queue [OF assms] take_take_append heard_beacons_Cons append_assoc)
qed

fun air_pkts :: "window_event \<Rightarrow> bytes list" where
  "air_pkts (Air (RxReceived pkts)) = pkts"
| "air_pkts _ = []"

lemma window_step_locked:
  assumes "msgq_law mq cont cap" and "radio_locked r"
    and "window_step mq (tap drv) ev (r, (d, log)) = (r', (d', log'))"
  shows "radio_locked r'" and "in_ptx r' = in_ptx r" and "listens (dbg r') = listens (dbg r)"
    and "cfg_fail (dbg r') = cfg_fail (dbg r)" and "writes log' = writes log"
    and "cont (beacon_q r') = take cap (cont (beacon_q r) @ heard_beacons (air_pkts ev))"
proof -
  have nil: "take cap (cont q @ heard_beacons []) = cont q" for q
    using msgq_cap [OF assms(1), of q] by (simp add: heard_beacons_def)
  have "radio_locked r' \<and> in_ptx r' = in_ptx r \<and> listens (dbg r') = listens (dbg r) \<and>
    cfg_fail (dbg r') = cfg_fail (dbg r) \<and> writes log' = writes log \<and>
    cont (beacon_q r') = take cap (cont (beacon_q r) @ heard_beacons (air_pkts ev))"
    using assms(2,3) nil
    by (cases "(mq, tap drv, ev, (r, (d, log)))" rule: window_step.cases; cases "(mq, drv, case ev of Air e \<Rightarrow> e, (r, d))" rule: esb_handler.cases)
      (auto simp: htk_radio_send_def fold_beacon_rx_keeps fold_beacon_rx_queue [OF assms(1)] split: if_splits)
  then show "radio_locked r'" "in_ptx r' = in_ptx r" "listens (dbg r') = listens (dbg r)"
    "cfg_fail (dbg r') = cfg_fail (dbg r)" "writes log' = writes log"
    "cont (beacon_q r') = take cap (cont (beacon_q r) @ heard_beacons (air_pkts ev))" by simp_all
qed

lemma window_locked:
  assumes "msgq_law mq cont cap" and "radio_locked r"
    and "fold (window_step mq (tap drv)) evs (r, (d, log)) = (r', (d', log'))"
  shows "radio_locked r' \<and> in_ptx r' = in_ptx r \<and> listens (dbg r') = listens (dbg r) \<and>
    cfg_fail (dbg r') = cfg_fail (dbg r) \<and> writes log' = writes log \<and>
    cont (beacon_q r') = take cap (cont (beacon_q r) @ heard_beacons (concat (map air_pkts evs)))"
  using assms(2,3)
proof (induction evs arbitrary: r d log)
  case Nil
  then show ?case using msgq_cap [OF assms(1)] by (simp add: heard_beacons_def)
next
  case (Cons ev evs)
  obtain r1 d1 log1 where s: "window_step mq (tap drv) ev (r, (d, log)) = (r1, (d1, log1))" by (metis surj_pair)
  note step = window_step_locked [OF assms(1) Cons.prems(1) s]
  have "fold (window_step mq (tap drv)) evs (r1, (d1, log1)) = (r', (d', log'))" using Cons.prems(2) s by simp
  from Cons.IH [OF step(1) this] show ?case
    by (simp only: step take_take_append heard_beacons_append append_assoc list.map concat.simps simp_thms)
qed

subsection \<open>A whole window\<close>

lemma listen_begin_tap:
  assumes "listen_begin (tap drv) w (r, (d, log)) = (err, r', (d', log'))"
  shows "radio_locked r' \<and> beacon_q r' = beacon_q r \<and> listens (dbg r') = listens (dbg r) + 1 \<and>
    cfg_fail (dbg r') = cfg_fail (dbg r) + (if err = 0 then 0 else 1) \<and>
    rx_events (dbg r') = rx_events (dbg r) \<and> (err = 0 \<longrightarrow> \<not> in_ptx r') \<and> writes log' = writes log"
proof -
  let ?r = "r\<lparr>radio_locked := True, dbg := (dbg r)\<lparr>listens := listens (dbg r) + 1\<rparr>\<rparr>"
  obtain e r1 d1 log1 where
    c: "esb_configure (tap drv) False (?r, (snd (drv EsbDisable (snd (drv (SleepUs 500) d))), log @ [SleepUs 500, EsbDisable])) =
      (e, r1, (d1, log1))" by (metis surj_pair)
  note conf = configure_tap [OF c]
  have "writes log1 = writes log" using conf(2) by simp
  then show ?thesis
    using assms c conf(1) by (auto simp: listen_begin_def Let_def split: if_splits prod.splits)
qed

lemma listen_end_tap:
  assumes "listen_end (tap drv) err (r, (d, log)) = (r', (d', log'))"
  shows "\<not> radio_locked r' \<and> beacon_q r' = beacon_q r \<and> dbg r' = dbg r \<and> writes log' = writes log"
    and "(\<And>d. fst (calls_until_error drv (head_calls True) d) = 0) \<Longrightarrow>
      in_ptx r' \<and> (\<exists>log0. log' = log0 @ head_calls True)"
proof -
  let ?d = "if err = 0 then snd (drv EsbStopRx d) else d" and ?log = "if err = 0 then log @ [EsbStopRx] else log"
  obtain e r1 d1 log1 where
    c: "esb_configure (tap drv) True (r, (snd (drv EsbDisable ?d), ?log @ [EsbDisable])) = (e, r1, (d1, log1))"
    by (metis surj_pair)
  note conf = configure_tap [OF c]
  have e: "r' = r1\<lparr>radio_locked := False\<rparr>" "log' = log1" using assms c by (auto simp: listen_end_def Let_def split: if_splits)
  have "writes log1 = writes log" using conf(2) by simp
  with e conf(1) show "\<not> radio_locked r' \<and> beacon_q r' = beacon_q r \<and> dbg r' = dbg r \<and> writes log' = writes log"
    by simp
  show "in_ptx r' \<and> (\<exists>log0. log' = log0 @ head_calls True)"
    if "\<And>d. fst (calls_until_error drv (head_calls True) d) = 0"
    using that conf(1,3,4) e by simp
qed

lemma listen_tap:
  assumes "msgq_law mq cont cap"
    and "htk_radio_listen mq (tap drv) w evs (r, (d, log)) = (r', (d', log'))"
  defines "heard \<equiv> heard_beacons (concat (map air_pkts evs))"
  shows "\<not> radio_locked r' \<and> writes log' = writes log \<and> listens (dbg r') = listens (dbg r) + 1 \<and>
    (cfg_fail (dbg r') = cfg_fail (dbg r) \<and> cont (beacon_q r') = take cap (cont (beacon_q r) @ heard) \<or>
     cfg_fail (dbg r') = cfg_fail (dbg r) + 1 \<and> cont (beacon_q r') = cont (beacon_q r))"
    and "(\<And>d. fst (calls_until_error drv (head_calls True) d) = 0) \<Longrightarrow>
      in_ptx r' \<and> (\<exists>log0. log' = log0 @ head_calls True)"
proof -
  obtain err r1 d1 log1 where b: "listen_begin (tap drv) w (r, (d, log)) = (err, r1, (d1, log1))" by (metis surj_pair)
  obtain r2 d2 log2 where
    f: "(if err = 0 then fold (window_step mq (tap drv)) evs (r1, (d1, log1)) else (r1, (d1, log1))) = (r2, (d2, log2))"
    by (metis surj_pair)
  have e: "listen_end (tap drv) err (r2, (d2, log2)) = (r', (d', log'))"
    using assms(2) b f by (simp add: htk_radio_listen_def)
  note bgn = listen_begin_tap [OF b] and fin = listen_end_tap [OF e]
  show "in_ptx r' \<and> (\<exists>log0. log' = log0 @ head_calls True)"
    if "\<And>d. fst (calls_until_error drv (head_calls True) d) = 0"
    using fin(2) that .
  show "\<not> radio_locked r' \<and> writes log' = writes log \<and> listens (dbg r') = listens (dbg r) + 1 \<and>
    (cfg_fail (dbg r') = cfg_fail (dbg r) \<and> cont (beacon_q r') = take cap (cont (beacon_q r) @ heard) \<or>
     cfg_fail (dbg r') = cfg_fail (dbg r) + 1 \<and> cont (beacon_q r') = cont (beacon_q r))"
  proof (cases "err = 0")
    case True
    with f have "fold (window_step mq (tap drv)) evs (r1, (d1, log1)) = (r2, (d2, log2))" by simp
    from window_locked [OF assms(1) conjunct1 [OF bgn] this] bgn fin(1) True
    show ?thesis by (simp add: heard_def)
  next
    case False
    with f bgn fin(1) show ?thesis by simp
  qed
qed

subsection \<open>Properties\<close>

text \<open>C31. A listen window: whatever the driver answers and whatever the other threads do meanwhile, the lock is
  free afterwards and no packet has been written in between; either the window was open, and the queue
  now holds the old beacons followed by exactly the beacons that were on the air, up to its eight
  places, or it could not be opened, one configuration failure is counted and the queue is as before.
  If the driver accepts the uplink configuration, the radio ends up configured as a transmitter on it.\<close>

theorem listen_collects_beacons:
  assumes "msgq_law mq cont 8"
    and "htk_radio_listen mq (tap drv) w evs (r, (d, log)) = (r', (d', log'))"
  shows "\<not> radio_locked r' \<and> writes log' = writes log \<and> listens (dbg r') = listens (dbg r) + 1 \<and>
    (cfg_fail (dbg r') = cfg_fail (dbg r) \<and>
       cont (beacon_q r') = take 8 (cont (beacon_q r) @ heard_beacons (concat (map air_pkts evs))) \<or>
     cfg_fail (dbg r') = cfg_fail (dbg r) + 1 \<and> cont (beacon_q r') = cont (beacon_q r)) \<and>
    ((\<forall>d. fst (calls_until_error drv (head_calls True) d) = 0) \<longrightarrow>
      in_ptx r' \<and> (\<exists>log0. log' = log0 @ head_calls True))"
  using listen_tap [OF assms] by blast

theorem listen_collects_beacons_witness:
  "let (r, (d, log)) = htk_radio_listen (list_msgq 8) (tap (log_driver (\<lambda>c. 0))) 110
       [Air (RxReceived [[0x20, 7], [0x10, 1, 2]]), SendAttempt [0x10], Air (RxReceived [[0x20, 8, 0x15, 1, 0]])]
       (head_radio_boot [], ([], []))
   in beacon_q r = [[0x20, 7], [0x20, 8, 0x15, 1, 0]] \<and> writes log = [] \<and> in_ptx r"
proof -
  let ?drv = "log_driver (\<lambda>c. 0)"
  let ?evs = "[Air (RxReceived [[0x20, 7], [0x10, 1, 2]]), SendAttempt [0x10], Air (RxReceived [[0x20, 8, 0x15, 1, 0]])]"
  obtain r' d' log' where run: "htk_radio_listen (list_msgq 8) (tap ?drv) 110 ?evs (head_radio_boot [], ([], [])) =
      (r', (d', log'))" by (metis surj_pair)
  have "beacon_q (fst (htk_radio_listen (list_msgq 8) (tap ?drv) 110 ?evs (head_radio_boot [], ([], [])))) =
    [[0x20, 7], [0x20, 8, 0x15, 1, 0]]" by code_simp
  moreover have "fst (calls_until_error ?drv (head_calls True) d) = 0" for d by (simp add: calls_log)
  moreover have "writes log' = writes []" using listen_collects_beacons [OF list_msgq_law run] by blast
  ultimately show ?thesis
    using listen_collects_beacons [OF list_msgq_law run] run by simp
qed

text \<open>A listen window that fails twice leaves the transmitter marked as usable: if the driver can be
  initialised neither as a receiver nor, afterwards, as a transmitter, the flag \<^verbatim>\<open>in_ptx\<close> keeps its old value,
  and the next packet is written to a radio that has been disabled and not configured since.\<close>

theorem stale_ptx_after_double_failure:
  "let (r, d) = htk_radio_listen (list_msgq 8) (log_driver (\<lambda>c. case c of EsbInit _ \<Rightarrow> - 5 | _ \<Rightarrow> 0)) 110 []
       ((head_radio_boot [])\<lparr>in_ptx := True\<rparr>, []);
       (err, r, d) = htk_radio_send (log_driver (\<lambda>c. 0)) [0x10] (r, d) in
   err = 0 \<and> last d = EsbWritePayload [0x10] \<and> list_all (\<lambda>c. c \<noteq> EsbSetRfChannel 77) d \<and>
   EsbDisable \<in> set d"
  by code_simp

end
