(* ===== verification/Head_Leds.thy ===== *)
theory Head_Leds
  imports Prelude
begin

text \<open>
  The LED language of the head unit, \<^verbatim>\<open>firmware/app_head/src/leds.c\<close>: a 50 ms timer tick draws the pattern
  from a few variables that the rest of the firmware sets. \<open>led_rgb\<close> is what the tick last wrote to the
  three pins.
\<close>

subsection \<open>State\<close>

definition TICK_MS :: nat where [code_defs, simp]: "TICK_MS = 50"
definition CYCLE_TICKS :: u32 where [code_defs, simp]: "CYCLE_TICKS = 40"
definition IDENTIFY_TICKS :: int where [code_defs, simp]: "IDENTIFY_TICKS = 60"
definition TAP_TICKS :: int where [code_defs, simp]: "TAP_TICKS = 4"

datatype leds_link = LEDS_LINK_STREAMING | LEDS_LINK_SEARCHING

record head_leds =
  link_state :: leds_link
  low_batt :: bool
  identify_ticks :: int
  at_rest :: bool
  led_tick_count :: u32
  led_rgb :: "bool \<times> bool \<times> bool"

definition head_leds_boot :: head_leds where
  "head_leds_boot = \<lparr>link_state = LEDS_LINK_SEARCHING, low_batt = False, identify_ticks = 0, at_rest = False,
     led_tick_count = 0, led_rgb = (False, False, False)\<rparr>"

subsection \<open>Operations\<close>

definition set_rgb :: "bool \<Rightarrow> bool \<Rightarrow> bool \<Rightarrow> head_leds \<Rightarrow> head_leds" where
  "set_rgb r g b l = l\<lparr>led_rgb := (r, g, b)\<rparr>"

definition led_tick :: "head_leds \<Rightarrow> head_leds" where
  "led_tick l =
     (let t = led_tick_count l mod CYCLE_TICKS;
          l = l\<lparr>led_tick_count := led_tick_count l + 1\<rparr> in
      if identify_ticks l > 0 then
        set_rgb True True True (l\<lparr>identify_ticks := identify_ticks l - 1\<rparr>)
      else if low_batt l then set_rgb (t < 2) False False l
      else if link_state l = LEDS_LINK_STREAMING then set_rgb False (t < 1) (t < 1 \<and> at_rest l) l
      else (let on = (t < 5) in set_rgb on on False l))"

definition leds_set_link :: "leds_link \<Rightarrow> head_leds \<Rightarrow> head_leds" where
  "leds_set_link link l = l\<lparr>link_state := link\<rparr>"

definition leds_set_low_batt :: "bool \<Rightarrow> head_leds \<Rightarrow> head_leds" where
  "leds_set_low_batt low l = l\<lparr>low_batt := low\<rparr>"

definition leds_set_rest :: "bool \<Rightarrow> head_leds \<Rightarrow> head_leds" where
  "leds_set_rest rest l = l\<lparr>at_rest := rest\<rparr>"

definition leds_identify :: "head_leds \<Rightarrow> head_leds" where
  "leds_identify l = l\<lparr>identify_ticks := IDENTIFY_TICKS\<rparr>"

definition leds_tap :: "head_leds \<Rightarrow> head_leds" where
  "leds_tap l = (if identify_ticks l < TAP_TICKS then l\<lparr>identify_ticks := TAP_TICKS\<rparr> else l)"

definition head_ENODEV :: int where [code_defs]: "head_ENODEV = 19"

text \<open>\<open>leds_init\<close>: for each pin, whether its port is ready and what configuring it returns; with the result, whether the
  timer of the ticks has been started.\<close>

fun head_leds_init :: "(bool \<times> int) list \<Rightarrow> int \<times> bool" where
  "head_leds_init [] = (0, True)"
| "head_leds_init ((ready, err) # pins) =
     (if \<not> ready then (- head_ENODEV, False) else if err \<noteq> 0 then (err, False) else head_leds_init pins)"

lemma leds_timer_iff: "head_leds_init pins = (r, started) \<Longrightarrow>
    started = (r = 0) \<and> started = (\<forall>(ready, err) \<in> set pins. ready \<and> err = 0)"
  by (induction pins rule: head_leds_init.induct) (auto simp: head_ENODEV_def split: if_splits)

subsection \<open>Histories\<close>

datatype led_event =
    LedTick
  | SetLink leds_link
  | SetLowBatt bool
  | SetRest bool
  | IdentifyEv
  | TapEv

fun led_step :: "led_event \<Rightarrow> head_leds \<Rightarrow> head_leds" where
  "led_step LedTick = led_tick"
| "led_step (SetLink k) = leds_set_link k"
| "led_step (SetLowBatt b) = leds_set_low_batt b"
| "led_step (SetRest b) = leds_set_rest b"
| "led_step IdentifyEv = leds_identify"
| "led_step TapEv = leds_tap"

fun led_run :: "led_event list \<Rightarrow> head_leds \<Rightarrow> (bool \<times> bool \<times> bool) list" where
  "led_run [] l = []"
| "led_run (ev # evs) l =
     (let l' = led_step ev l in (if ev = LedTick then [led_rgb l'] else []) @ led_run evs l')"

definition ticks_in :: "led_event list \<Rightarrow> nat" where
  "ticks_in evs = length (filter (\<lambda>ev. ev = LedTick) evs)"

definition led_white :: "bool \<times> bool \<times> bool" where
  "led_white = (True, True, True)"

lemmas led_step_defs = led_tick_def set_rgb_def Let_def leds_set_link_def leds_set_low_batt_def
  leds_set_rest_def leds_identify_def leds_tap_def led_white_def

lemma ticks_in_simps [simp]:
  "ticks_in [] = 0" "ticks_in (ev # evs) = (if ev = LedTick then Suc (ticks_in evs) else ticks_in evs)"
  by (simp_all add: ticks_in_def)

lemma led_run_white:
  assumes "int n \<le> identify_ticks l" "n \<le> 60"
  shows "take n (led_run evs l) = replicate (min n (ticks_in evs)) led_white"
  using assms
proof (induction evs arbitrary: n l)
  case (Cons ev evs)
  show ?case
  proof (cases "ev = LedTick")
    case True
    show ?thesis
    proof (cases n)
      case (Suc m)
      with Cons.prems Cons.IH [of m "led_tick l"] True show ?thesis
        by (simp add: led_step_defs)
    qed simp
  next
    case False
    then have "int n \<le> identify_ticks (led_step ev l)"
      using Cons.prems by (cases ev) (auto simp: led_step_defs)
    with Cons.IH [of n "led_step ev l"] Cons.prems False show ?thesis by simp
  qed
qed simp

lemma led_run_pattern:
  assumes "IdentifyEv \<notin> set evs" "TapEv \<notin> set evs" "identify_ticks l \<le> int n"
  shows "led_white \<notin> set (drop n (led_run evs l))"
  using assms
proof (induction evs arbitrary: n l)
  case (Cons ev evs)
  show ?case
  proof (cases "ev = LedTick")
    case True
    have IH: "led_white \<notin> set (drop m (led_run evs (led_tick l)))" if "identify_ticks (led_tick l) \<le> int m" for m
      using Cons that by simp
    show ?thesis
    proof (cases n)
      case 0
      with Cons.prems have "identify_ticks l \<le> 0" by simp
      with IH [of 0] 0 True show ?thesis by (auto simp: led_step_defs split: if_splits)
    next
      case (Suc m)
      with Cons.prems IH [of m] True show ?thesis by (auto simp: led_step_defs split: if_splits)
    qed
  next
    case False
    then have "identify_ticks (led_step ev l) = identify_ticks l"
      using Cons.prems by (cases ev) (auto simp: led_step_defs)
    with Cons False show ?thesis by simp
  qed
qed simp

subsection \<open>Properties\<close>

text \<open>C38. IDENTIFY is visible: whatever else happens to the head (taps, link and battery changes, another
  IDENTIFY), the 60 ticks (3 s) after it all show white, a tap never cuts it short; and without a further IDENTIFY
  or tap no later tick is white, because no other pattern lights all three colours.\<close>

theorem identify_shows_white:
  "take 60 (led_run evs (leds_identify l)) = replicate (min 60 (ticks_in evs)) led_white \<and>
   (IdentifyEv \<notin> set evs \<and> TapEv \<notin> set evs \<longrightarrow> led_white \<notin> set (drop 60 (led_run evs (leds_identify l))))"
proof (intro conjI impI)
  have t: "identify_ticks (leds_identify l) = 60" by (simp add: leds_identify_def)
  show "take 60 (led_run evs (leds_identify l)) = replicate (min 60 (ticks_in evs)) led_white"
    by (rule led_run_white) (simp_all add: t)
  assume "IdentifyEv \<notin> set evs \<and> TapEv \<notin> set evs"
  then show "led_white \<notin> set (drop 60 (led_run evs (leds_identify l)))"
    by (intro led_run_pattern) (simp_all add: t)
qed

lemma identify_shows_white_witness:
  "led_white \<notin> set (drop 60 (led_run (replicate 61 LedTick) (leds_identify head_leds_boot)))"
  by (rule identify_shows_white [THEN conjunct2, rule_format]) simp

end
