(* ===== verification/Tapdet.thy ===== *)
theory Tapdet
  imports Floats
begin

text \<open>
  The double-tap detector of the head unit, \<^verbatim>\<open>firmware/common/imu/htk_tapdet.c\<close> and
  \<^verbatim>\<open>htk_tapdet.h\<close>: an exponential average of the acceleration's magnitude, two thresholds on the
  deviation from it, and a four-state machine over the two resulting bits.
\<close>

subsection \<open>State\<close>

record htk_tapdet_cfg =
  spike_ths :: f32
  rearm_ths :: f32
  baseline_tau_s :: f32
  shock_max_ms :: u16
  gap_min_ms :: u16
  gap_max_ms :: u16
  refractory_ms :: u16

text \<open>18.0, 5.0 and 0.04 as bit patterns.\<close>

definition HTK_TAPDET_CFG_DEFAULT :: htk_tapdet_cfg where
  "HTK_TAPDET_CFG_DEFAULT = \<lparr>spike_ths = 0x41900000, rearm_ths = 0x40A00000, baseline_tau_s = 0x3D23D70A,
     shock_max_ms = 60, gap_min_ms = 70, gap_max_ms = 500, refractory_ms = 1000\<rparr>"

definition ST_IDLE :: u8 where [code_defs, simp]: "ST_IDLE = 0"
definition ST_SHOCK1 :: u8 where [code_defs, simp]: "ST_SHOCK1 = 1"
definition ST_GAP :: u8 where [code_defs, simp]: "ST_GAP = 2"
definition ST_REFRACTORY :: u8 where [code_defs, simp]: "ST_REFRACTORY = 3"

record htk_tapdet =
  td_cfg :: htk_tapdet_cfg
  td_baseline :: f32
  td_dt_nom :: f32
  td_state :: u8
  td_t_mark :: u32
  td_t_last :: u32
  td_have_t :: bool
  td_primed :: bool
  td_warmup :: u32

subsection \<open>Operations\<close>

text \<open>9.81, 1.0 and 2.0 as bit patterns; \<open>None\<close> is the null pointer.\<close>

definition htk_tapdet_init :: "float_ops \<Rightarrow> f32 \<Rightarrow> htk_tapdet_cfg option \<Rightarrow> htk_tapdet" where
  "htk_tapdet_init F odr_hz cfg =
     (let c = (case cfg of Some c \<Rightarrow> c | None \<Rightarrow> HTK_TAPDET_CFG_DEFAULT) in
      \<lparr>td_cfg = c, td_baseline = 0x411CF5C3, td_dt_nom = f_div F 0x3F800000 odr_hz, td_state = ST_IDLE,
       td_t_mark = 0, td_t_last = 0, td_have_t = False, td_primed = False,
       td_warmup = word_of_int (f_trunc (f_mul F (f_mul F 0x40000000 (baseline_tau_s c)) odr_hz)) + 1\<rparr>)"

definition ms_since :: "u32 \<Rightarrow> u32 \<Rightarrow> u32" where
  "ms_since now_us then_us = (now_us - then_us) div 1000"

text \<open>The state machine: the switch of \<^verbatim>\<open>htk_tapdet_feed\<close>.\<close>

definition tap_switch :: "u32 \<Rightarrow> bool \<Rightarrow> bool \<Rightarrow> htk_tapdet \<Rightarrow> bool \<times> htk_tapdet" where
  "tap_switch t_us spike quiet d =
     (let c = td_cfg d; gap = ms_since t_us (td_t_mark d) in
      if td_state d = ST_IDLE then
        (if spike then (False, d\<lparr>td_state := ST_SHOCK1, td_t_mark := t_us\<rparr>) else (False, d))
      else if td_state d = ST_SHOCK1 then
        (if quiet then (False, d\<lparr>td_state := ST_GAP, td_t_mark := t_us\<rparr>)
         else if gap > ucast (shock_max_ms c) then (False, d\<lparr>td_state := ST_IDLE\<rparr>)
         else (False, d))
      else if td_state d = ST_GAP then
        (if spike then
           (if gap < ucast (gap_min_ms c) then (False, d\<lparr>td_state := ST_SHOCK1, td_t_mark := t_us\<rparr>)
            else if gap \<le> ucast (gap_max_ms c) then
              (True, d\<lparr>td_state := ST_REFRACTORY, td_t_mark := t_us\<rparr>)
            else (False, d\<lparr>td_state := ST_SHOCK1, td_t_mark := t_us\<rparr>))
         else if gap > ucast (gap_max_ms c) then (False, d\<lparr>td_state := ST_IDLE\<rparr>)
         else (False, d))
      else if td_state d = ST_REFRACTORY then
        (if gap > ucast (refractory_ms c) then (False, d\<lparr>td_state := ST_IDLE\<rparr>) else (False, d))
      else (False, d\<lparr>td_state := ST_IDLE\<rparr>))"

definition acc_mag :: "float_ops \<Rightarrow> f32 \<times> f32 \<times> f32 \<Rightarrow> f32" where
  "acc_mag F acc = (case acc of (x, y, z) \<Rightarrow>
     f_sqrt F (f_add F (f_add F (f_mul F x x) (f_mul F y y)) (f_mul F z z)))"

definition update_baseline :: "float_ops \<Rightarrow> f32 \<Rightarrow> htk_tapdet \<Rightarrow> htk_tapdet" where
  "update_baseline F mag d =
     (let alpha = f_div F (td_dt_nom d) (f_add F (baseline_tau_s (td_cfg d)) (td_dt_nom d)) in
      d\<lparr>td_baseline := f_add F (td_baseline d) (f_mul F alpha (f_sub F mag (td_baseline d)))\<rparr>)"

definition htk_tapdet_feed ::
  "float_ops \<Rightarrow> u32 \<Rightarrow> f32 \<times> f32 \<times> f32 \<Rightarrow> htk_tapdet \<Rightarrow> bool \<times> htk_tapdet" where
  "htk_tapdet_feed F t_us acc d =
     (let mag = acc_mag F acc;
          d = update_baseline F mag d;
          d = d\<lparr>td_t_last := t_us, td_have_t := True\<rparr> in
      if \<not> td_primed d \<and> td_warmup d > 0 then (False, d\<lparr>td_warmup := td_warmup d - 1\<rparr>)
      else
        (let d = d\<lparr>td_primed := True\<rparr>;
             dev = f_abs (f_sub F mag (td_baseline d));
             spike = f_less (spike_ths (td_cfg d)) dev;
             quiet = f_less dev (rearm_ths (td_cfg d)) in
         tap_switch t_us spike quiet d))"

subsection \<open>Runs\<close>

text \<open>What the detector made of a sample; during the warm-up there is neither a spike nor quiet.\<close>

record tap_obs =
  ob_t :: u32
  ob_spike :: bool
  ob_quiet :: bool
  ob_event :: bool

definition warming :: "htk_tapdet \<Rightarrow> bool" where
  "warming d \<longleftrightarrow> \<not> td_primed d \<and> td_warmup d > 0"

definition tap_dev :: "float_ops \<Rightarrow> f32 \<times> f32 \<times> f32 \<Rightarrow> htk_tapdet \<Rightarrow> f32" where
  "tap_dev F acc d = f_abs (f_sub F (acc_mag F acc) (td_baseline (update_baseline F (acc_mag F acc) d)))"

definition tap_obs_of :: "float_ops \<Rightarrow> u32 \<Rightarrow> f32 \<times> f32 \<times> f32 \<Rightarrow> htk_tapdet \<Rightarrow> tap_obs" where
  "tap_obs_of F t acc d =
     \<lparr>ob_t = t,
      ob_spike = (\<not> warming d \<and> f_less (spike_ths (td_cfg d)) (tap_dev F acc d)),
      ob_quiet = (\<not> warming d \<and> f_less (tap_dev F acc d) (rearm_ths (td_cfg d))),
      ob_event = fst (htk_tapdet_feed F t acc d)\<rparr>"

fun tap_run :: "float_ops \<Rightarrow> (u32 \<times> f32 \<times> f32 \<times> f32) list \<Rightarrow> htk_tapdet \<Rightarrow> tap_obs list \<times> htk_tapdet" where
  "tap_run F [] d = ([], d)"
| "tap_run F ((t, acc) # smps) d =
     (let (obs, d') = tap_run F smps (snd (htk_tapdet_feed F t acc d)) in (tap_obs_of F t acc d # obs, d'))"

lemma feed_switch:
  assumes "\<not> warming d"
  shows "\<exists>b. htk_tapdet_feed F t acc d =
    tap_switch t (ob_spike (tap_obs_of F t acc d)) (ob_quiet (tap_obs_of F t acc d))
      (d\<lparr>td_baseline := b, td_t_last := t, td_have_t := True, td_primed := True\<rparr>)"
proof -
  obtain b where b: "update_baseline F (acc_mag F acc) d = d\<lparr>td_baseline := b\<rparr>"
    by (auto simp: update_baseline_def Let_def)
  have "htk_tapdet_feed F t acc d =
      tap_switch t (ob_spike (tap_obs_of F t acc d)) (ob_quiet (tap_obs_of F t acc d))
        (d\<lparr>td_baseline := b, td_t_last := t, td_have_t := True, td_primed := True\<rparr>)"
    using assms by (auto simp: htk_tapdet_feed_def tap_obs_of_def tap_dev_def warming_def Let_def b)
  then show ?thesis by blast
qed

lemma feed_warming:
  assumes "warming d"
  shows "\<not> fst (htk_tapdet_feed F t acc d)"
    and "td_state (snd (htk_tapdet_feed F t acc d)) = td_state d"
    and "td_t_mark (snd (htk_tapdet_feed F t acc d)) = td_t_mark d"
    and "td_cfg (snd (htk_tapdet_feed F t acc d)) = td_cfg d"
  using assms by (auto simp: htk_tapdet_feed_def update_baseline_def warming_def Let_def)

lemma feed_cfg [simp]: "td_cfg (snd (htk_tapdet_feed F t acc d)) = td_cfg d"
proof (cases "warming d")
  case False
  then show ?thesis using feed_switch [OF False, of F t acc] by (auto simp: tap_switch_def Let_def)
qed (rule feed_warming)

text \<open>
  A double tap: a spike, later a quiet sample, from then on no spike, and now a spike between
  \<open>gap_min_ms\<close> and \<open>gap_max_ms\<close> after the quiet sample.
\<close>

definition double_tap :: "htk_tapdet_cfg \<Rightarrow> tap_obs list \<Rightarrow> tap_obs \<Rightarrow> bool" where
  "double_tap c hist now \<longleftrightarrow>
     (\<exists>pre tap1 mid calm rest. hist = pre @ tap1 # mid @ calm # rest \<and>
        ob_spike tap1 \<and> ob_quiet calm \<and> (\<forall>x \<in> set rest. \<not> ob_spike x) \<and> ob_spike now \<and>
        ucast (gap_min_ms c) \<le> ms_since (ob_t now) (ob_t calm) \<and>
        ms_since (ob_t now) (ob_t calm) \<le> ucast (gap_max_ms c))"

definition tap_hist :: "tap_obs list \<Rightarrow> htk_tapdet \<Rightarrow> bool" where
  "tap_hist hist d \<longleftrightarrow>
     td_state d \<in> {ST_IDLE, ST_SHOCK1, ST_GAP, ST_REFRACTORY} \<and>
     (td_state d = ST_SHOCK1 \<longrightarrow> (\<exists>tap1 \<in> set hist. ob_spike tap1)) \<and>
     (td_state d = ST_GAP \<longrightarrow> (\<exists>pre tap1 mid calm rest. hist = pre @ tap1 # mid @ calm # rest \<and>
        ob_spike tap1 \<and> ob_quiet calm \<and> (\<forall>x \<in> set rest. \<not> ob_spike x) \<and> td_t_mark d = ob_t calm))"

lemma gap_extends:
  assumes "\<exists>pre tap1 mid calm rest. hist = pre @ tap1 # mid @ calm # rest \<and>
      ob_spike tap1 \<and> ob_quiet calm \<and> (\<forall>x \<in> set rest. \<not> ob_spike x) \<and> m = ob_t calm"
    and "\<not> ob_spike ob"
  shows "\<exists>pre tap1 mid calm rest. hist @ [ob] = pre @ tap1 # mid @ calm # rest \<and>
      ob_spike tap1 \<and> ob_quiet calm \<and> (\<forall>x \<in> set rest. \<not> ob_spike x) \<and> m = ob_t calm"
proof -
  from assms(1) obtain pre tap1 mid calm rest where "hist = pre @ tap1 # mid @ calm # rest"
    "ob_spike tap1" "ob_quiet calm" "\<forall>x \<in> set rest. \<not> ob_spike x" "m = ob_t calm" by blast
  with assms(2) show ?thesis
    by (intro exI [of _ pre] exI [of _ tap1] exI [of _ mid] exI [of _ calm] exI [of _ "rest @ [ob]"]) auto
qed

lemma shock_becomes_gap:
  assumes "\<exists>tap1 \<in> set hist. ob_spike tap1" and "ob_quiet ob"
  shows "\<exists>pre tap1 mid calm rest. hist @ [ob] = pre @ tap1 # mid @ calm # rest \<and>
      ob_spike tap1 \<and> ob_quiet calm \<and> (\<forall>x \<in> set rest. \<not> ob_spike x) \<and> ob_t ob = ob_t calm"
proof -
  from assms(1) obtain pre tap1 mid where "hist = pre @ tap1 # mid" "ob_spike tap1" by (metis split_list)
  with assms(2) show ?thesis
    by (intro exI [of _ pre] exI [of _ tap1] exI [of _ mid] exI [of _ ob] exI [of _ "[]"]) simp
qed

lemma switch_hist:
  assumes h: "tap_hist hist d"
  shows "tap_hist (hist @ [ob]) (snd (tap_switch (ob_t ob) (ob_spike ob) (ob_quiet ob) d))"
    and "fst (tap_switch (ob_t ob) (ob_spike ob) (ob_quiet ob) d) \<Longrightarrow> double_tap (td_cfg d) hist ob"
proof -
  have st: "td_state d = 0 \<or> td_state d = 1 \<or> td_state d = 2 \<or> td_state d = 3"
    and shock: "td_state d = 1 \<Longrightarrow> \<exists>tap1 \<in> set hist. ob_spike tap1"
    and gap: "td_state d = 2 \<Longrightarrow> \<exists>pre tap1 mid calm rest. hist = pre @ tap1 # mid @ calm # rest \<and>
        ob_spike tap1 \<and> ob_quiet calm \<and> (\<forall>x \<in> set rest. \<not> ob_spike x) \<and> td_t_mark d = ob_t calm"
    using h by (simp_all add: tap_hist_def)
  show "tap_hist (hist @ [ob]) (snd (tap_switch (ob_t ob) (ob_spike ob) (ob_quiet ob) d))"
    using st
  proof (elim disjE)
    assume 1: "td_state d = 1"
    then show ?thesis using shock [OF 1] shock_becomes_gap [OF shock [OF 1], of ob]
      by (auto simp: tap_hist_def tap_switch_def Let_def)
  next
    assume 2: "td_state d = 2"
    then show ?thesis using gap_extends [OF gap [OF 2], of ob]
      by (auto simp: tap_hist_def tap_switch_def Let_def)
  qed (auto simp: tap_hist_def tap_switch_def Let_def)
  show "double_tap (td_cfg d) hist ob" if ev: "fst (tap_switch (ob_t ob) (ob_spike ob) (ob_quiet ob) d)"
  proof -
    have 2: "td_state d = 2" and now: "ob_spike ob"
      "\<not> ms_since (ob_t ob) (td_t_mark d) < ucast (gap_min_ms (td_cfg d))"
      "ms_since (ob_t ob) (td_t_mark d) \<le> ucast (gap_max_ms (td_cfg d))"
      using ev by (auto simp: tap_switch_def Let_def split: if_splits)
    from gap [OF 2] now show ?thesis unfolding double_tap_def by (metis not_le)
  qed
qed

lemma tap_hist_fields:
  "td_state d' = td_state d \<Longrightarrow> td_t_mark d' = td_t_mark d \<Longrightarrow> tap_hist hist d' = tap_hist hist d"
  by (simp add: tap_hist_def)

lemma tap_hist_still: "tap_hist hist d \<Longrightarrow> \<not> ob_spike ob \<Longrightarrow> tap_hist (hist @ [ob]) d"
  unfolding tap_hist_def using gap_extends [of hist "td_t_mark d" ob] by auto

lemma feed_hist:
  fixes F t acc
  assumes h: "tap_hist hist d"
  defines "ob \<equiv> tap_obs_of F t acc d"
  shows "tap_hist (hist @ [ob]) (snd (htk_tapdet_feed F t acc d))"
    and "ob_event ob \<Longrightarrow> double_tap (td_cfg d) hist ob"
proof -
  have ob: "ob_t ob = t" "ob_event ob = fst (htk_tapdet_feed F t acc d)"
    by (simp_all add: ob_def tap_obs_of_def)
  have "tap_hist (hist @ [ob]) (snd (htk_tapdet_feed F t acc d)) \<and>
    (ob_event ob \<longrightarrow> double_tap (td_cfg d) hist ob)"
  proof (cases "warming d")
    case True
    have "\<not> ob_spike ob" using True by (simp add: ob_def tap_obs_of_def)
    then show ?thesis
      using feed_warming [OF True, of F t acc] tap_hist_still [OF h] ob(2)
        tap_hist_fields [of "snd (htk_tapdet_feed F t acc d)" d] by simp
  next
    case False
    from feed_switch [OF False, of F t acc] obtain b where
      f: "htk_tapdet_feed F t acc d = tap_switch (ob_t ob) (ob_spike ob) (ob_quiet ob)
        (d\<lparr>td_baseline := b, td_t_last := t, td_have_t := True, td_primed := True\<rparr>)"
      by (auto simp: ob(1) ob_def [symmetric])
    have "tap_hist hist (d\<lparr>td_baseline := b, td_t_last := t, td_have_t := True, td_primed := True\<rparr>)"
      using h by (simp add: tap_hist_def)
    from switch_hist [OF this, of ob] show ?thesis by (simp add: f ob(2))
  qed
  then show "tap_hist (hist @ [ob]) (snd (htk_tapdet_feed F t acc d))"
    and "ob_event ob \<Longrightarrow> double_tap (td_cfg d) hist ob" by simp_all
qed

lemma run_hist:
  assumes "tap_hist hist d" and "tap_run F smps d = (obs, d')"
  shows "tap_hist (hist @ obs) d' \<and> td_cfg d' = td_cfg d \<and>
    (\<forall>before now after. obs = before @ now # after \<longrightarrow> ob_event now \<longrightarrow>
       double_tap (td_cfg d) (hist @ before) now)"
  using assms
proof (induction smps arbitrary: hist d obs)
  case (Cons smp smps)
  obtain t acc where smp: "smp = (t, acc)" by (rule prod.exhaust)
  let ?d1 = "snd (htk_tapdet_feed F t acc d)" and ?ob = "tap_obs_of F t acc d"
  obtain obs1 where obs1: "tap_run F smps ?d1 = (obs1, d')" "obs = ?ob # obs1"
    using Cons.prems(2) smp by (auto split: prod.splits)
  note step = feed_hist [OF Cons.prems(1), of F t acc]
  have IH: "tap_hist ((hist @ [?ob]) @ obs1) d' \<and> td_cfg d' = td_cfg ?d1 \<and>
    (\<forall>before now after. obs1 = before @ now # after \<longrightarrow> ob_event now \<longrightarrow>
       double_tap (td_cfg ?d1) ((hist @ [?ob]) @ before) now)"
    by (rule Cons.IH [OF step(1) obs1(1)])
  show ?case
  proof (intro conjI allI impI)
    show "tap_hist (hist @ obs) d'" "td_cfg d' = td_cfg d" using IH obs1(2) by simp_all
    fix before now after
    assume split: "obs = before @ now # after" and ev: "ob_event now"
    show "double_tap (td_cfg d) (hist @ before) now"
    proof (cases before)
      case Nil
      with split obs1(2) ev step(2) show ?thesis by simp
    next
      case (Cons x xs)
      with split obs1(2) ev IH show ?thesis by auto
    qed
  qed
qed simp

text \<open>Conversely: the phases of a double tap, for a detector past its warm-up.\<close>

lemma tap_run_append:
  "tap_run F (xs @ ys) d =
    (let (o1, d1) = tap_run F xs d; (o2, d2) = tap_run F ys d1 in (o1 @ o2, d2))"
proof (induction xs arbitrary: d)
  case (Cons x xs)
  then show ?case by (cases x) (simp add: Let_def split: prod.splits)
qed simp

lemma length_tap_run: "tap_run F smps d = (obs, d') \<Longrightarrow> length obs = length smps"
proof (induction smps arbitrary: d obs)
  case (Cons x xs)
  then show ?case by (cases x) (auto split: prod.splits)
qed simp

lemma feed_primed:
  assumes "td_primed d"
  obtains b where "htk_tapdet_feed F t acc d =
    tap_switch t (ob_spike (tap_obs_of F t acc d)) (ob_quiet (tap_obs_of F t acc d))
      (d\<lparr>td_baseline := b, td_t_last := t, td_have_t := True, td_primed := True\<rparr>)"
  using feed_switch [of d F t acc] assms by (auto simp: warming_def)

lemma ob_t_obs [simp]: "ob_t (tap_obs_of F t acc d) = t"
  by (simp add: tap_obs_of_def)

lemma ob_event_obs: "ob_event (tap_obs_of F t acc d) = fst (htk_tapdet_feed F t acc d)"
  by (simp add: tap_obs_of_def)

text \<open>A state that every sample of a run leaves as it is, without an event.\<close>

lemma run_stays:
  assumes "td_primed d" and "tap_run F smps d = (obs, d')"
    and stay: "\<And>d1 ob. ob \<in> set obs \<Longrightarrow> td_state d1 = td_state d \<Longrightarrow> td_t_mark d1 = td_t_mark d \<Longrightarrow>
      td_cfg d1 = td_cfg d \<Longrightarrow> tap_switch (ob_t ob) (ob_spike ob) (ob_quiet ob) d1 = (False, d1)"
  shows "td_primed d' \<and> td_state d' = td_state d \<and> td_t_mark d' = td_t_mark d \<and> td_cfg d' = td_cfg d \<and>
    (\<forall>ob \<in> set obs. \<not> ob_event ob)"
  using assms
proof (induction smps arbitrary: d obs)
  case (Cons x xs)
  obtain t acc where x: "x = (t, acc)" by (rule prod.exhaust)
  let ?ob = "tap_obs_of F t acc d" and ?d1 = "snd (htk_tapdet_feed F t acc d)"
  obtain obs1 where obs1: "tap_run F xs ?d1 = (obs1, d')" "obs = ?ob # obs1"
    using Cons.prems(2) x by (auto split: prod.splits)
  from Cons.prems(1) obtain b where f: "htk_tapdet_feed F t acc d = tap_switch t (ob_spike ?ob) (ob_quiet ?ob)
      (d\<lparr>td_baseline := b, td_t_last := t, td_have_t := True, td_primed := True\<rparr>)"
    by (rule feed_primed)
  let ?d0 = "d\<lparr>td_baseline := b, td_t_last := t, td_have_t := True, td_primed := True\<rparr>"
  have "tap_switch t (ob_spike ?ob) (ob_quiet ?ob) ?d0 = (False, ?d0)"
    using Cons.prems(3) [of ?ob ?d0] obs1(2) by simp
  then have f': "htk_tapdet_feed F t acc d = (False, ?d0)" using f by simp
  have "td_primed d' \<and> td_state d' = td_state ?d1 \<and> td_t_mark d' = td_t_mark ?d1 \<and> td_cfg d' = td_cfg ?d1 \<and>
    (\<forall>ob \<in> set obs1. \<not> ob_event ob)"
    using Cons.IH [of ?d1 obs1] obs1 Cons.prems(3) f' by simp
  then show ?case using f' obs1(2) by (simp add: ob_event_obs)
qed simp

text \<open>Cutting a run where its observations are cut.\<close>

lemma tap_run_split:
  assumes "tap_run F smps d = (o1 @ o2, d')"
  obtains s1 s2 d1 where "tap_run F s1 d = (o1, d1)" "tap_run F s2 d1 = (o2, d')"
proof -
  let ?s1 = "take (length o1) smps" and ?s2 = "drop (length o1) smps"
  obtain p1 d1 where r1: "tap_run F ?s1 d = (p1, d1)" by (rule prod.exhaust)
  obtain p2 d2 where r2: "tap_run F ?s2 d1 = (p2, d2)" by (rule prod.exhaust)
  have "length p1 = length o1"
    using length_tap_run [OF r1] length_tap_run [OF assms] by simp
  moreover have "p1 @ p2 = o1 @ o2" "d2 = d'"
    using assms tap_run_append [of F ?s1 ?s2 d] r1 r2 by simp_all
  ultimately show thesis using that r1 r2 by (metis append_eq_append_conv)
qed

text \<open>One sample of a run, for a detector past its warm-up.\<close>

lemma tap_run_one:
  assumes "tap_run F smps d = ([ob], d')" and "td_primed d"
  shows "\<exists>d0. td_state d0 = td_state d \<and> td_t_mark d0 = td_t_mark d \<and> td_cfg d0 = td_cfg d \<and> td_primed d0 \<and>
    tap_switch (ob_t ob) (ob_spike ob) (ob_quiet ob) d0 = (ob_event ob, d')"
proof -
  from length_tap_run [OF assms(1)] obtain t acc where smps: "smps = [(t, acc)]"
    by (cases smps) auto
  from assms(2) obtain b where "htk_tapdet_feed F t acc d = tap_switch t (ob_spike (tap_obs_of F t acc d))
      (ob_quiet (tap_obs_of F t acc d)) (d\<lparr>td_baseline := b, td_t_last := t, td_have_t := True, td_primed := True\<rparr>)"
    by (rule feed_primed)
  with assms(1) smps show ?thesis
    by (intro exI [of _ "d\<lparr>td_baseline := b, td_t_last := t, td_have_t := True, td_primed := True\<rparr>"])
       (auto simp: ob_event_obs)
qed

subsection \<open>Properties\<close>

text \<open>C16. No false alarm: whatever the samples, their times and the float arithmetic, if the detector reports an
  event then the samples before contain a spike, after it a quiet sample, no further spike since, and the
  reported sample is a spike whose distance from the quiet one lies between \<open>gap_min_ms\<close> and
  \<open>gap_max_ms\<close>. The state byte never leaves the four states of the switch.\<close>

theorem tap_event_is_double_tap:
  assumes "tap_run F smps (htk_tapdet_init F odr_hz cfg) = (before @ now # after, d')" and "ob_event now"
  shows "double_tap (td_cfg d') before now \<and>
    td_state d' \<le> ST_REFRACTORY"
proof (rule conjI)
  have "tap_hist [] (htk_tapdet_init F odr_hz cfg)" by (simp add: tap_hist_def htk_tapdet_init_def Let_def)
  from run_hist [OF this assms(1)] assms(2)
  show "double_tap (td_cfg d') before now" by (metis append_Nil)
  from run_hist [OF \<open>tap_hist [] (htk_tapdet_init F odr_hz cfg)\<close> assms(1)]
  show "td_state d' \<le> ST_REFRACTORY" by (auto simp: tap_hist_def)
qed

theorem tap_event_is_double_tap_witness:
  "let c = HTK_TAPDET_CFG_DEFAULT\<lparr>spike_ths := 10, rearm_ths := 2\<rparr>;
       (obs, d') = tap_run toy_ops [(0, 5, 0, 0), (10, 5, 0, 0), (20, 5, 0, 0), (1000, 20, 0, 0),
           (2000, 1, 0, 0), (102000, 20, 0, 0)]
         (htk_tapdet_init toy_ops 1 (Some c))
   in ob_event (last obs) \<and> double_tap (td_cfg d') (butlast obs) (last obs)"
proof -
  let ?c = "HTK_TAPDET_CFG_DEFAULT\<lparr>spike_ths := 10, rearm_ths := 2\<rparr>"
  let ?run = "tap_run toy_ops [(0, 5, 0, 0), (10, 5, 0, 0), (20, 5, 0, 0), (1000, 20, 0, 0),
           (2000, 1, 0, 0), (102000, 20, 0, 0)]
         (htk_tapdet_init toy_ops 1 (Some ?c))"
  have ev: "ob_event (last (fst ?run))" and ne: "fst ?run \<noteq> []" by code_simp+
  have "?run = (butlast (fst ?run) @ last (fst ?run) # [], snd ?run)"
    using append_butlast_last_id [OF ne] by (simp only: prod.collapse)
  from tap_event_is_double_tap [OF this ev] ev show ?thesis by (simp only: Let_def case_prod_unfold simp_thms)
qed

text \<open>Once per gesture: after an event nothing is reported as long as the sample times stay within
  \<open>refractory_ms\<close> of it, on the wrapping microsecond clock.\<close>

theorem tap_refractory:
  assumes "fst (htk_tapdet_feed F t0 acc0 d)" and "tap_run F smps (snd (htk_tapdet_feed F t0 acc0 d)) = (obs, d')"
    and "\<forall>ob \<in> set obs. ms_since (ob_t ob) t0 \<le> ucast (refractory_ms (td_cfg d))"
  shows "\<forall>ob \<in> set obs. \<not> ob_event ob"
proof -
  let ?d1 = "snd (htk_tapdet_feed F t0 acc0 d)"
  have "\<not> warming d" using assms(1) feed_warming(1) by blast
  from feed_switch [OF this, of F t0 acc0] assms(1)
  have d1: "td_state ?d1 = 3" "td_t_mark ?d1 = t0" "td_primed ?d1" "td_cfg ?d1 = td_cfg d"
    by (auto simp: tap_switch_def Let_def split: if_splits)
  have stay: "tap_switch (ob_t ob) (ob_spike ob) (ob_quiet ob) d2 = (False, d2)"
    if "ob \<in> set obs" "td_state d2 = td_state ?d1" "td_t_mark d2 = td_t_mark ?d1" "td_cfg d2 = td_cfg ?d1" for d2 ob
    using that assms(3) d1 by (simp add: tap_switch_def Let_def not_less [symmetric])
  from run_stays [OF d1(3) assms(2) stay] show ?thesis by blast
qed

theorem tap_refractory_witness:
  "let d = \<lparr>td_cfg = HTK_TAPDET_CFG_DEFAULT\<lparr>spike_ths := 10, rearm_ths := 2\<rparr>, td_baseline = 0, td_dt_nom = 1,
        td_state = ST_GAP, td_t_mark = 0xFFFFFFFF, td_t_last = 0, td_have_t = True, td_primed = True, td_warmup = 0\<rparr>;
       (ev, d1) = htk_tapdet_feed toy_ops 100000 (20, 0, 0) d;
       (obs, d2) = tap_run toy_ops [(101000, 1, 0, 0), (201000, 20, 0, 0), (1100000, 20, 0, 0)] d1
   in ev \<and> (\<forall>ob \<in> set obs. \<not> ob_event ob)"
proof -
  let ?d = "\<lparr>td_cfg = HTK_TAPDET_CFG_DEFAULT\<lparr>spike_ths := 10, rearm_ths := 2\<rparr>, td_baseline = 0, td_dt_nom = 1,
        td_state = ST_GAP, td_t_mark = 0xFFFFFFFF, td_t_last = 0, td_have_t = True, td_primed = True, td_warmup = 0\<rparr>"
  let ?f = "htk_tapdet_feed toy_ops 100000 (20, 0, 0) ?d"
  let ?run = "tap_run toy_ops [(101000, 1, 0, 0), (201000, 20, 0, 0), (1100000, 20, 0, 0)] (snd ?f)"
  have ev: "fst ?f"
    and t: "\<forall>ob \<in> set (fst ?run). ms_since (ob_t ob) 100000 \<le> ucast (refractory_ms (td_cfg ?d))" by code_simp+
  from tap_refractory [OF ev prod.collapse [symmetric] t] ev
  show ?thesis by (simp only: Let_def case_prod_unfold simp_thms)
qed

text \<open>C17. No missed tap: past the warm-up, from the idle state, a spike, then non-quiet samples for at most
  \<open>shock_max_ms\<close>, a quiet one, then samples that are no spikes for at most \<open>gap_max_ms\<close>, and a spike
  between \<open>gap_min_ms\<close> and \<open>gap_max_ms\<close> after the quiet sample, is reported, at that last sample.\<close>

theorem tap_double_tap_detected:
  assumes "td_primed d" and "td_state d = ST_IDLE" and "tap_run F smps d = (tap1 # mid @ calm # rest @ [tap2], d')"
    and "ob_spike tap1" and "ob_quiet calm" and "ob_spike tap2"
    and "\<forall>ob \<in> set mid. \<not> ob_quiet ob \<and> ms_since (ob_t ob) (ob_t tap1) \<le> ucast (shock_max_ms (td_cfg d))"
    and "\<forall>ob \<in> set rest. \<not> ob_spike ob \<and> ms_since (ob_t ob) (ob_t calm) \<le> ucast (gap_max_ms (td_cfg d))"
    and "ucast (gap_min_ms (td_cfg d)) \<le> ms_since (ob_t tap2) (ob_t calm)"
    and "ms_since (ob_t tap2) (ob_t calm) \<le> ucast (gap_max_ms (td_cfg d))"
  shows "ob_event tap2"
proof -
  let ?c = "td_cfg d"
  have "tap_run F smps d = ([tap1] @ (mid @ ([calm] @ (rest @ [tap2]))), d')" using assms(3) by simp
  then obtain s1 s1' d1 where r1: "tap_run F s1 d = ([tap1], d1)"
    and r1': "tap_run F s1' d1 = (mid @ ([calm] @ (rest @ [tap2])), d')" by (rule tap_run_split)
  from r1' obtain s2 s2' d2 where r2: "tap_run F s2 d1 = (mid, d2)"
    and r2': "tap_run F s2' d2 = ([calm] @ (rest @ [tap2]), d')" by (rule tap_run_split)
  from r2' obtain s3 s3' d3 where r3: "tap_run F s3 d2 = ([calm], d3)"
    and r3': "tap_run F s3' d3 = (rest @ [tap2], d')" by (rule tap_run_split)
  from r3' obtain s4 s5 d4 where r4: "tap_run F s4 d3 = (rest, d4)" and r5: "tap_run F s5 d4 = ([tap2], d')"
    by (rule tap_run_split)
  have d1: "td_state d1 = 1" "td_t_mark d1 = ob_t tap1" "td_cfg d1 = ?c" "td_primed d1"
    using tap_run_one [OF r1 assms(1)] assms(2,4) by (auto simp: tap_switch_def Let_def)
  have stay: "tap_switch (ob_t ob) (ob_spike ob) (ob_quiet ob) e = (False, e)"
    if "ob \<in> set mid" "td_state e = td_state d1" "td_t_mark e = td_t_mark d1" "td_cfg e = td_cfg d1" for e ob
    using that assms(7) d1 by (simp add: tap_switch_def Let_def not_less [symmetric])
  have d2: "td_state d2 = 1" "td_cfg d2 = ?c" "td_primed d2"
    using run_stays [OF d1(4) r2 stay] d1 by simp_all
  have d3: "td_state d3 = 2" "td_t_mark d3 = ob_t calm" "td_cfg d3 = ?c" "td_primed d3"
    using tap_run_one [OF r3 d2(3)] d2 assms(5) by (auto simp: tap_switch_def Let_def)
  have stay': "tap_switch (ob_t ob) (ob_spike ob) (ob_quiet ob) e = (False, e)"
    if "ob \<in> set rest" "td_state e = td_state d3" "td_t_mark e = td_t_mark d3" "td_cfg e = td_cfg d3" for e ob
    using that assms(8) d3 by (simp add: tap_switch_def Let_def not_less [symmetric])
  have d4: "td_state d4 = 2" "td_t_mark d4 = ob_t calm" "td_cfg d4 = ?c" "td_primed d4"
    using run_stays [OF d3(4) r4 stay'] d3 by simp_all
  have "\<not> ms_since (ob_t tap2) (ob_t calm) < ucast (gap_min_ms ?c)" using assms(9) by simp
  then show ?thesis
    using tap_run_one [OF r5 d4(4)] d4 assms(6,10) by (auto simp: tap_switch_def Let_def)
qed

theorem tap_double_tap_detected_witness:
  "let d = \<lparr>td_cfg = HTK_TAPDET_CFG_DEFAULT\<lparr>spike_ths := 10, rearm_ths := 2\<rparr>, td_baseline = 0, td_dt_nom = 1,
        td_state = ST_IDLE, td_t_mark = 0, td_t_last = 0, td_have_t = True, td_primed = True, td_warmup = 0\<rparr>
   in map ob_event (fst (tap_run toy_ops [(0, 20, 0, 0), (9000, 5, 0, 0), (20000, 1, 0, 0), (200000, 20, 0, 0)] d)) =
      [False, False, False, True]"
proof -
  let ?d = "\<lparr>td_cfg = HTK_TAPDET_CFG_DEFAULT\<lparr>spike_ths := 10, rearm_ths := 2\<rparr>, td_baseline = 0, td_dt_nom = 1,
        td_state = ST_IDLE, td_t_mark = 0, td_t_last = 0, td_have_t = True, td_primed = True, td_warmup = 0\<rparr>"
  let ?run = "tap_run toy_ops [(0, 20, 0, 0), (9000, 5, 0, 0), (20000, 1, 0, 0), (200000, 20, 0, 0)] ?d"
  let ?ob = "\<lambda>t s q e. \<lparr>ob_t = t, ob_spike = s, ob_quiet = q, ob_event = e\<rparr>"
  let ?e = "ob_event (fst ?run ! 3)"
  have obs: "fst ?run = ?ob 0 True False False # [?ob 9000 False False False] @ ?ob 20000 False True False # [] @ [?ob 200000 True False ?e]"
    and p: "td_primed ?d" "td_state ?d = ST_IDLE"
    and m: "\<forall>ob \<in> set [?ob 9000 False False False]. \<not> ob_quiet ob \<and>
      ms_since (ob_t ob) (ob_t (?ob 0 True False False)) \<le> ucast (shock_max_ms (td_cfg ?d))"
    and g: "ucast (gap_min_ms (td_cfg ?d)) \<le> ms_since (ob_t (?ob 200000 True False ?e)) (ob_t (?ob 20000 False True False))"
      "ms_since (ob_t (?ob 200000 True False ?e)) (ob_t (?ob 20000 False True False)) \<le> ucast (gap_max_ms (td_cfg ?d))"
    by code_simp+
  have run: "?run = (?ob 0 True False False # [?ob 9000 False False False] @ ?ob 20000 False True False # [] @ [?ob 200000 True False ?e], snd ?run)"
    by (simp only: obs [symmetric] prod.collapse)
  have "ob_event (?ob 200000 True False ?e)"
    by (rule tap_double_tap_detected [OF p run _ _ _ m _ g]) simp_all
  then have "?e" by simp
  with obs show ?thesis by (simp only: Let_def) simp
qed

end
