(* ===== verification/Fusion.thy ===== *)
theory Fusion
  imports Floats
begin

text \<open>
  The fusion wrapper of the head unit, \<^verbatim>\<open>firmware/common/fusion/htk_fusion.cpp\<close>: the coarse offset, the bias
  quality with hysteresis, the bias slew clamp, the rest gate and the yaw-hold servo around the VQF
  filter.

  The filter is third-party code kept in the repository (\<^verbatim>\<open>vqf.hpp\<close>, \<^verbatim>\<open>vqf.cpp\<close>) and a parameter here: \<open>V\<close> holds the
  methods that the wrapper calls, on a filter state \<open>'v\<close> with a snapshot \<open>'t\<close>. Nothing is assumed of
  them except where a lemma says so, and in the locale \<open>gyro_filter\<close>, of which the theories on VQF give the instance. The floating-point literals are written as bit patterns, each with
  its value in a comment.
\<close>

subsection \<open>Vectors\<close>

type_synonym vec3 = "f32 \<times> f32 \<times> f32"
type_synonym quat = "f32 \<times> f32 \<times> f32 \<times> f32"

fun map3 :: "(f32 \<Rightarrow> f32) \<Rightarrow> vec3 \<Rightarrow> vec3" where
  "map3 f (a, b, c) = (f a, f b, f c)"

fun zip3 :: "(f32 \<Rightarrow> f32 \<Rightarrow> f32) \<Rightarrow> vec3 \<Rightarrow> vec3 \<Rightarrow> vec3" where
  "zip3 f (a, b, c) (a', b', c') = (f a a', f b b', f c c')"

fun all3 :: "(f32 \<Rightarrow> bool) \<Rightarrow> vec3 \<Rightarrow> bool" where
  "all3 P (a, b, c) \<longleftrightarrow> P a \<and> P b \<and> P c"

fun dot3 :: "float_ops \<Rightarrow> vec3 \<Rightarrow> vec3 \<Rightarrow> f32" where
  "dot3 F (a, b, c) (a', b', c') = f_add F (f_add F (f_mul F a a') (f_mul F b b')) (f_mul F c c')"

definition norm3 :: "float_ops \<Rightarrow> vec3 \<Rightarrow> f32" where
  "norm3 F v = f_sqrt F (dot3 F v v)"

subsection \<open>The filter\<close>

record ('v, 't) vqf_ops =
  vqf_new :: "f32 \<Rightarrow> 'v"
  vqf_updateGyr :: "vec3 \<Rightarrow> 'v \<Rightarrow> 'v"
  vqf_updateAcc :: "vec3 \<Rightarrow> 'v \<Rightarrow> 'v"
  vqf_getQuat6D :: "'v \<Rightarrow> quat"
  vqf_getBiasEstimate :: "'v \<Rightarrow> vec3 \<times> f32"
  vqf_setBiasEstimate :: "vec3 \<Rightarrow> f32 \<Rightarrow> 'v \<Rightarrow> 'v"
  vqf_getRelativeRestDeviations :: "'v \<Rightarrow> f32 \<times> f32"
  vqf_getRestDetected :: "'v \<Rightarrow> bool"
  vqf_getState :: "'v \<Rightarrow> 't"
  vqf_setState :: "'t \<Rightarrow> 'v \<Rightarrow> 'v"
  vqf_resetState :: "'v \<Rightarrow> 'v"

subsection \<open>Tunables\<close>

definition HTK_YAWHOLD_SLEW_DPS :: f32 where "HTK_YAWHOLD_SLEW_DPS = 0x3DCCCCCD" \<comment> \<open>0.1\<close>
definition BIAS_OK_SET_DPS :: f32 where "BIAS_OK_SET_DPS = 0x3E19999A" \<comment> \<open>0.15\<close>
definition BIAS_OK_CLEAR_DPS :: f32 where "BIAS_OK_CLEAR_DPS = 0x3E800000" \<comment> \<open>0.25\<close>
definition REST_SUSTAIN_S :: f32 where "REST_SUSTAIN_S = 0x40000000" \<comment> \<open>2.0\<close>
definition REST_GYR_NORM_DPS :: f32 where "REST_GYR_NORM_DPS = 0x3F000000" \<comment> \<open>0.5\<close>
definition REST_GYR_VERT_DPS :: f32 where "REST_GYR_VERT_DPS = 0x3E99999A" \<comment> \<open>0.3\<close>
definition REST_ACC_DEV_MAX :: f32 where "REST_ACC_DEV_MAX = 0x3F000000" \<comment> \<open>0.5\<close>
definition REST_BAD_RUN_DROP :: u32 where [code_defs]: "REST_BAD_RUN_DROP = 3"
definition BIAS_SLEW_DPS_PER_S :: f32 where "BIAS_SLEW_DPS_PER_S = 0x3C23D70A" \<comment> \<open>0.01\<close>
definition COARSE_RANGE_MAX_DPS :: f32 where "COARSE_RANGE_MAX_DPS = 0x40800000" \<comment> \<open>4.0\<close>
definition COARSE_ABS_MAX_DPS :: f32 where "COARSE_ABS_MAX_DPS = 0x41700000" \<comment> \<open>15.0\<close>
definition kDeg2Rad :: f32 where "kDeg2Rad = 0x3C8EFA35" \<comment> \<open>3.14159265358979 / 180.0\<close>
definition kPi :: f32 where "kPi = 0x40490FDB"
definition kTwoPi :: f32 where "kTwoPi = 0x40C90FDB" \<comment> \<open>2.0 * kPi, exactly\<close>

subsection \<open>State\<close>

record htk_fusion_debug =
  sigma_dps :: f32
  bc_norm_max_dps :: f32
  vert_max_dps :: f32
  acc_dev_max :: f32
  vqf_rest_pct :: u16
  gate_fail_n :: u16
  spikes_1dps :: u16
  spikes_8dps :: u16
  coarse_dps :: vec3

record 'v htk_fusion =
  filt :: 'v
  g_nominal_dt :: f32
  g_bias_ok :: bool
  g_rest :: bool
  g_rest_sustain_s :: f32
  g_bad_run :: u32
  g_psi_hold :: f32
  g_psi_ref :: f32
  g_reseed :: bool
  g_last_t_us :: u32
  g_have_t :: bool
  g_suspended :: bool
  g_have_saved_bias :: bool
  g_saved_bias :: vec3
  g_saved_sigma :: f32
  g_bias_latched :: bool
  g_bias_prev :: vec3
  g_dbg :: htk_fusion_debug
  g_dbg_samples :: u32
  g_dbg_vqf_rest :: u32
  g_coarse :: vec3
  g_coarse_acc :: vec3
  g_coarse_min :: vec3
  g_coarse_max :: vec3
  g_coarse_n :: u32
  g_coarse_target :: u32
  g_coarse_done :: bool

text \<open>The static variables before \<^verbatim>\<open>htk_fusion_init\<close>; \<open>v\<close> is the memory the filter will be built in.\<close>

definition htk_fusion_boot :: "'v \<Rightarrow> 'v htk_fusion" where
  "htk_fusion_boot v =
     \<lparr>filt = v, g_nominal_dt = 0, g_bias_ok = False, g_rest = False, g_rest_sustain_s = 0, g_bad_run = 0,
      g_psi_hold = 0, g_psi_ref = 0, g_reseed = False, g_last_t_us = 0, g_have_t = False,
      g_suspended = False, g_have_saved_bias = False, g_saved_bias = (0, 0, 0), g_saved_sigma = 0,
      g_bias_latched = False, g_bias_prev = (0, 0, 0),
      g_dbg = \<lparr>sigma_dps = 0, bc_norm_max_dps = 0, vert_max_dps = 0, acc_dev_max = 0, vqf_rest_pct = 0,
        gate_fail_n = 0, spikes_1dps = 0, spikes_8dps = 0, coarse_dps = (0, 0, 0)\<rparr>,
      g_dbg_samples = 0, g_dbg_vqf_rest = 0, g_coarse = (0, 0, 0), g_coarse_acc = (0, 0, 0),
      g_coarse_min = (0, 0, 0), g_coarse_max = (0, 0, 0), g_coarse_n = 0, g_coarse_target = 0,
      g_coarse_done = False\<rparr>"

subsection \<open>Helpers\<close>

definition coarse_restart :: "'v htk_fusion \<Rightarrow> 'v htk_fusion" where
  "coarse_restart s = s\<lparr>g_coarse_acc := (0, 0, 0), g_coarse_n := 0\<rparr>"

text \<open>The two loops of \<^verbatim>\<open>wrap_pi\<close>. Whether they end depends on the arithmetic: \<open>None\<close> is a loop that does not.\<close>

partial_function (option) wrap_down :: "float_ops \<Rightarrow> f32 \<Rightarrow> f32 option" where
  "wrap_down F a = (if f_less kPi a then wrap_down F (f_sub F a kTwoPi) else Some a)"

partial_function (option) wrap_up :: "float_ops \<Rightarrow> f32 \<Rightarrow> f32 option" where
  "wrap_up F a = (if f_less a (f_neg kPi) then wrap_up F (f_add F a kTwoPi) else Some a)"

declare wrap_down.simps [code] wrap_up.simps [code]

definition wrap_pi :: "float_ops \<Rightarrow> f32 \<Rightarrow> f32 option" where
  "wrap_pi F a = Option.bind (wrap_down F a) (wrap_up F)"

fun heading_angle :: "float_ops \<Rightarrow> quat \<Rightarrow> f32 option" where
  "heading_angle F (q0, q1, q2, q3) =
     (if f_less (f_abs q0) 0x358637BD \<and> f_less (f_abs q3) 0x358637BD then Some 0
      else wrap_pi F (f_mul F 0x40000000 (f_atan2 F q3 q0)))"

fun gravity_body :: "float_ops \<Rightarrow> quat \<Rightarrow> vec3" where
  "gravity_body F (w, x, y, z) =
     (f_neg (f_mul F 0x40000000 (f_sub F (f_mul F x z) (f_mul F w y))),
      f_neg (f_mul F 0x40000000 (f_add F (f_mul F y z) (f_mul F w x))),
      f_neg (f_sub F 0x3F800000 (f_mul F 0x40000000 (f_add F (f_mul F x x) (f_mul F y y)))))"

subsection \<open>Initialisation\<close>

definition htk_fusion_init :: "float_ops \<Rightarrow> ('v, 't) vqf_ops \<Rightarrow> f32 \<Rightarrow> 'v htk_fusion \<Rightarrow> 'v htk_fusion" where
  "htk_fusion_init F V sample_hz s =
     (let dt = f_div F 0x3F800000 sample_hz in
      s\<lparr>g_nominal_dt := dt, filt := vqf_new V dt, g_bias_ok := False, g_rest := False,
        g_rest_sustain_s := 0, g_psi_hold := 0, g_psi_ref := 0, g_reseed := True, g_have_t := False,
        g_suspended := False, g_have_saved_bias := False, g_coarse := (0, 0, 0), g_coarse_acc := (0, 0, 0),
        g_coarse_n := 0, g_coarse_target := word_of_int (f_trunc sample_hz), g_coarse_done := False\<rparr>)"

definition update_bias_ok :: "float_ops \<Rightarrow> f32 \<Rightarrow> 'v htk_fusion \<Rightarrow> 'v htk_fusion" where
  "update_bias_ok F sigma_rad s =
     (let sigma = f_div F sigma_rad kDeg2Rad in
      if g_bias_ok s then (if f_less BIAS_OK_CLEAR_DPS sigma then s\<lparr>g_bias_ok := False\<rparr> else s)
      else (if f_less sigma BIAS_OK_SET_DPS then s\<lparr>g_bias_ok := True\<rparr> else s))"

subsection \<open>The update, in its stages\<close>

text \<open>The coarse offset capture.\<close>

definition coarse_step :: "float_ops \<Rightarrow> vec3 \<Rightarrow> 'v htk_fusion \<Rightarrow> 'v htk_fusion" where
  "coarse_step F gyr s =
     (if g_coarse_done s then s
      else
        (let s = (if g_coarse_n s = 0 then s\<lparr>g_coarse_min := gyr, g_coarse_max := gyr\<rparr> else s);
             s = s\<lparr>g_coarse_min := zip3 f_min (g_coarse_min s) gyr, g_coarse_max := zip3 f_max (g_coarse_max s) gyr\<rparr>;
             moving = (\<not> all3 (\<lambda>d. \<not> f_less (f_mul F COARSE_RANGE_MAX_DPS kDeg2Rad) d)
                            (zip3 (f_sub F) (g_coarse_max s) (g_coarse_min s))) in
         if moving then coarse_restart s
         else
           (let s = s\<lparr>g_coarse_acc := zip3 (f_add F) (g_coarse_acc s) gyr, g_coarse_n := g_coarse_n s + 1\<rparr> in
            if g_coarse_n s \<ge> g_coarse_target s then
              (let c = map3 (\<lambda>a. f_div F a (f_of_u32 F (g_coarse_n s))) (g_coarse_acc s);
                   lim = f_mul F COARSE_ABS_MAX_DPS kDeg2Rad in
               if all3 (\<lambda>x. f_less (f_abs x) lim) c then s\<lparr>g_coarse := c, g_coarse_done := True\<rparr>
               else coarse_restart s)
            else s)))"

text \<open>The time step, for the gate and the servo only.\<close>

definition fusion_dt :: "float_ops \<Rightarrow> u32 \<Rightarrow> 'v htk_fusion \<Rightarrow> f32" where
  "fusion_dt F t_us s =
     (let nom = g_nominal_dt s in
      if g_have_t s then
        (let dt = f_mul F (f_of_u32 F (t_us - g_last_t_us s)) 0x358637BD in
         if f_less dt (f_mul F 0x3F000000 nom) \<or> f_less (f_mul F 0x40800000 nom) dt then nom else dt)
      else nom)"

text \<open>The bias slew clamp: the bias that the rest of the update uses.\<close>

definition bias_clamp :: "float_ops \<Rightarrow> ('v, 't) vqf_ops \<Rightarrow> f32 \<Rightarrow> vec3 \<Rightarrow> 'v htk_fusion \<Rightarrow> vec3 \<times> 'v htk_fusion" where
  "bias_clamp F V dt bias s =
     (if \<not> g_bias_latched s then
        (bias, if g_bias_ok s then s\<lparr>g_bias_latched := True, g_bias_prev := bias\<rparr> else s)
      else
        (let d = zip3 (f_sub F) bias (g_bias_prev s); dn = norm3 F d;
             max_step = f_mul F (f_mul F BIAS_SLEW_DPS_PER_S kDeg2Rad) dt;
             (bias, s) =
               (if f_less max_step dn \<and> f_less 0 dn then
                  (let k = f_div F max_step dn;
                       bias = zip3 (\<lambda>p x. f_add F p (f_mul F x k)) (g_bias_prev s) d in
                   (bias, s\<lparr>filt := vqf_setBiasEstimate V bias 0xBF800000 (filt s)\<rparr>))
                else (bias, s)) in
         (bias, s\<lparr>g_bias_prev := bias\<rparr>)))"

text \<open>The window diagnostics.\<close>

definition dbg_step :: "float_ops \<Rightarrow> bool \<Rightarrow> bool \<Rightarrow> f32 \<Rightarrow> f32 \<Rightarrow> f32 \<Rightarrow> f32 \<Rightarrow> 'v htk_fusion \<Rightarrow> 'v htk_fusion" where
  "dbg_step F vqf_rest instant_ok bc_norm vert acc_dev sigma s =
     (let s = s\<lparr>g_dbg_samples := g_dbg_samples s + 1\<rparr>;
          s = (if vqf_rest then s\<lparr>g_dbg_vqf_rest := g_dbg_vqf_rest s + 1\<rparr> else s);
          g = g_dbg s;
          g = (if \<not> instant_ok then g\<lparr>gate_fail_n := gate_fail_n g + 1\<rparr> else g);
          g = (if f_less (f_mul F 0x3F800000 kDeg2Rad) bc_norm then
                 (let g = g\<lparr>spikes_1dps := spikes_1dps g + 1\<rparr> in
                  if f_less (f_mul F 0x41000000 kDeg2Rad) bc_norm then g\<lparr>spikes_8dps := spikes_8dps g + 1\<rparr> else g)
               else g) in
      s\<lparr>g_dbg := g\<lparr>bc_norm_max_dps := f_max (bc_norm_max_dps g) (f_div F bc_norm kDeg2Rad),
                   vert_max_dps := f_max (vert_max_dps g) (f_div F vert kDeg2Rad),
                   acc_dev_max := f_max (acc_dev_max g) acc_dev,
                   sigma_dps := f_div F sigma kDeg2Rad\<rparr>\<rparr>)"

text \<open>The rest gate.\<close>

definition rest_gate :: "float_ops \<Rightarrow> bool \<Rightarrow> f32 \<Rightarrow> f32 \<Rightarrow> 'v htk_fusion \<Rightarrow> 'v htk_fusion" where
  "rest_gate F instant_ok acc_dev dt s =
     (let s = (if g_reseed s then s\<lparr>g_rest_sustain_s := 0, g_rest := False, g_bad_run := 0\<rparr> else s) in
      if \<not> instant_ok then
        (let s = s\<lparr>g_bad_run := g_bad_run s + 1\<rparr> in
         if g_bad_run s \<ge> REST_BAD_RUN_DROP then s\<lparr>g_rest_sustain_s := 0, g_rest := False\<rparr> else s)
      else
        (let s = s\<lparr>g_bad_run := 0\<rparr> in
         if \<not> g_rest s then
           (if f_less acc_dev REST_ACC_DEV_MAX then
              (let s = s\<lparr>g_rest_sustain_s := f_add F (g_rest_sustain_s s) dt\<rparr> in
               if f_le REST_SUSTAIN_S (g_rest_sustain_s s) then s\<lparr>g_rest := True\<rparr> else s)
            else s\<lparr>g_rest_sustain_s := 0\<rparr>)
         else s))"

text \<open>The yaw-hold servo.\<close>

definition yaw_hold :: "float_ops \<Rightarrow> f32 \<Rightarrow> f32 \<Rightarrow> 'v htk_fusion \<Rightarrow> 'v htk_fusion option" where
  "yaw_hold F dt phi_fw s =
     Option.bind (wrap_pi F (f_add F (g_psi_hold s) phi_fw)) (\<lambda>psi_out.
       if g_reseed s \<or> \<not> g_rest s then Some (s\<lparr>g_psi_ref := psi_out, g_reseed := False\<rparr>)
       else
         (let slew = f_mul F (f_mul F HTK_YAWHOLD_SLEW_DPS kDeg2Rad) dt in
          Option.bind (wrap_pi F (f_sub F (g_psi_ref s) psi_out)) (\<lambda>err.
            let err = (if f_less slew err then slew
                       else if f_less err (f_neg slew) then f_neg slew else err) in
            Option.bind (wrap_pi F (f_add F (g_psi_hold s) err)) (\<lambda>hold.
              Option.bind (wrap_pi F (f_add F hold phi_fw)) (\<lambda>_.
                Some (s\<lparr>g_psi_hold := hold, g_reseed := False\<rparr>))))))"

fun apply_yaw :: "float_ops \<Rightarrow> f32 \<Rightarrow> quat \<Rightarrow> quat" where
  "apply_yaw F psi (w, x, y, z) =
     (if \<not> f_eq psi 0 then
        (let hw = f_cos F (f_mul F psi 0x3F000000); hz = f_sin F (f_mul F psi 0x3F000000) in
         (f_sub F (f_mul F hw w) (f_mul F hz z), f_sub F (f_mul F hw x) (f_mul F hz y),
          f_add F (f_mul F hw y) (f_mul F hz x), f_add F (f_mul F hw z) (f_mul F hz w)))
      else (w, x, y, z))"

fun renormalize :: "float_ops \<Rightarrow> quat \<Rightarrow> quat" where
  "renormalize F (q0, q1, q2, q3) =
     (let n2 = f_add F (f_add F (f_add F (f_mul F q0 q0) (f_mul F q1 q1)) (f_mul F q2 q2)) (f_mul F q3 q3) in
      if f_less 0x2B8CBCCC n2 then
        (let inv = f_div F 0x3F800000 (f_sqrt F n2) in
         (f_mul F q0 inv, f_mul F q1 inv, f_mul F q2 inv, f_mul F q3 inv))
      else (0x3F800000, 0, 0, 0))"

text \<open>
  The update up to the gate: the attitude, the time step, whether the sample passes the instantaneous
  conditions, and the accelerometer's deviation.
\<close>

definition fusion_front ::
  "float_ops \<Rightarrow> ('v, 't) vqf_ops \<Rightarrow> vec3 \<Rightarrow> vec3 \<Rightarrow> u32 \<Rightarrow> 'v htk_fusion \<Rightarrow>
   quat \<times> f32 \<times> bool \<times> f32 \<times> 'v htk_fusion" where
  "fusion_front F V gyr acc t_us s =
     (let s = coarse_step F gyr s;
          g = zip3 (f_sub F) gyr (g_coarse s);
          s = s\<lparr>filt := vqf_updateAcc V acc (vqf_updateGyr V g (filt s))\<rparr>;
          quat = vqf_getQuat6D V (filt s);
          dt = fusion_dt F t_us s;
          s = s\<lparr>g_last_t_us := t_us, g_have_t := True\<rparr>;
          (bias, sigma) = vqf_getBiasEstimate V (filt s);
          s = update_bias_ok F sigma s;
          (bias, s) = bias_clamp F V dt bias s;
          bc = zip3 (f_sub F) g bias;
          bc_norm = norm3 F bc;
          vert = f_abs (dot3 F bc (gravity_body F quat));
          acc_dev = snd (vqf_getRelativeRestDeviations V (filt s));
          vqf_rest = vqf_getRestDetected V (filt s);
          instant_ok = (vqf_rest \<and> f_less bc_norm (f_mul F REST_GYR_NORM_DPS kDeg2Rad) \<and>
                        f_less vert (f_mul F REST_GYR_VERT_DPS kDeg2Rad)) in
      (quat, dt, instant_ok, acc_dev, dbg_step F vqf_rest instant_ok bc_norm vert acc_dev sigma s))"

text \<open>The whole update. \<open>None\<close> is an update that does not return.\<close>

definition htk_fusion_update ::
  "float_ops \<Rightarrow> ('v, 't) vqf_ops \<Rightarrow> vec3 \<Rightarrow> vec3 \<Rightarrow> u32 \<Rightarrow> 'v htk_fusion \<Rightarrow> (quat \<times> 'v htk_fusion) option" where
  "htk_fusion_update F V gyr acc t_us s =
     (case fusion_front F V gyr acc t_us s of (quat, dt, instant_ok, acc_dev, s) \<Rightarrow>
        let s = rest_gate F instant_ok acc_dev dt s in
        Option.bind (heading_angle F quat) (\<lambda>phi_fw.
          map_option (\<lambda>s. (renormalize F (apply_yaw F (g_psi_hold s) quat), s)) (yaw_hold F dt phi_fw s)))"

subsection \<open>The other entry points\<close>

definition htk_fusion_bias_ok :: "'v htk_fusion \<Rightarrow> bool" where
  "htk_fusion_bias_ok s = g_bias_ok s"

definition htk_fusion_rest :: "'v htk_fusion \<Rightarrow> bool" where
  "htk_fusion_rest s = g_rest s"

definition htk_fusion_get_debug :: "float_ops \<Rightarrow> 'v htk_fusion \<Rightarrow> htk_fusion_debug \<times> 'v htk_fusion" where
  "htk_fusion_get_debug F s =
     ((g_dbg s)\<lparr>coarse_dps := map3 (\<lambda>x. f_div F x kDeg2Rad) (g_coarse s),
        vqf_rest_pct := (if g_dbg_samples s \<noteq> 0 then ucast ((100 * g_dbg_vqf_rest s) div g_dbg_samples s) else 0)\<rparr>,
      s\<lparr>g_dbg := (g_dbg s)\<lparr>bc_norm_max_dps := 0, vert_max_dps := 0, acc_dev_max := 0, gate_fail_n := 0,
          spikes_1dps := 0, spikes_8dps := 0\<rparr>, g_dbg_samples := 0, g_dbg_vqf_rest := 0\<rparr>)"

definition htk_fusion_set_sample_rate :: "float_ops \<Rightarrow> ('v, 't) vqf_ops \<Rightarrow> f32 \<Rightarrow> 'v htk_fusion \<Rightarrow> 'v htk_fusion" where
  "htk_fusion_set_sample_rate F V hz s =
     (let st = vqf_getState V (filt s); dt = f_div F 0x3F800000 hz in
      s\<lparr>g_nominal_dt := dt, filt := vqf_setState V st (vqf_new V dt)\<rparr>)"

definition htk_fusion_reset :: "('v, 't) vqf_ops \<Rightarrow> 'v htk_fusion \<Rightarrow> 'v htk_fusion" where
  "htk_fusion_reset V s =
     s\<lparr>filt := vqf_resetState V (filt s), g_bias_ok := False, g_rest := False, g_rest_sustain_s := 0,
       g_psi_hold := 0, g_reseed := True, g_have_saved_bias := False, g_bias_latched := False,
       g_coarse_acc := (0, 0, 0), g_coarse_n := 0, g_coarse_done := False\<rparr>"

definition htk_fusion_suspend :: "('v, 't) vqf_ops \<Rightarrow> 'v htk_fusion \<Rightarrow> 'v htk_fusion" where
  "htk_fusion_suspend V s =
     (case vqf_getBiasEstimate V (filt s) of (bias, sigma) \<Rightarrow>
        s\<lparr>g_saved_sigma := sigma, g_saved_bias := bias, g_have_saved_bias := True, g_suspended := True\<rparr>)"

definition htk_fusion_resume :: "('v, 't) vqf_ops \<Rightarrow> 'v htk_fusion \<Rightarrow> 'v htk_fusion" where
  "htk_fusion_resume V s =
     (if \<not> g_suspended s then s
      else
        (let s = s\<lparr>g_suspended := False, filt := vqf_resetState V (filt s)\<rparr>;
             s = (if g_have_saved_bias s then
                    s\<lparr>filt := vqf_setBiasEstimate V (g_saved_bias s) (g_saved_sigma s) (filt s),
                      g_bias_prev := g_saved_bias s\<rparr>
                  else s) in
         s\<lparr>g_rest := False, g_rest_sustain_s := 0, g_reseed := True\<rparr>))"

declare heading_angle.simps [simp del] apply_yaw.simps [simp del] renormalize.simps [simp del]

subsection \<open>What the stages keep\<close>

text \<open>The part of the state that the gate and the servo work on.\<close>

definition gate_view :: "'v htk_fusion \<Rightarrow> bool \<times> f32 \<times> u32 \<times> bool \<times> f32 \<times> f32" where
  "gate_view s = (g_rest s, g_rest_sustain_s s, g_bad_run s, g_reseed s, g_psi_hold s, g_psi_ref s)"

lemma stage_views [simp]:
  "gate_view (coarse_step F gyr s) = gate_view s" "gate_view (update_bias_ok F sigma s) = gate_view s"
  "gate_view (dbg_step F r ok n v a sigma s) = gate_view s"
  by (simp_all add: coarse_step_def coarse_restart_def update_bias_ok_def dbg_step_def gate_view_def Let_def)

lemma bias_clamp_view [simp]: "gate_view (snd (bias_clamp F V dt bias s)) = gate_view s"
  by (simp add: bias_clamp_def gate_view_def Let_def)

lemma stage_dt_views:
  "g_nominal_dt (coarse_step F gyr s) = g_nominal_dt s" "g_have_t (coarse_step F gyr s) = g_have_t s"
  "g_last_t_us (coarse_step F gyr s) = g_last_t_us s"
  by (simp_all add: coarse_step_def coarse_restart_def Let_def)

lemma gate_view_simps:
  "gate_view (s\<lparr>filt := v\<rparr>) = gate_view s" "gate_view (s\<lparr>g_last_t_us := t, g_have_t := b\<rparr>) = gate_view s"
  by (simp_all add: gate_view_def)

lemma front_view:
  assumes "fusion_front F V gyr acc t_us s = (quat, dt, ok, dev, s1)"
  shows "gate_view s1 = gate_view s" and "dt = fusion_dt F t_us s"
proof -
  have "gate_view (snd (snd (snd (snd (fusion_front F V gyr acc t_us s))))) = gate_view s"
    by (simp add: fusion_front_def Let_def case_prod_beta gate_view_simps)
  with assms show "gate_view s1 = gate_view s" by simp
  have "fst (snd (fusion_front F V gyr acc t_us s)) = fusion_dt F t_us s"
    by (simp add: fusion_front_def Let_def case_prod_beta fusion_dt_def stage_dt_views)
  with assms show "dt = fusion_dt F t_us s" by simp
qed

subsection \<open>The history behind the rest gate\<close>

text \<open>What one update presents to the gate.\<close>

record gate_obs =
  go_ok :: bool
  go_dev :: f32
  go_dt :: f32
  go_reseed :: bool

definition rest_sum :: "float_ops \<Rightarrow> gate_obs list \<Rightarrow> f32" where
  "rest_sum F obs = fold (\<lambda>ob acc. if go_ok ob then f_add F acc (go_dt ob) else acc) obs 0"

definition bad_tail :: "gate_obs list \<Rightarrow> nat" where
  "bad_tail obs = length (takeWhile (\<lambda>ob. \<not> go_ok ob) (rev obs))"

text \<open>No three violations in a row, and no restart of the gate after the first observation.\<close>

definition calm :: "gate_obs list \<Rightarrow> bool" where
  "calm obs \<longleftrightarrow> (\<forall>n \<le> length obs. bad_tail (take n obs) < 3) \<and> (\<forall>ob \<in> set (tl obs). \<not> go_reseed ob)"

definition steady :: "gate_obs list \<Rightarrow> bool" where
  "steady obs \<longleftrightarrow> (\<forall>ob \<in> set obs. go_ok ob \<longrightarrow> f_less (go_dev ob) REST_ACC_DEV_MAX)"

definition rested :: "float_ops \<Rightarrow> gate_obs list \<Rightarrow> bool" where
  "rested F w \<longleftrightarrow> (\<exists>b c. w = b @ c \<and> steady b \<and> f_le REST_SUSTAIN_S (rest_sum F b))"

definition gate_window :: "float_ops \<Rightarrow> gate_obs list \<Rightarrow> 'v htk_fusion \<Rightarrow> bool" where
  "gate_window F w s \<longleftrightarrow> calm w \<and> bad_tail w \<le> unat (g_bad_run s) \<and>
     (if g_rest s then rested F w
      else steady w \<and> g_rest_sustain_s s = rest_sum F w)"

definition gate_inv :: "float_ops \<Rightarrow> gate_obs list \<Rightarrow> 'v htk_fusion \<Rightarrow> bool" where
  "gate_inv F h s \<longleftrightarrow> (g_bad_run s \<ge> 3 \<longrightarrow> \<not> g_rest s \<and> g_rest_sustain_s s = 0) \<and>
     (\<exists>a w. h = a @ w \<and> gate_window F w s)"

lemma bad_tail_snoc [simp]: "bad_tail (obs @ [ob]) = (if go_ok ob then 0 else Suc (bad_tail obs))"
  by (simp add: bad_tail_def)

lemma bad_tail_Nil [simp]: "bad_tail [] = 0"
  by (simp add: bad_tail_def)

lemma rest_sum_snoc [simp]:
  "rest_sum F (obs @ [ob]) = (if go_ok ob then f_add F (rest_sum F obs) (go_dt ob) else rest_sum F obs)"
  by (simp add: rest_sum_def)

lemma rest_sum_Nil [simp]: "rest_sum F [] = 0"
  by (simp add: rest_sum_def)

lemma steady_simps [simp]:
  "steady []" "steady (xs @ ys) \<longleftrightarrow> steady xs \<and> steady ys"
  "steady [ob] \<longleftrightarrow> (go_ok ob \<longrightarrow> f_less (go_dev ob) REST_ACC_DEV_MAX)"
  by (auto simp: steady_def)

lemma calm_Nil [simp]: "calm []"
  by (simp add: calm_def)

lemma calm_snoc:
  "calm (obs @ [ob]) \<longleftrightarrow> calm obs \<and> bad_tail (obs @ [ob]) < 3 \<and> (obs = [] \<or> \<not> go_reseed ob)"
proof -
  have "(\<forall>n \<le> length (obs @ [ob]). bad_tail (take n (obs @ [ob])) < 3) \<longleftrightarrow>
    (\<forall>n \<le> length obs. bad_tail (take n obs) < 3) \<and> bad_tail (obs @ [ob]) < 3"
    by (auto simp: le_Suc_eq simp del: bad_tail_snoc)
  then show ?thesis by (cases obs) (auto simp: calm_def)
qed

lemma gate_inv_empty:
  assumes "\<not> g_rest s" and "g_rest_sustain_s s = 0"
  shows "gate_inv F h s"
  unfolding gate_inv_def gate_window_def using assms
  by (intro conjI impI exI [of _ h] exI [of _ "[]"]) simp_all

lemma rested_snoc: "rested F w \<Longrightarrow> rested F (w @ [ob])"
  unfolding rested_def by (metis append_assoc)

lemma rested_all: "steady w \<Longrightarrow> f_le REST_SUSTAIN_S (rest_sum F w) \<Longrightarrow> rested F w"
  unfolding rested_def by (intro exI [of _ w] exI [of _ "[]"]) simp

text \<open>The gate on each branch, after the restart that \<open>g_reseed\<close> asks for.\<close>

definition gate_restart :: "'v htk_fusion \<Rightarrow> 'v htk_fusion" where
  "gate_restart s = (if g_reseed s then s\<lparr>g_rest_sustain_s := 0, g_rest := False, g_bad_run := 0\<rparr> else s)"

lemma rest_gate_eqs:
  "g_rest (gate_restart s) \<Longrightarrow> rest_gate F True dev dt s = (gate_restart s)\<lparr>g_bad_run := 0\<rparr>"
  "\<not> g_rest (gate_restart s) \<Longrightarrow> \<not> f_less dev REST_ACC_DEV_MAX \<Longrightarrow>
     rest_gate F True dev dt s = (gate_restart s)\<lparr>g_bad_run := 0, g_rest_sustain_s := 0\<rparr>"
  "\<not> g_rest (gate_restart s) \<Longrightarrow> f_less dev REST_ACC_DEV_MAX \<Longrightarrow> rest_gate F True dev dt s =
     (let sum = f_add F (g_rest_sustain_s (gate_restart s)) dt; t = (gate_restart s)\<lparr>g_bad_run := 0, g_rest_sustain_s := sum\<rparr> in
      if f_le REST_SUSTAIN_S sum then t\<lparr>g_rest := True\<rparr> else t)"
  "rest_gate F False dev dt s =
     (let t = (gate_restart s)\<lparr>g_bad_run := g_bad_run (gate_restart s) + 1\<rparr> in
      if g_bad_run (gate_restart s) + 1 \<ge> 3 then t\<lparr>g_rest_sustain_s := 0, g_rest := False\<rparr> else t)"
  by (simp_all add: rest_gate_def gate_restart_def [symmetric] REST_BAD_RUN_DROP_def Let_def)

text \<open>The window grows with an observation that does not close it.\<close>

lemma window_good:
  assumes "gate_window F w (gate_restart s)" and "calm (w @ [ob])" and "go_ok ob"
    and "g_rest (gate_restart s) \<or> f_less (go_dev ob) REST_ACC_DEV_MAX"
  shows "gate_window F (w @ [ob]) (rest_gate F True (go_dev ob) (go_dt ob) s)"
proof (cases "g_rest (gate_restart s)")
  case True
  with assms show ?thesis by (simp add: rest_gate_eqs gate_window_def rested_snoc)
next
  case False
  with assms have st: "steady (w @ [ob])" "f_add F (g_rest_sustain_s (gate_restart s)) (go_dt ob) = rest_sum F (w @ [ob])"
    by (simp_all add: gate_window_def)
  with False assms rested_all [OF st(1), of F] show ?thesis
    by (simp add: rest_gate_eqs gate_window_def Let_def del: rest_sum_snoc)
qed

lemma window_bad:
  assumes "gate_window F w s" and "calm (w @ [ob])" and "\<not> go_ok ob" and "g_bad_run s < 3"
  shows "gate_window F (w @ [ob]) (s\<lparr>g_bad_run := g_bad_run s + 1\<rparr>)"
proof -
  have "unat (g_bad_run s + 1) = Suc (unat (g_bad_run s))"
    using assms(4) by (simp add: word_less_nat_alt unat_word_ariths)
  with assms show ?thesis by (simp add: gate_window_def rested_snoc)
qed

lemma window_calm:
  assumes "gate_window F w s" and "w = [] \<or> \<not> go_reseed ob" and "go_ok ob \<or> g_bad_run s + 1 < 3" and "g_bad_run s < 3"
  shows "calm (w @ [ob])"
proof -
  have "unat (g_bad_run s + 1) = Suc (unat (g_bad_run s))"
    using assms(4) by (simp add: word_less_nat_alt unat_word_ariths)
  with assms show ?thesis by (auto simp: calm_snoc gate_window_def word_less_nat_alt)
qed

text \<open>One run of the gate appends its observation to the history.\<close>

lemma rest_gate_inv:
  assumes "gate_inv F h s" and "go_reseed ob = g_reseed s"
  shows "gate_inv F (h @ [ob]) (rest_gate F (go_ok ob) (go_dev ob) (go_dt ob) s)"
proof -
  let ?r = "gate_restart s" and ?s = "rest_gate F (go_ok ob) (go_dev ob) (go_dt ob) s"
  have inv0: "g_bad_run ?r \<ge> 3 \<longrightarrow> \<not> g_rest ?r \<and> g_rest_sustain_s ?r = 0"
    using assms(1) by (simp add: gate_inv_def gate_restart_def)
  obtain a w where w: "h = a @ w" "gate_window F w ?r" "w = [] \<or> \<not> go_reseed ob"
  proof (cases "g_reseed s")
    case True
    then show ?thesis by (intro that [of h "[]"]) (simp_all add: gate_window_def gate_restart_def)
  next
    case False
    with assms that show ?thesis by (auto simp: gate_inv_def gate_restart_def)
  qed
  have win: "gate_inv F (h @ [ob]) t" if "gate_window F (w @ [ob]) t" "g_bad_run t < 3" for t
    using that w(1) unfolding gate_inv_def by (auto simp: not_le [symmetric] intro: exI [of _ a])
  consider (still) "go_ok ob" "g_rest ?r \<or> f_less (go_dev ob) REST_ACC_DEV_MAX"
    | (moving) "go_ok ob" "\<not> g_rest ?r" "\<not> f_less (go_dev ob) REST_ACC_DEV_MAX"
    | (drop) "\<not> go_ok ob" "g_bad_run ?r + 1 \<ge> 3 \<or> g_bad_run ?r \<ge> 3"
    | (bad) "\<not> go_ok ob" "g_bad_run ?r + 1 < 3" "g_bad_run ?r < 3"
    by (meson not_le)
  then show ?thesis
  proof cases
    case still
    have "calm (w @ [ob])" using w(2,3) still(1) by (auto simp: calm_snoc gate_window_def)
    with still w window_good [of F w s ob] have "gate_window F (w @ [ob]) ?s" by simp
    moreover have "g_bad_run ?s = 0" using still by (cases "g_rest ?r") (auto simp: rest_gate_eqs Let_def)
    ultimately show ?thesis by (intro win) simp_all
  next
    case moving
    then show ?thesis by (intro gate_inv_empty) (simp_all add: rest_gate_eqs)
  next
    case drop
    with inv0 show ?thesis by (intro gate_inv_empty) (auto simp: rest_gate_eqs Let_def)
  next
    case bad
    with w window_calm [OF w(2)] window_bad [OF w(2)] have "gate_window F (w @ [ob]) (?r\<lparr>g_bad_run := g_bad_run ?r + 1\<rparr>)"
      by blast
    from win [OF this] bad show ?thesis by (simp add: rest_gate_eqs Let_def not_le [symmetric])
  qed
qed

subsection \<open>Histories of the wrapper\<close>

datatype fusion_event =
    FUpdate vec3 vec3 u32
  | FReset
  | FSuspend
  | FResume
  | FSetRate f32
  | FGetDebug

definition fusion_obs :: "float_ops \<Rightarrow> ('v, 't) vqf_ops \<Rightarrow> vec3 \<Rightarrow> vec3 \<Rightarrow> u32 \<Rightarrow> 'v htk_fusion \<Rightarrow> gate_obs" where
  "fusion_obs F V gyr acc t s =
     (case fusion_front F V gyr acc t s of (_, dt, ok, dev, _) \<Rightarrow>
        \<lparr>go_ok = ok, go_dev = dev, go_dt = dt, go_reseed = g_reseed s\<rparr>)"

fun fusion_step ::
  "float_ops \<Rightarrow> ('v, 't) vqf_ops \<Rightarrow> fusion_event \<Rightarrow> gate_obs list \<times> 'v htk_fusion \<Rightarrow> (gate_obs list \<times> 'v htk_fusion) option" where
  "fusion_step F V (FUpdate gyr acc t) (h, s) =
     map_option (\<lambda>(q, s'). (h @ [fusion_obs F V gyr acc t s], s')) (htk_fusion_update F V gyr acc t s)"
| "fusion_step F V FReset (h, s) = Some (h, htk_fusion_reset V s)"
| "fusion_step F V FSuspend (h, s) = Some (h, htk_fusion_suspend V s)"
| "fusion_step F V FResume (h, s) = Some (h, htk_fusion_resume V s)"
| "fusion_step F V (FSetRate hz) (h, s) = Some (h, htk_fusion_set_sample_rate F V hz s)"
| "fusion_step F V FGetDebug (h, s) = Some (h, snd (htk_fusion_get_debug F s))"

fun fusion_run ::
  "float_ops \<Rightarrow> ('v, 't) vqf_ops \<Rightarrow> fusion_event list \<Rightarrow> gate_obs list \<times> 'v htk_fusion \<Rightarrow> (gate_obs list \<times> 'v htk_fusion) option" where
  "fusion_run F V [] x = Some x"
| "fusion_run F V (ev # evs) x = Option.bind (fusion_step F V ev x) (fusion_run F V evs)"

lemma gate_inv_view: "gate_view s = gate_view s' \<Longrightarrow> gate_inv F h s = gate_inv F h s'"
  by (simp add: gate_view_def gate_inv_def gate_window_def)

lemma bind_SomeE:
  assumes "Option.bind x f = Some y" obtains z where "x = Some z" "f z = Some y"
  using assms by (cases x) simp_all

text \<open>The servo either tracks or moves the offset by a clamped error.\<close>

definition servo_slew :: "float_ops \<Rightarrow> f32 \<Rightarrow> f32" where
  "servo_slew F dt = f_mul F (f_mul F HTK_YAWHOLD_SLEW_DPS kDeg2Rad) dt"

definition servo_clamp :: "f32 \<Rightarrow> f32 \<Rightarrow> f32" where
  "servo_clamp slew err = (if f_less slew err then slew else if f_less err (f_neg slew) then f_neg slew else err)"

lemma yaw_hold_cases:
  assumes "yaw_hold F dt phi s = Some s'"
  obtains (track) psi where "g_reseed s \<or> \<not> g_rest s" "s' = s\<lparr>g_psi_ref := psi, g_reseed := False\<rparr>"
  | (hold) psi err hold where "\<not> g_reseed s" "g_rest s" "wrap_pi F (f_add F (g_psi_hold s) phi) = Some psi"
      "wrap_pi F (f_sub F (g_psi_ref s) psi) = Some err"
      "wrap_pi F (f_add F (g_psi_hold s) (servo_clamp (servo_slew F dt) err)) = Some hold"
      "s' = s\<lparr>g_psi_hold := hold, g_reseed := False\<rparr>"
proof -
  from assms obtain psi where psi: "wrap_pi F (f_add F (g_psi_hold s) phi) = Some psi"
    and rest: "(if g_reseed s \<or> \<not> g_rest s then Some (s\<lparr>g_psi_ref := psi, g_reseed := False\<rparr>)
       else Option.bind (wrap_pi F (f_sub F (g_psi_ref s) psi)) (\<lambda>err.
              Option.bind (wrap_pi F (f_add F (g_psi_hold s) (servo_clamp (servo_slew F dt) err))) (\<lambda>hold.
                Option.bind (wrap_pi F (f_add F hold phi)) (\<lambda>_. Some (s\<lparr>g_psi_hold := hold, g_reseed := False\<rparr>)))))
       = Some s'"
    unfolding yaw_hold_def Let_def servo_slew_def [symmetric] servo_clamp_def [symmetric] by (rule bind_SomeE)
  show thesis
  proof (cases "g_reseed s \<or> \<not> g_rest s")
    case True
    then have "s' = s\<lparr>g_psi_ref := psi, g_reseed := False\<rparr>"
      using rest by (simp only: if_True option.inject)
    with True show thesis by (rule track)
  next
    case False
    then have "Option.bind (wrap_pi F (f_sub F (g_psi_ref s) psi)) (\<lambda>err.
              Option.bind (wrap_pi F (f_add F (g_psi_hold s) (servo_clamp (servo_slew F dt) err))) (\<lambda>hold.
                Option.bind (wrap_pi F (f_add F hold phi)) (\<lambda>_. Some (s\<lparr>g_psi_hold := hold, g_reseed := False\<rparr>))))
       = Some s'" using rest by (simp only: if_False)
    then show thesis using False psi
      by (elim bind_SomeE) (rule hold, simp_all only: option.inject, blast+)
  qed
qed

lemma yaw_hold_gate:
  assumes "yaw_hold F dt phi s = Some s'"
  shows "g_rest s' = g_rest s" and "gate_inv F h s' = gate_inv F h s"
  using assms by (cases rule: yaw_hold_cases; simp add: gate_inv_def gate_window_def)+

lemma update_stages:
  assumes "htk_fusion_update F V gyr acc t s = Some (q, s')"
  obtains quat dt ok dev s1 phi where
    "fusion_front F V gyr acc t s = (quat, dt, ok, dev, s1)" and "heading_angle F quat = Some phi"
    and "yaw_hold F dt phi (rest_gate F ok dev dt s1) = Some s'"
    and "q = renormalize F (apply_yaw F (g_psi_hold s') quat)"
proof -
  obtain quat dt ok dev s1 where front: "fusion_front F V gyr acc t s = (quat, dt, ok, dev, s1)"
    by (rule prod_cases5)
  let ?out = "\<lambda>phi. map_option (\<lambda>s. (renormalize F (apply_yaw F (g_psi_hold s) quat), s))
    (yaw_hold F dt phi (rest_gate F ok dev dt s1))"
  have "Option.bind (heading_angle F quat) ?out = Some (q, s')"
    using assms by (simp only: htk_fusion_update_def front prod.case Let_def)
  then obtain phi where phi: "heading_angle F quat = Some phi" and "?out phi = Some (q, s')"
    by (rule bind_SomeE)
  then have "yaw_hold F dt phi (rest_gate F ok dev dt s1) = Some s'"
    "q = renormalize F (apply_yaw F (g_psi_hold s') quat)"
    by (simp_all only: map_option_eq_Some prod.inject) (elim exE conjE, simp)+
  with front phi that show ?thesis by blast
qed

lemma fusion_step_inv:
  assumes "fusion_step F V ev (h, s) = Some (h', s')" and "gate_inv F h s"
  shows "gate_inv F h' s'"
proof (cases ev)
  case (FUpdate gyr acc t)
  with assms(1) obtain q where up: "htk_fusion_update F V gyr acc t s = Some (q, s')"
    and h': "h' = h @ [fusion_obs F V gyr acc t s]" by auto
  from up obtain quat dt ok dev s1 phi where front: "fusion_front F V gyr acc t s = (quat, dt, ok, dev, s1)"
    and "yaw_hold F dt phi (rest_gate F ok dev dt s1) = Some s'" by (rule update_stages)
  note view = front_view(1) [OF front]
  have "gate_inv F h s1" using gate_inv_view [OF view] assms(2) by simp
  from rest_gate_inv [OF this, of "fusion_obs F V gyr acc t s"] front view
  have "gate_inv F h' (rest_gate F ok dev dt s1)" by (simp add: fusion_obs_def h' gate_view_def)
  with yaw_hold_gate(2) [OF \<open>yaw_hold F dt phi _ = _\<close>] show ?thesis by simp
next
  case FReset
  with assms show ?thesis by (auto simp: htk_fusion_reset_def intro!: gate_inv_empty)
next
  case FSuspend
  have "gate_view (htk_fusion_suspend V s) = gate_view s"
    by (simp add: htk_fusion_suspend_def gate_view_def split: prod.split)
  with FSuspend assms gate_inv_view show ?thesis by fastforce
next
  case FResume
  with assms show ?thesis by (auto simp: htk_fusion_resume_def Let_def split: if_splits intro!: gate_inv_empty)
next
  case (FSetRate hz)
  have "gate_view (htk_fusion_set_sample_rate F V hz s) = gate_view s"
    by (simp add: htk_fusion_set_sample_rate_def gate_view_def Let_def)
  with FSetRate assms gate_inv_view show ?thesis by fastforce
next
  case FGetDebug
  have "gate_view (snd (htk_fusion_get_debug F s)) = gate_view s"
    by (simp add: htk_fusion_get_debug_def gate_view_def)
  with FGetDebug assms gate_inv_view show ?thesis by fastforce
qed

lemma fusion_run_inv:
  "fusion_run F V evs (h, s) = Some (h', s') \<Longrightarrow> gate_inv F h s \<Longrightarrow> gate_inv F h' s'"
proof (induction evs arbitrary: h s)
  case (Cons ev evs)
  from Cons.prems(1) obtain h1 s1 where "fusion_step F V ev (h, s) = Some (h1, s1)"
    "fusion_run F V evs (h1, s1) = Some (h', s')" by (auto simp: bind_eq_Some_conv)
  with Cons.IH fusion_step_inv Cons.prems(2) show ?case by blast
qed simp

lemma gate_inv_init: "gate_inv F [] (htk_fusion_init F V hz s)"
  by (rule gate_inv_empty) (simp_all add: htk_fusion_init_def Let_def)

subsection \<open>Properties\<close>

text \<open>C20. REST is never reported of a moving head: whatever the filter answers, whatever the arithmetic and in
  whatever order updates, resets, suspensions and rate changes come, if the gate reports rest then the
  updates end in a stretch without a restart of the gate and without three violations in a row, and within
  it, before rest was declared, every good sample had a comfortable accelerometer deviation and the time
  steps of the good samples added up to at least two seconds.\<close>

theorem rest_reported_only_at_rest:
  assumes "fusion_run F V evs ([], htk_fusion_init F V hz (htk_fusion_boot v)) = Some (hist, s)"
    and "htk_fusion_rest s"
  shows "\<exists>a b c. hist = a @ b @ c \<and> calm (b @ c) \<and> steady b \<and> f_le REST_SUSTAIN_S (rest_sum F b)"
  using fusion_run_inv [OF assms(1) gate_inv_init] assms(2)
  unfolding gate_inv_def gate_window_def rested_def htk_fusion_rest_def by metis

text \<open>A filter that is always at rest, for evaluation.\<close>

definition still_vqf :: "(vec3 \<times> f32, unit) vqf_ops" where
  "still_vqf = \<lparr>vqf_new = (\<lambda>_. ((0, 0, 0), 0)), vqf_updateGyr = (\<lambda>_ v. v), vqf_updateAcc = (\<lambda>_ v. v),
     vqf_getQuat6D = (\<lambda>_. (0x3F800000, 0, 0, 0)), vqf_getBiasEstimate = (\<lambda>v. v),
     vqf_setBiasEstimate = (\<lambda>b sg v. (b, sg)), vqf_getRelativeRestDeviations = (\<lambda>_. (0, 0)),
     vqf_getRestDetected = (\<lambda>_. True), vqf_getState = (\<lambda>_. ()), vqf_setState = (\<lambda>_ v. v), vqf_resetState = (\<lambda>v. v)\<rparr>"

lemma wrap_pi_inside: "\<not> f_less kPi a \<Longrightarrow> \<not> f_less a (f_neg kPi) \<Longrightarrow> wrap_pi F a = Some a"
  by (simp add: wrap_pi_def wrap_down.simps wrap_up.simps)

definition still_run :: "gate_obs list \<times> (vec3 \<times> f32) htk_fusion" where
  "still_run = the (fusion_run (toy_ops\<lparr>f_div := \<lambda>x y. 0x40000000\<rparr>) still_vqf [FUpdate (0, 0, 0) (0, 0, 0) 7]
     ([], htk_fusion_init (toy_ops\<lparr>f_div := \<lambda>x y. 0x40000000\<rparr>) still_vqf 0x3F000000 (htk_fusion_boot ((0, 0, 0), 0))))"

theorem rest_reported_only_at_rest_witness:
  "htk_fusion_rest (snd still_run) \<and>
   (\<exists>a b c. fst still_run = a @ b @ c \<and> calm (b @ c) \<and> steady b \<and>
      f_le REST_SUSTAIN_S (rest_sum (toy_ops\<lparr>f_div := \<lambda>x y. 0x40000000\<rparr>) b))"
proof -
  let ?F = "toy_ops\<lparr>f_div := \<lambda>x y. 0x40000000\<rparr>"
  let ?run = "fusion_run ?F still_vqf [FUpdate (0, 0, 0) (0, 0, 0) 7]
     ([], htk_fusion_init ?F still_vqf 0x3F000000 (htk_fusion_boot ((0, 0, 0), 0)))"
  have e: "?run \<noteq> None" and r: "htk_fusion_rest (snd still_run)" by code_simp+
  from e have "?run = Some (fst still_run, snd still_run)" by (auto simp: still_run_def)
  from rest_reported_only_at_rest [OF this r] r show ?thesis by blast
qed

text \<open>C24. The yaw-hold servo cannot swallow a turn: in one update the offset either stays what it was, bit for bit, or
  the gate holds and has not just been restarted, and the offset moves by an error clamped to the slew
  limit for the time step, which is the nominal one unless the measured one lies between half and four
  times of it.\<close>

theorem yaw_hold_moves_slowly:
  fixes s :: "'v htk_fusion" and F :: float_ops and t :: u32
  assumes "htk_fusion_update F V gyr acc t s = Some (q, s')"
  defines "nom \<equiv> g_nominal_dt s" and "dt \<equiv> fusion_dt F t s"
  shows "(g_psi_hold s' = g_psi_hold s \<or>
     g_rest s' \<and> \<not> g_reseed s \<and>
     (\<exists>err. wrap_pi F (f_add F (g_psi_hold s) err) = Some (g_psi_hold s') \<and>
        (f_le 0 (servo_slew F dt) \<longrightarrow>
           f_nan err \<or> f_le (f_neg (servo_slew F dt)) err \<and> f_le err (servo_slew F dt)))) \<and>
    (dt = nom \<or> \<not> f_less dt (f_mul F 0x3F000000 nom) \<and> \<not> f_less (f_mul F 0x40800000 nom) dt)"
proof (rule conjI)
  from assms(1) obtain quat d ok dev s1 phi where front: "fusion_front F V gyr acc t s = (quat, d, ok, dev, s1)"
    and yaw: "yaw_hold F d phi (rest_gate F ok dev d s1) = Some s'" by (rule update_stages)
  let ?s2 = "rest_gate F ok dev d s1"
  have view: "g_psi_hold s1 = g_psi_hold s" "g_reseed s1 = g_reseed s" "d = dt"
    using front_view [OF front] by (simp_all add: gate_view_def dt_def)
  have s2: "g_psi_hold ?s2 = g_psi_hold s1" "g_reseed ?s2 = g_reseed s1"
    by (simp_all add: rest_gate_def Let_def)
  have bound: "f_le 0 sl \<Longrightarrow> f_nan (servo_clamp sl e) \<or> f_le (f_neg sl) (servo_clamp sl e) \<and> f_le (servo_clamp sl e) sl" for sl e
    by (auto simp: servo_clamp_def f_le_def f_less_def)
  from yaw show "g_psi_hold s' = g_psi_hold s \<or>
     g_rest s' \<and> \<not> g_reseed s \<and>
     (\<exists>err. wrap_pi F (f_add F (g_psi_hold s) err) = Some (g_psi_hold s') \<and>
        (f_le 0 (servo_slew F dt) \<longrightarrow>
           f_nan err \<or> f_le (f_neg (servo_slew F dt)) err \<and> f_le err (servo_slew F dt)))"
  proof (cases rule: yaw_hold_cases)
    case (track psi)
    with s2 view show ?thesis by simp
  next
    case (hold psi err psi')
    with bound [of "servo_slew F dt" err] show ?thesis
      using s2 view by (intro disjI2 conjI exI [of _ "servo_clamp (servo_slew F dt) err"]) simp_all
  qed
  show "dt = nom \<or> \<not> f_less dt (f_mul F 0x3F000000 nom) \<and> \<not> f_less (f_mul F 0x40800000 nom) dt"
    by (simp add: dt_def nom_def fusion_dt_def Let_def)
qed

theorem yaw_hold_moves_slowly_witness:
  "\<exists>q s' err. htk_fusion_update toy_ops still_vqf (0, 0, 0) (0, 0, 0) 9
       ((htk_fusion_boot ((0, 0, 0), 0))\<lparr>g_rest := True, g_psi_ref := 0x40000000, g_coarse_done := True\<rparr>) = Some (q, s') \<and>
     g_psi_hold s' = 0x3DCCCCCD \<and> wrap_pi toy_ops (f_add toy_ops 0 err) = Some (g_psi_hold s')"
proof -
  let ?s = "(htk_fusion_boot ((0, 0, 0), 0))\<lparr>g_rest := True, g_psi_ref := 0x40000000, g_coarse_done := True\<rparr>"
  let ?up = "htk_fusion_update toy_ops still_vqf (0, 0, 0) (0, 0, 0) 9 ?s"
  have e: "?up \<noteq> None" and h: "g_psi_hold (snd (the ?up)) = 0x3DCCCCCD" "g_psi_hold ?s = 0" by code_simp+
  from e have up: "?up = Some (fst (the ?up), snd (the ?up))" by auto
  have "(0x3DCCCCCD :: f32) \<noteq> 0" by simp
  with conjunct1 [OF yaw_hold_moves_slowly [OF up]] obtain err where
    "wrap_pi toy_ops (f_add toy_ops 0 err) = Some (g_psi_hold (snd (the ?up)))" unfolding h by blast
  with up h show ?thesis by metis
qed

text \<open>BIAS_OK is a hysteresis: after any sequence of uncertainties it is set exactly if the last one that lies
  outside the band between the two thresholds was below the lower one (or, if there was none outside, if it
  was set before).\<close>

theorem bias_ok_hysteresis:
  "g_bias_ok (fold (update_bias_ok F) sigmas s) \<longleftrightarrow>
     (case filter (\<lambda>x. f_less x BIAS_OK_SET_DPS \<or> f_less BIAS_OK_CLEAR_DPS x)
        (map (\<lambda>x. f_div F x kDeg2Rad) sigmas) of
        [] \<Rightarrow> g_bias_ok s
      | x # xs \<Rightarrow> f_less (last (x # xs)) BIAS_OK_SET_DPS)"
proof (induction sigmas arbitrary: s)
  case (Cons sg sigmas)
  have gap: "f_less x BIAS_OK_SET_DPS \<Longrightarrow> \<not> f_less BIAS_OK_CLEAR_DPS x" for x
  proof -
    have "\<not> f_less BIAS_OK_CLEAR_DPS BIAS_OK_SET_DPS" by code_simp
    then show "f_less x BIAS_OK_SET_DPS \<Longrightarrow> \<not> f_less BIAS_OK_CLEAR_DPS x" using f_less_trans by blast
  qed
  show ?case unfolding list.map fold_Cons comp_apply Cons.IH
    by (auto simp: update_bias_ok_def Let_def gap split: list.split)
qed simp

subsection \<open>What the wrapper relies on\<close>

text \<open>
  The laws of the filter that the wrapper needs when it suspends, resumes or changes the sample rate: a bias that is
  set is the bias of the filter, and a state that is put into another filter carries bias and attitude with it.
\<close>

locale gyro_filter =
  fixes V :: "('v, 't) vqf_ops"
  assumes set_bias: "fst (vqf_getBiasEstimate V (vqf_setBiasEstimate V b sg v)) = b"
    and move_bias: "fst (vqf_getBiasEstimate V (vqf_setState V (vqf_getState V v) w)) = fst (vqf_getBiasEstimate V v)"
    and move_quat: "vqf_getQuat6D V (vqf_setState V (vqf_getState V v) w) = vqf_getQuat6D V v"
begin

lemma standby:
  fixes s :: "'v htk_fusion"
  defines "r \<equiv> htk_fusion_resume V (htk_fusion_suspend V s)"
  shows "fst (vqf_getBiasEstimate V (filt r)) = fst (vqf_getBiasEstimate V (filt s))"
    and "g_bias_prev r = fst (vqf_getBiasEstimate V (filt s))" and "g_bias_latched r = g_bias_latched s"
    and "g_psi_hold r = g_psi_hold s" and "\<not> htk_fusion_rest r" and "g_reseed r" and "htk_fusion_resume V r = r"
  by (simp_all add: r_def htk_fusion_resume_def htk_fusion_suspend_def htk_fusion_rest_def Let_def set_bias split: prod.split)

lemma rate_change:
  "fst (vqf_getBiasEstimate V (filt (htk_fusion_set_sample_rate F V hz s))) = fst (vqf_getBiasEstimate V (filt s))"
  "vqf_getQuat6D V (filt (htk_fusion_set_sample_rate F V hz s)) = vqf_getQuat6D V (filt s)"
  by (simp_all add: htk_fusion_set_sample_rate_def Let_def move_bias move_quat)

end

end
