(* ===== verification/Head_Main.thy ===== *)
theory Head_Main
  imports Head_Radio Head_Leds Tapdet Fusion Commands
begin

text \<open>
  The head unit's application, \<^verbatim>\<open>firmware/app_head/src/main.c\<close>: the IMU with its four-place queue, the fusion
  thread, the commands in beacons, the self-report and the power-state machine of the control loop.

  The sensor with its bus is a parameter \<open>dev\<close> that answers calls with an error code and, for a register
  read, a byte. The reading of a sample, the radio driver, the queues, the filter and the float
  operations are parameters as in the theories below this one.
\<close>

subsection \<open>Constants\<close>

definition IMU_ODR_HZ :: u16 where [code_defs, simp]: "IMU_ODR_HZ = 416"
definition RAW_FS_BYTE :: u8 where "RAW_FS_BYTE = HTK_FS_MAKE HTK_FS_GYRO_2000DPS HTK_FS_ACC_4G"

text \<open>\<^verbatim>\<open>1.0f / (0.070f * 3.14159265f / 180.0f)\<close> and \<^verbatim>\<open>1.0f / (0.000122f * 9.80665f)\<close>.\<close>

definition GYRO_LSB_PER_RAD_S :: "float_ops \<Rightarrow> f32" where
  "GYRO_LSB_PER_RAD_S F = f_div F 0x3F800000 (f_div F (f_mul F 0x3D8F5C29 0x40490FDB) 0x43340000)"

definition ACC_LSB_PER_MS2 :: "float_ops \<Rightarrow> f32" where
  "ACC_LSB_PER_MS2 F = f_div F 0x3F800000 (f_mul F 0x38FFDA40 0x411CE80A)"

definition LSM6_REG_CTRL3_C :: u8 where [code_defs]: "LSM6_REG_CTRL3_C = 0x12"
definition LSM6_SW_RESET :: u8 where [code_defs]: "LSM6_SW_RESET = 1"

definition ETIMEDOUT :: int where [code_defs]: "ETIMEDOUT = 116"

subsection \<open>State\<close>

record imu_sample =
  is_t_us :: u32
  is_gyr :: vec3
  is_acc :: vec3
  is_rgyr :: "u16 \<times> u16 \<times> u16"
  is_racc :: "u16 \<times> u16 \<times> u16"

datatype run_state = ST_ACTIVE | ST_STANDBY

text \<open>The local variables of the fusion thread, with its one static variable.\<close>

record fusion_thread =
  th_decim :: u32
  th_tapdet :: htk_tapdet
  tap_until_ms :: int
  odr_prev_t :: u32
  odr_sum_us :: u64
  odr_n :: u32
  odr_have_prev :: bool
  rate_corrected :: bool

text \<open>
  Where the control thread is: before \<^verbatim>\<open>main\<close>, returned from it with an error, in the sleep between two
  windows, or in the window itself, with the result of opening it.
\<close>

datatype head_pc = NotStarted | Halted int | Sleeping | Listening int

record ('q, 'm, 'v, 'd, 'i) head =
  hd_radio :: "'q head_radio"
  hd_esb :: 'd
  hd_imu :: 'i
  imu_msgq :: 'm
  imu_drops :: u32
  my_id :: u16
  tx_seq :: u16
  g_mode :: u8
  g_rate_hz :: u16
  g_tx_div :: u32
  g_streaming :: bool
  hd_fusion :: "'v htk_fusion"
  hd_thread :: fusion_thread
  hd_leds :: head_leds
  hd_pc :: head_pc
  hd_state :: run_state
  last_beacon :: int
  last_tstatus :: int

subsection \<open>Identity\<close>

definition tracker_id :: "u32 \<Rightarrow> u16" where
  "tracker_id deviceaddr =
     (let tid = ucast (deviceaddr AND 0xFFFF) in
      if tid = HTK_ID_INVALID then 1 else if tid = HTK_ID_SIM then 0xFFFE else tid)"

subsection \<open>The IMU\<close>

definition clamp_i16 :: "f32 \<Rightarrow> u16" where
  "clamp_i16 v =
     (if f_less 0x46FFFE00 v then 0x7FFF          \<comment> \<open>32767.0\<close>
      else if f_less v 0xC7000000 then 0x8000     \<comment> \<open>-32768.0\<close>
      else word_of_int (f_trunc v))"

fun clamp3 :: "float_ops \<Rightarrow> f32 \<Rightarrow> vec3 \<Rightarrow> u16 \<times> u16 \<times> u16" where
  "clamp3 F k (x, y, z) = (clamp_i16 (f_mul F x k), clamp_i16 (f_mul F y k), clamp_i16 (f_mul F z k))"

text \<open>\<open>reading\<close> is \<open>None\<close> when the fetch or one of the two channels fails.\<close>

definition imu_drdy ::
  "float_ops \<Rightarrow> (imu_sample, 'm) msgq_ops \<Rightarrow> u32 \<Rightarrow> (vec3 \<times> vec3) option \<Rightarrow>
   ('q, 'm, 'v, 'd, 'i) head \<Rightarrow> ('q, 'm, 'v, 'd, 'i) head" where
  "imu_drdy F mq t_us reading h =
     (case reading of
        None \<Rightarrow> h
      | Some (g, a) \<Rightarrow>
          (let s = \<lparr>is_t_us = t_us, is_gyr = g, is_acc = a, is_rgyr = clamp3 F (GYRO_LSB_PER_RAD_S F) g,
                    is_racc = clamp3 F (ACC_LSB_PER_MS2 F) a\<rparr> in
           case msgq_put mq s (imu_msgq h) of (ok, q) \<Rightarrow>
             if ok then h\<lparr>imu_msgq := q\<rparr>
             else
               (case msgq_get mq q of (_, q) \<Rightarrow> case msgq_put mq s q of (_, q) \<Rightarrow>
                  h\<lparr>imu_msgq := q, imu_drops := imu_drops h + 1\<rparr>)))"

datatype sensor_chan = SENSOR_CHAN_ACCEL_XYZ | SENSOR_CHAN_GYRO_XYZ

datatype imu_call =
    ImuReady
  | ImuDeviceInit
  | SetOdr sensor_chan u16
  | TriggerSet sensor_chan
  | BusReady
  | RecoverBus
  | RegWrite u8 u8
  | RegRead u8
  | BusyWaitUs nat
  | SleepMs nat

type_synonym 'i imu_dev = "imu_call \<Rightarrow> 'i \<Rightarrow> (int \<times> u8) \<times> 'i"

definition ask :: "'i imu_dev \<Rightarrow> imu_call \<Rightarrow> 'i \<Rightarrow> int \<times> 'i" where
  "ask dev c i = (case dev c i of ((err, _), i) \<Rightarrow> (err, i))"

definition imu_set_odr :: "'i imu_dev \<Rightarrow> u16 \<Rightarrow> 'i \<Rightarrow> int \<times> 'i" where
  "imu_set_odr dev hz i =
     (case ask dev (SetOdr SENSOR_CHAN_ACCEL_XYZ hz) i of (err, i) \<Rightarrow>
        if err = 0 then ask dev (SetOdr SENSOR_CHAN_GYRO_XYZ hz) i else (err, i))"

text \<open>The polling loop, with \<open>n\<close> polls left.\<close>

fun imu_poll :: "'i imu_dev \<Rightarrow> nat \<Rightarrow> 'i \<Rightarrow> int \<times> 'i" where
  "imu_poll dev 0 i = (- ETIMEDOUT, i)"
| "imu_poll dev (Suc n) i =
     (case ask dev (BusyWaitUs 50) i of (_, i) \<Rightarrow>
      case dev (RegRead LSM6_REG_CTRL3_C) i of ((err, v), i) \<Rightarrow>
        if err = 0 \<and> v AND LSM6_SW_RESET = 0 then (0, i) else imu_poll dev n i)"

definition imu_force_reset :: "'i imu_dev \<Rightarrow> 'i \<Rightarrow> int \<times> 'i" where
  "imu_force_reset dev i =
     (case ask dev BusReady i of (ready, i) \<Rightarrow>
        if ready = 0 then (- head_ENODEV, i)
        else
          (case ask dev RecoverBus i of (_, i) \<Rightarrow>
           case ask dev (RegWrite LSM6_REG_CTRL3_C LSM6_SW_RESET) i of (err, i) \<Rightarrow>
             if err \<noteq> 0 then (err, i) else imu_poll dev 100 i))"

text \<open>The loop over the attempts, with \<open>n\<close> of them left.\<close>

fun imu_attempts :: "'i imu_dev \<Rightarrow> nat \<Rightarrow> 'i \<Rightarrow> 'i" where
  "imu_attempts dev 0 i = snd (ask dev ImuReady i)"
| "imu_attempts dev (Suc n) i =
     (case ask dev ImuReady i of (ready, i) \<Rightarrow>
        if ready \<noteq> 0 then i
        else
          (case imu_force_reset dev i of (_, i) \<Rightarrow> case ask dev (SleepMs 20) i of (_, i) \<Rightarrow>
           case ask dev ImuDeviceInit i of (err, i) \<Rightarrow>
             imu_attempts dev n (if err \<noteq> 0 then snd (ask dev (SleepMs 50) i) else i)))"

definition imu_init :: "'i imu_dev \<Rightarrow> 'i \<Rightarrow> int \<times> 'i" where
  "imu_init dev i =
     (case ask dev ImuReady (imu_attempts dev 3 i) of (ready, i) \<Rightarrow>
        if ready = 0 then (- head_ENODEV, i)
        else
          (case imu_set_odr dev IMU_ODR_HZ i of (err, i) \<Rightarrow>
             if err \<noteq> 0 then (err, i) else ask dev (TriggerSet SENSOR_CHAN_ACCEL_XYZ) i))"

subsection \<open>The fusion thread\<close>

definition fusion_thread_init :: "float_ops \<Rightarrow> fusion_thread" where
  "fusion_thread_init F =
     \<lparr>th_decim = 0, th_tapdet = htk_tapdet_init F 0x43D00000 None, tap_until_ms = 0, odr_prev_t = 0,
      odr_sum_us = 0, odr_n = 0, odr_have_prev = False, rate_corrected = False\<rparr>"

text \<open>The measurement of the true sample rate, and its one-time correction of the filter.\<close>

definition odr_step ::
  "float_ops \<Rightarrow> ('v, 't) vqf_ops \<Rightarrow> u32 \<Rightarrow> fusion_thread \<times> 'v htk_fusion \<Rightarrow> fusion_thread \<times> 'v htk_fusion" where
  "odr_step F V t_us x = (case x of (th, fu) \<Rightarrow>
     let (th, fu) =
       (if odr_have_prev th then
          (let th = th\<lparr>odr_sum_us := odr_sum_us th + ucast (t_us - odr_prev_t th), odr_n := odr_n th + 1\<rparr> in
           if odr_n th = 4096 then
             (let chz = ucast ((4096 * 100000000) div odr_sum_us th) :: u32;
                  (th, fu) =
                    (if \<not> rate_corrected th \<and> (chz < 41392 \<or> chz > 41808) then
                       (th\<lparr>rate_corrected := True\<rparr>,
                        htk_fusion_set_sample_rate F V (f_div F (f_of_u32 F chz) 0x42C80000) fu)
                     else (th, fu)) in
              (th\<lparr>odr_sum_us := 0, odr_n := 0\<rparr>, snd (htk_fusion_get_debug F fu)))
           else (th, fu))
        else (th, fu)) in
     (th\<lparr>odr_prev_t := t_us, odr_have_prev := True\<rparr>, fu))"

text \<open>The packets of one transmitted sample: the flags, then ORIENT and RAW as the mode says.\<close>

definition orient_flags :: "'v htk_fusion \<Rightarrow> bool \<Rightarrow> u8" where
  "orient_flags fu tapped =
     (let flags = 0; flags = (if htk_fusion_bias_ok fu then flags OR HTK_ORIENT_BIAS_OK else flags);
          flags = (if htk_fusion_rest fu then flags OR HTK_ORIENT_REST else flags) in
      if tapped then flags OR HTK_ORIENT_TAP else flags)"

fun orient_packet :: "u16 \<Rightarrow> u16 \<Rightarrow> u32 \<Rightarrow> quat \<Rightarrow> u8 \<Rightarrow> htk_orient" where
  "orient_packet tid sq t (w, x, y, z) flags =
     \<lparr>or_type = HTK_PKT_ORIENT, or_id = tid, or_seq = sq, or_t_us = t, or_q_w = w, or_q_x = x, or_q_y = y,
      or_q_z = z, or_flags = flags\<rparr>"

definition raw_packet :: "u16 \<Rightarrow> u16 \<Rightarrow> imu_sample \<Rightarrow> htk_raw" where
  "raw_packet tid sq s =
     \<lparr>raw_type = HTK_PKT_RAW, raw_id = tid, raw_seq = sq, raw_t_us = is_t_us s, raw_gyr = is_rgyr s,
      raw_acc = is_racc s, raw_fs = RAW_FS_BYTE\<rparr>"

definition send_seq :: "'d driver \<Rightarrow> (u16 \<Rightarrow> bytes) \<Rightarrow> ('q, 'm, 'v, 'd, 'i) head \<Rightarrow> ('q, 'm, 'v, 'd, 'i) head" where
  "send_seq drv pkt h =
     (case htk_radio_send drv (pkt (tx_seq h)) (hd_radio h, hd_esb h) of (_, r, d) \<Rightarrow>
        h\<lparr>hd_radio := r, hd_esb := d, tx_seq := tx_seq h + 1\<rparr>)"

definition transmit_sample ::
  "'d driver \<Rightarrow> int \<Rightarrow> imu_sample \<Rightarrow> quat \<Rightarrow> ('q, 'm, 'v, 'd, 'i) head \<Rightarrow> ('q, 'm, 'v, 'd, 'i) head" where
  "transmit_sample drv now s q h =
     (let mode = g_mode h; flags = orient_flags (hd_fusion h) (now < tap_until_ms (hd_thread h));
          h = h\<lparr>hd_leds := leds_set_rest (htk_fusion_rest (hd_fusion h)) (hd_leds h)\<rparr>;
          h = (if mode = HTK_MODE_QUAT \<or> mode = HTK_MODE_BOTH then
                 send_seq drv (\<lambda>sq. enc_orient (orient_packet (my_id h) sq (is_t_us s) q flags)) h
               else h) in
      if mode = HTK_MODE_RAW \<or> mode = HTK_MODE_BOTH then send_seq drv (\<lambda>sq. enc_raw (raw_packet (my_id h) sq s)) h
      else h)"

text \<open>
  One round of the thread's loop: \<open>None\<close> while there is no sample, or when the filter update does not
  return. \<open>now_tap\<close> and \<open>now\<close> are its two readings of the clock.
\<close>

definition tap_round :: "float_ops \<Rightarrow> int \<Rightarrow> imu_sample \<Rightarrow> ('q, 'm, 'v, 'd, 'i) head \<Rightarrow> ('q, 'm, 'v, 'd, 'i) head" where
  "tap_round F now_tap s h =
     (let th = hd_thread h in
      case htk_tapdet_feed F (is_t_us s) (is_acc s) (th_tapdet th) of (ev, td) \<Rightarrow>
        let th = th\<lparr>th_tapdet := td\<rparr> in
        if ev then h\<lparr>hd_thread := th\<lparr>tap_until_ms := now_tap + 250\<rparr>, hd_leds := leds_tap (hd_leds h)\<rparr>
        else h\<lparr>hd_thread := th\<rparr>)"

definition stream_round :: "'d driver \<Rightarrow> int \<Rightarrow> imu_sample \<Rightarrow> quat \<Rightarrow> ('q, 'm, 'v, 'd, 'i) head \<Rightarrow> ('q, 'm, 'v, 'd, 'i) head" where
  "stream_round drv now s q h =
     (let th = hd_thread h in
      if \<not> g_streaming h then h\<lparr>hd_thread := th\<lparr>th_decim := 0\<rparr>\<rparr>
      else
        (let th = th\<lparr>th_decim := th_decim th + 1\<rparr> in
         if th_decim th < g_tx_div h then h\<lparr>hd_thread := th\<rparr>
         else transmit_sample drv now s q (h\<lparr>hd_thread := th\<lparr>th_decim := 0\<rparr>\<rparr>)))"

definition fusion_round ::
  "float_ops \<Rightarrow> ('v, 't) vqf_ops \<Rightarrow> (imu_sample, 'm) msgq_ops \<Rightarrow> 'd driver \<Rightarrow> int \<Rightarrow> int \<Rightarrow>
   ('q, 'm, 'v, 'd, 'i) head \<Rightarrow> ('q, 'm, 'v, 'd, 'i) head option" where
  "fusion_round F V mq drv now_tap now h =
     (case msgq_get mq (imu_msgq h) of
        (None, _) \<Rightarrow> None
      | (Some s, m) \<Rightarrow>
          (case odr_step F V (is_t_us s) (hd_thread h, hd_fusion h) of (th, fu) \<Rightarrow>
             let h = tap_round F now_tap s (h\<lparr>imu_msgq := m, hd_thread := th, hd_fusion := fu\<rparr>) in
             map_option (\<lambda>(q, fu). stream_round drv now s q (h\<lparr>hd_fusion := fu\<rparr>))
               (htk_fusion_update F V (is_gyr s) (is_acc s) (is_t_us s) (hd_fusion h))))"

subsection \<open>Commands\<close>

text \<open>The loop of \<^verbatim>\<open>set_rate\<close> over the supported rates.\<close>

fun nearest_rate :: "u16 \<Rightarrow> u16 list \<Rightarrow> u16 \<Rightarrow> int \<Rightarrow> u16" where
  "nearest_rate hz [] best best_d = best"
| "nearest_rate hz (r # rs) best best_d =
     (let d = (if hz > r then uint hz - uint r else uint r - uint hz) in
      if d < best_d then nearest_rate hz rs r d else nearest_rate hz rs best best_d)"

definition supported_rates :: "u16 list" where
  "supported_rates = [52, 104, 208, 416]"

definition set_rate :: "u16 \<Rightarrow> ('q, 'm, 'v, 'd, 'i) head \<Rightarrow> ('q, 'm, 'v, 'd, 'i) head" where
  "set_rate hz h =
     (let best = nearest_rate hz supported_rates 52 0x7FFFFFFF in
      h\<lparr>g_rate_hz := best, g_tx_div := ucast (IMU_ODR_HZ div best)\<rparr>)"

definition handle_beacon ::
  "('v, 't) vqf_ops \<Rightarrow> htk_beacon_rx \<Rightarrow> ('q, 'm, 'v, 'd, 'i) head \<Rightarrow> ('q, 'm, 'v, 'd, 'i) head" where
  "handle_beacon V b h =
     (let cmd = drop 2 b; len = of_nat (length b) - 2 :: u32 in
      if len = 0 then h
      else if cmd ! 0 = HTK_PKT_RESET_FUSION then
        (if len < 3 then h
         else (let c = dec_cmd_id cmd in
               if ci_id c \<noteq> my_id h then h else h\<lparr>hd_fusion := htk_fusion_reset V (hd_fusion h)\<rparr>))
      else if cmd ! 0 = HTK_PKT_SET_RATE then
        (if len < 5 then h
         else (let c = dec_set_rate cmd in if sr_id c \<noteq> my_id h then h else set_rate (sr_hz c) h))
      else if cmd ! 0 = HTK_PKT_SET_MODE then
        (if len < 4 then h
         else (let c = dec_set_mode cmd in
               if sm_id c \<noteq> my_id h \<or> sm_mode c > HTK_MODE_BOTH then h else h\<lparr>g_mode := sm_mode c\<rparr>))
      else if cmd ! 0 = HTK_PKT_IDENTIFY then
        (if len < 3 then h
         else (let c = dec_cmd_id cmd in
               if ci_id c \<noteq> my_id h then h else h\<lparr>hd_leds := leds_identify (hd_leds h)\<rparr>))
      else h)"

subsection \<open>Self-report\<close>

definition tstatus_of :: "int \<Rightarrow> ('q, 'm, 'v, 'd, 'i) head \<Rightarrow> htk_tstatus" where
  "tstatus_of now h =
     (let rd = htk_radio_get_debug (hd_radio h) in
      \<lparr>tt_type = HTK_PKT_TSTATUS, tt_id = my_id h,
       tt_vbat_mV = ucast (push_bit 8 ((if cfg_fail rd \<noteq> 0 then 0x80 else 0) OR (listens rd AND 0x7F)) OR
                           (rx_events rd AND 0xFF)),
       tt_fw_major = HTK_FW_MAJOR, tt_fw_minor = HTK_FW_MINOR, tt_fw_patch = HTK_FW_PATCH, tt_mode = g_mode h,
       tt_rate = g_rate_hz h, tt_uptime_s = word_of_int (now div 1000)\<rparr>)"

definition send_tstatus :: "'d driver \<Rightarrow> int \<Rightarrow> ('q, 'm, 'v, 'd, 'i) head \<Rightarrow> ('q, 'm, 'v, 'd, 'i) head" where
  "send_tstatus drv now h =
     (case htk_radio_send drv (enc_tstatus (tstatus_of now h)) (hd_radio h, hd_esb h) of (_, r, d) \<Rightarrow>
        h\<lparr>hd_radio := r, hd_esb := d\<rparr>)"

subsection \<open>The power-state machine\<close>

definition enter_active ::
  "'i imu_dev \<Rightarrow> ('v, 't) vqf_ops \<Rightarrow> ('q, 'm, 'v, 'd, 'i) head \<Rightarrow> ('q, 'm, 'v, 'd, 'i) head" where
  "enter_active dev V h =
     h\<lparr>hd_imu := snd (imu_set_odr dev IMU_ODR_HZ (hd_imu h)), hd_fusion := htk_fusion_resume V (hd_fusion h),
       g_streaming := True, hd_leds := leds_set_link LEDS_LINK_STREAMING (hd_leds h)\<rparr>"

definition enter_standby ::
  "'i imu_dev \<Rightarrow> ('v, 't) vqf_ops \<Rightarrow> ('q, 'm, 'v, 'd, 'i) head \<Rightarrow> ('q, 'm, 'v, 'd, 'i) head" where
  "enter_standby dev V h =
     h\<lparr>g_streaming := False, hd_fusion := htk_fusion_suspend V (hd_fusion h),
       hd_imu := snd (imu_set_odr dev 0 (hd_imu h)), hd_leds := leds_set_link LEDS_LINK_SEARCHING (hd_leds h)\<rparr>"

text \<open>The state before \<^verbatim>\<open>main\<close>; \<open>v\<close> is the memory of the filter.\<close>

definition head_boot ::
  "float_ops \<Rightarrow> 'q \<Rightarrow> 'm \<Rightarrow> 'v \<Rightarrow> 'd \<Rightarrow> 'i \<Rightarrow> ('q, 'm, 'v, 'd, 'i) head" where
  "head_boot F bq imq v d i =
     \<lparr>hd_radio = head_radio_boot bq, hd_esb = d, hd_imu = i, imu_msgq = imq, imu_drops = 0, my_id = 0, tx_seq = 0,
      g_mode = HTK_MODE_QUAT, g_rate_hz = HTK_RATE_DEFAULT, g_tx_div = ucast (IMU_ODR_HZ div HTK_RATE_DEFAULT),
      g_streaming = False, hd_fusion = htk_fusion_boot v, hd_thread = fusion_thread_init F, hd_leds = head_leds_boot,
      hd_pc = NotStarted, hd_state = ST_ACTIVE, last_beacon = 0, last_tstatus = 0\<rparr>"

text \<open>\<^verbatim>\<open>main\<close> up to its loop; \<open>clocks\<close> is the result of \<^verbatim>\<open>clocks_start\<close>.\<close>

definition head_main ::
  "float_ops \<Rightarrow> ('v, 't) vqf_ops \<Rightarrow> 'i imu_dev \<Rightarrow> 'd driver \<Rightarrow> u32 \<Rightarrow> int \<Rightarrow> int \<Rightarrow>
   ('q, 'm, 'v, 'd, 'i) head \<Rightarrow> ('q, 'm, 'v, 'd, 'i) head" where
  "head_main F V dev drv deviceaddr now clocks h =
     (let h = h\<lparr>hd_state := ST_ACTIVE, last_beacon := now, last_tstatus := 0, my_id := tracker_id deviceaddr\<rparr> in
      case htk_radio_init drv clocks (hd_radio h, hd_esb h) of (err, r, d) \<Rightarrow>
        let h = h\<lparr>hd_radio := r, hd_esb := d\<rparr> in
        if err \<noteq> 0 then h\<lparr>hd_pc := Halted err\<rparr>
        else
          (let h = h\<lparr>hd_fusion := htk_fusion_init F V 0x43D00000 (hd_fusion h)\<rparr> in
           case imu_init dev (hd_imu h) of (err, i) \<Rightarrow>
             let h = h\<lparr>hd_imu := i\<rparr> in
             if err \<noteq> 0 then h\<lparr>hd_pc := Halted err\<rparr> else (enter_active dev V h)\<lparr>hd_pc := Sleeping\<rparr>))"

text \<open>The loop over the queue of beacons. \<open>None\<close> is a loop that does not end.\<close>

partial_function (option) drain_beacons ::
  "('v, 't) vqf_ops \<Rightarrow> (htk_beacon_rx, 'q) msgq_ops \<Rightarrow> bool \<Rightarrow> ('q, 'm, 'v, 'd, 'i) head \<Rightarrow>
   (bool \<times> ('q, 'm, 'v, 'd, 'i) head) option" where
  "drain_beacons V bmq heard h =
     (case htk_radio_beacon_get bmq (hd_radio h) of
        (None, r) \<Rightarrow> Some (heard, h\<lparr>hd_radio := r\<rparr>)
      | (Some b, r) \<Rightarrow> drain_beacons V bmq True (handle_beacon V b (h\<lparr>hd_radio := r\<rparr>)))"

definition power_step ::
  "'i imu_dev \<Rightarrow> ('v, 't) vqf_ops \<Rightarrow> int \<Rightarrow> bool \<Rightarrow> ('q, 'm, 'v, 'd, 'i) head \<Rightarrow> ('q, 'm, 'v, 'd, 'i) head" where
  "power_step dev V now heard h =
     (let h = (if heard then h\<lparr>last_beacon := now\<rparr> else h) in
      if hd_state h = ST_ACTIVE \<and> now - last_beacon h \<ge> HTK_STANDBY_AFTER_MS then
        enter_standby dev V (h\<lparr>hd_state := ST_STANDBY\<rparr>)
      else if hd_state h = ST_STANDBY \<and> heard then enter_active dev V (h\<lparr>hd_state := ST_ACTIVE\<rparr>)
      else h)"

definition tstatus_step :: "'d driver \<Rightarrow> int \<Rightarrow> int \<Rightarrow> ('q, 'm, 'v, 'd, 'i) head \<Rightarrow> ('q, 'm, 'v, 'd, 'i) head" where
  "tstatus_step drv now now1 h =
     (if hd_state h = ST_ACTIVE \<and> now - last_tstatus h \<ge> 1000 then
        (send_tstatus drv now1 h)\<lparr>last_tstatus := now\<rparr>
      else h)"

definition listen_period :: "('q, 'm, 'v, 'd, 'i) head \<Rightarrow> int" where
  "listen_period h = (if hd_state h = ST_ACTIVE then HTK_LISTEN_PERIOD_ACTIVE_MS else HTK_LISTEN_PERIOD_STANDBY_MS)"

text \<open>
  One round of the loop, in the two parts between which the window's sleep lies. \<open>now\<close> and \<open>now1\<close> are the
  readings of the clock after the beacons and in the self-report.
\<close>

definition main_listen :: "'d driver \<Rightarrow> ('q, 'm, 'v, 'd, 'i) head \<Rightarrow> ('q, 'm, 'v, 'd, 'i) head" where
  "main_listen drv h =
     (case drv (SleepUs (listen_period h * 1000)) (hd_esb h) of (_, d) \<Rightarrow>
      case listen_begin drv HTK_LISTEN_WINDOW_MS (hd_radio h, d) of (err, r, d) \<Rightarrow>
        h\<lparr>hd_radio := r, hd_esb := d, hd_pc := Listening err\<rparr>)"

definition main_round ::
  "'i imu_dev \<Rightarrow> ('v, 't) vqf_ops \<Rightarrow> (htk_beacon_rx, 'q) msgq_ops \<Rightarrow> 'd driver \<Rightarrow> int \<Rightarrow> int \<Rightarrow> int \<Rightarrow>
   ('q, 'm, 'v, 'd, 'i) head \<Rightarrow> ('q, 'm, 'v, 'd, 'i) head option" where
  "main_round dev V bmq drv err now now1 h =
     (case listen_end drv err (hd_radio h, hd_esb h) of (r, d) \<Rightarrow>
        map_option (\<lambda>(heard, h). tstatus_step drv now now1 (power_step dev V now heard h))
          (drain_beacons V bmq False (h\<lparr>hd_radio := r, hd_esb := d, hd_pc := Sleeping\<rparr>)))"

subsection \<open>One step of the head unit\<close>

inductive head_step ::
  "float_ops \<Rightarrow> ('v, 't) vqf_ops \<Rightarrow> 'i imu_dev \<Rightarrow> (imu_sample, 'm) msgq_ops \<Rightarrow> (htk_beacon_rx, 'q) msgq_ops \<Rightarrow>
   'd driver \<Rightarrow> ('q, 'm, 'v, 'd, 'i) head \<Rightarrow> ('q, 'm, 'v, 'd, 'i) head \<Rightarrow> bool"
  for F V dev mq bmq drv where
  start: "hd_pc h = NotStarted \<Longrightarrow> head_step F V dev mq bmq drv h (head_main F V dev drv deviceaddr now clocks h)"
| listen: "hd_pc h = Sleeping \<Longrightarrow> head_step F V dev mq bmq drv h (main_listen drv h)"
| round: "hd_pc h = Listening err \<Longrightarrow> main_round dev V bmq drv err now now1 h = Some h' \<Longrightarrow>
    head_step F V dev mq bmq drv h h'"
| drdy: "head_step F V dev mq bmq drv h (imu_drdy F mq t_us reading h)"
| fusion: "fusion_round F V mq drv now_tap now h = Some h' \<Longrightarrow> head_step F V dev mq bmq drv h h'"
| radio_irq: "esb_handler bmq drv ev (hd_radio h, hd_esb h) = (r, d) \<Longrightarrow>
    head_step F V dev mq bmq drv h (h\<lparr>hd_radio := r, hd_esb := d\<rparr>)"
| led_timer: "head_step F V dev mq bmq drv h (h\<lparr>hd_leds := led_tick (hd_leds h)\<rparr>)"

inductive_cases head_stepE: "head_step F V dev mq bmq drv h h'"

inductive head_reachable ::
  "float_ops \<Rightarrow> ('v, 't) vqf_ops \<Rightarrow> 'i imu_dev \<Rightarrow> (imu_sample, 'm) msgq_ops \<Rightarrow> (htk_beacon_rx, 'q) msgq_ops \<Rightarrow>
   'd driver \<Rightarrow> ('q, 'm, 'v, 'd, 'i) head \<Rightarrow> ('q, 'm, 'v, 'd, 'i) head \<Rightarrow> bool"
  for F V dev mq bmq drv h0 where
  here: "head_reachable F V dev mq bmq drv h0 h0"
| step: "head_reachable F V dev mq bmq drv h0 h \<Longrightarrow> head_step F V dev mq bmq drv h h' \<Longrightarrow>
    head_reachable F V dev mq bmq drv h0 h'"

subsection \<open>What commands mean to the head\<close>

fun obey :: "('v, 't) vqf_ops \<Rightarrow> command \<Rightarrow> ('q, 'm, 'v, 'd, 'i) head \<Rightarrow> ('q, 'm, 'v, 'd, 'i) head" where
  "obey V (ResetFusion _) h = h\<lparr>hd_fusion := htk_fusion_reset V (hd_fusion h)\<rparr>"
| "obey V (SetRate _ hz) h = set_rate hz h"
| "obey V (SetMode _ mode) h = h\<lparr>g_mode := mode\<rparr>"
| "obey V (Identify _) h = h\<lparr>hd_leds := leds_identify (hd_leds h)\<rparr>"
| "obey V _ h = h"

lemma rd16_le16_3 [simp]: "rd16 (x # le16 v @ le16 w) 3 = w"
  by (simp add: rd16_def le16_def numeral_3_eq_3)

lemma handle_command:
  assumes "command_ok cmd" and "command_target cmd = Some tid"
  shows "handle_beacon V ([HTK_PKT_BEACON, n] @ command_wire cmd) h = (if tid = my_id h then obey V cmd h else h)"
  using assms
  by (cases cmd)
    (simp_all add: handle_beacon_def Let_def dec_cmd_id_def dec_set_rate_def dec_set_mode_def le16_def [symmetric],
     auto simp: le16_def dest: leD)

lemma handle_beacon_obeys:
  "handle_beacon V b h = h \<or>
   (\<exists>cmd. command_target cmd = Some (my_id h) \<and> (\<forall>t mode. cmd = SetMode t mode \<longrightarrow> mode \<le> 2) \<and>
      handle_beacon V b h = obey V cmd h)"
proof -
  define Q where "Q h' \<longleftrightarrow> h' = h \<or>
    (\<exists>cmd. command_target cmd = Some (my_id h) \<and> (\<forall>t mode. cmd = SetMode t mode \<longrightarrow> mode \<le> 2) \<and> h' = obey V cmd h)" for h'
  have "Q h" by (simp add: Q_def)
  moreover have "Q (h\<lparr>hd_fusion := htk_fusion_reset V (hd_fusion h)\<rparr>)"
    unfolding Q_def by (intro disjI2 exI [of _ "ResetFusion (my_id h)"]) simp
  moreover have "Q (set_rate hz h)" for hz
    unfolding Q_def by (intro disjI2 exI [of _ "SetRate (my_id h) hz"]) simp
  moreover have "Q (h\<lparr>g_mode := mode\<rparr>)" if "\<not> mode > 2" for mode
    unfolding Q_def using that by (intro disjI2 exI [of _ "SetMode (my_id h) mode"]) (simp add: not_less)
  moreover have "Q (h\<lparr>hd_leds := leds_identify (hd_leds h)\<rparr>)"
    unfolding Q_def by (intro disjI2 exI [of _ "Identify (my_id h)"]) simp
  ultimately have "Q (handle_beacon V b h)"
    by (simp add: handle_beacon_def Let_def split: if_split)
  then show ?thesis by (simp add: Q_def)
qed

lemma nearest_rate_thresholds:
  "nearest_rate hz supported_rates 52 0x7FFFFFFF =
     (if hz \<le> 78 then 52 else if hz \<le> 156 then 104 else if hz \<le> 312 then 208 else 416)"
proof -
  have "0 \<le> uint hz" "uint hz < 65536" using uint_lt2p [of hz] by simp_all
  then show ?thesis
    by (auto simp: supported_rates_def word_less_def word_le_def Let_def)
qed

text \<open>Settings are in range: a known mode, a supported rate, and the divider that gives this rate.\<close>

definition settings_ok :: "('q, 'm, 'v, 'd, 'i) head \<Rightarrow> bool" where
  "settings_ok h \<longleftrightarrow> g_mode h \<le> 2 \<and> g_rate_hz h \<in> set supported_rates \<and>
     unat (g_tx_div h) * unat (g_rate_hz h) = 416"

lemma set_rate_settings: "settings_ok h \<Longrightarrow> settings_ok (set_rate hz h)"
proof -
  have "unat (ucast ((416 :: u16) div r) :: u32) * unat r = 416" if "r \<in> set supported_rates" for r
    using that by (auto simp: supported_rates_def)
  moreover have "nearest_rate hz supported_rates 52 0x7FFFFFFF \<in> set supported_rates"
    by (simp add: nearest_rate_thresholds) (simp add: supported_rates_def)
  ultimately show "settings_ok h \<Longrightarrow> settings_ok (set_rate hz h)"
    by (simp add: settings_ok_def set_rate_def Let_def)
qed

subsection \<open>The invariant of the head unit\<close>

text \<open>What a head with a given id puts on the air; of the flags of ORIENT only bias, rest and tap (0x1A) are used.\<close>

definition head_payload :: "u16 \<Rightarrow> bytes \<Rightarrow> bool" where
  "head_payload tid p \<longleftrightarrow> length p \<le> HTK_ESB_MAX_PAYLOAD \<and>
     ((\<exists>smp. p = enc_orient smp \<and> or_type smp = HTK_PKT_ORIENT \<and> or_id smp = tid \<and>
         or_flags smp AND 0xE5 = 0) \<or>
      (\<exists>smp. p = enc_raw smp \<and> raw_type smp = HTK_PKT_RAW \<and> raw_id smp = tid) \<or>
      (\<exists>ts. p = enc_tstatus ts \<and> tt_type ts = HTK_PKT_TSTATUS \<and> tt_id ts = tid \<and> tt_mode ts \<le> HTK_MODE_BOTH))"

definition started :: "('q, 'm, 'v, 'd, 'i) head \<Rightarrow> bool" where
  "started h \<longleftrightarrow> hd_pc h = Sleeping \<or> (\<exists>err. hd_pc h = Listening err)"

definition head_inv :: "('q \<Rightarrow> htk_beacon_rx list) \<Rightarrow> ('q, 'm, 'v, 'd \<times> radio_call list, 'i) head \<Rightarrow> bool" where
  "head_inv cont h \<longleftrightarrow> settings_ok h \<and>
     (radio_locked (hd_radio h) \<longleftrightarrow> (\<exists>err. hd_pc h = Listening err)) \<and>
     (\<forall>b \<in> set (cont (beacon_q (hd_radio h))). 2 \<le> length b \<and> length b \<le> HTK_ESB_MAX_PAYLOAD) \<and>
     (g_streaming h \<longleftrightarrow> started h \<and> hd_state h = ST_ACTIVE) \<and>
     (link_state (hd_leds h) = LEDS_LINK_STREAMING \<longleftrightarrow> g_streaming h) \<and>
     (started h \<longrightarrow> valid_target (my_id h)) \<and>
     (hd_pc h = NotStarted \<longrightarrow> writes (snd (hd_esb h)) = []) \<and>
     (\<forall>p \<in> set (writes (snd (hd_esb h))). head_payload (my_id h) p)"

lemma send_writes:
  assumes "htk_radio_send (tap drv) p (r, x) = (err, r', x')"
  shows "r' = r" and "\<exists>n. writes (snd x') = writes (snd x) @ replicate n p"
  using send_tap [of drv p r "fst x" "snd x" err r' "fst x'" "snd x'"] assms by auto

lemma flags_known: "orient_flags fu tapped AND 0xE5 = 0"
  by (simp add: orient_flags_def Let_def)

lemma payload_orient:
  assumes "flags AND 0xE5 = 0"
  shows "head_payload tid (enc_orient (orient_packet tid sq t q flags))"
proof -
  obtain w x y z where "q = (w, x, y, z)" by (rule prod_cases4)
  with assms show ?thesis unfolding head_payload_def
    by (intro conjI disjI1 exI [of _ "orient_packet tid sq t q flags"]) simp_all
qed

lemma payload_raw: "head_payload tid (enc_raw (raw_packet tid sq s))"
  unfolding head_payload_def
  by (intro conjI disjI2 disjI1 exI [of _ "raw_packet tid sq s"]) (simp_all add: raw_packet_def)

lemma send_seq_keeps:
  assumes "head_inv cont h" and "hd_pc h \<noteq> NotStarted" and "head_payload (my_id h) (pkt (tx_seq h))"
  shows "head_inv cont (send_seq (tap drv) pkt h)" and "hd_pc (send_seq (tap drv) pkt h) = hd_pc h"
    and "my_id (send_seq (tap drv) pkt h) = my_id h"
proof -
  obtain err r x where s: "htk_radio_send (tap drv) (pkt (tx_seq h)) (hd_radio h, hd_esb h) = (err, r, x)"
    by (rule prod_cases3)
  from send_writes(2) [OF s] obtain n where "writes (snd x) = writes (snd (hd_esb h)) @ replicate n (pkt (tx_seq h))" ..
  with assms s send_writes(1) [OF s]
  show "head_inv cont (send_seq (tap drv) pkt h)" "hd_pc (send_seq (tap drv) pkt h) = hd_pc h"
    "my_id (send_seq (tap drv) pkt h) = my_id h"
    by (auto simp: send_seq_def head_inv_def settings_ok_def started_def)
qed

lemma head_inv_leds:
  "link_state l = link_state (hd_leds h) \<Longrightarrow> head_inv cont (h\<lparr>hd_leds := l\<rparr>) = head_inv cont h"
  by (simp add: head_inv_def settings_ok_def started_def)

lemma leds_keep_link [simp]:
  "link_state (leds_set_rest b l) = link_state l" "link_state (leds_tap l) = link_state l"
  "link_state (leds_identify l) = link_state l" "link_state (led_tick l) = link_state l"
  by (simp_all add: leds_set_rest_def leds_tap_def leds_identify_def led_tick_def set_rgb_def Let_def)

lemma head_inv_irrelevant:
  "head_inv cont (h\<lparr>hd_thread := th\<rparr>) = head_inv cont h" "head_inv cont (h\<lparr>hd_fusion := fu\<rparr>) = head_inv cont h"
  "head_inv cont (h\<lparr>imu_msgq := m\<rparr>) = head_inv cont h" "head_inv cont (h\<lparr>imu_drops := n\<rparr>) = head_inv cont h"
  "head_inv cont (h\<lparr>last_beacon := t\<rparr>) = head_inv cont h" "head_inv cont (h\<lparr>last_tstatus := t\<rparr>) = head_inv cont h"
  "head_inv cont (h\<lparr>hd_imu := i\<rparr>) = head_inv cont h"
  by (simp_all add: head_inv_def settings_ok_def started_def)

lemma if_keeps: "P a \<Longrightarrow> P b \<Longrightarrow> P (if c then a else b)"
  by simp

lemma transmit_keeps:
  assumes "head_inv cont h" and "hd_pc h \<noteq> NotStarted"
  shows "head_inv cont (transmit_sample (tap drv) now s q h)"
proof -
  let ?h = "h\<lparr>hd_leds := leds_set_rest (htk_fusion_rest (hd_fusion h)) (hd_leds h)\<rparr>"
  let ?flags = "orient_flags (hd_fusion h) (now < tap_until_ms (hd_thread h))"
  let ?o = "\<lambda>sq. enc_orient (orient_packet (my_id ?h) sq (is_t_us s) q ?flags)"
  have h: "head_inv cont ?h" "hd_pc ?h \<noteq> NotStarted" using assms by (simp_all add: head_inv_leds)
  have o: "head_payload (my_id ?h) (?o sq)" for sq
    by (rule payload_orient) (rule flags_known)
  let ?mid = "if g_mode h = HTK_MODE_QUAT \<or> g_mode h = HTK_MODE_BOTH then send_seq (tap drv) ?o ?h else ?h"
  have h1: "head_inv cont ?mid" "hd_pc ?mid \<noteq> NotStarted"
    using h send_seq_keeps(1,2) [OF h, of ?o drv, OF o] by (simp_all split: if_split)
  let ?r = "\<lambda>sq. enc_raw (raw_packet (my_id ?mid) sq s)"
  have eq: "transmit_sample (tap drv) now s q h =
    (if g_mode h = HTK_MODE_RAW \<or> g_mode h = HTK_MODE_BOTH then send_seq (tap drv) ?r ?mid else ?mid)"
    by (simp only: transmit_sample_def Let_def head.simps)
  show ?thesis unfolding eq
    by (rule if_keeps [where P = "head_inv cont", OF send_seq_keeps(1) [OF h1 payload_raw] h1(1)])
qed

lemma tap_round_keeps: "head_inv cont (tap_round F t s h) = head_inv cont h"
  by (simp add: tap_round_def Let_def head_inv_leds head_inv_irrelevant split: prod.split)

lemma stream_round_keeps: "head_inv cont h \<Longrightarrow> head_inv cont (stream_round (tap drv) now s q h)"
proof -
  assume h: "head_inv cont h"
  have "head_inv cont (transmit_sample (tap drv) now s q (h\<lparr>hd_thread := th\<rparr>))" if "g_streaming h" for th
  proof (rule transmit_keeps)
    show "head_inv cont (h\<lparr>hd_thread := th\<rparr>)" by (simp add: head_inv_irrelevant h)
    show "hd_pc (h\<lparr>hd_thread := th\<rparr>) \<noteq> NotStarted" using h that by (auto simp: head_inv_def started_def)
  qed
  with h show ?thesis by (simp add: stream_round_def Let_def head_inv_irrelevant)
qed

lemma fusion_round_keeps:
  assumes "head_inv cont h" and "fusion_round F V mq (tap drv) t now h = Some h'"
  shows "head_inv cont h'"
proof -
  obtain s m th fu q fu' where "h' = stream_round (tap drv) now s q
    ((tap_round F t s (h\<lparr>imu_msgq := m, hd_thread := th, hd_fusion := fu\<rparr>))\<lparr>hd_fusion := fu'\<rparr>)"
    using assms(2) unfolding fusion_round_def Let_def by (auto split: prod.splits option.splits)
  then show ?thesis
    by (simp only:) (intro stream_round_keeps, simp add: head_inv_irrelevant tap_round_keeps assms(1))
qed

lemma imu_drdy_keeps: "head_inv cont (imu_drdy F mq t reading h) = head_inv cont h"
  by (simp add: imu_drdy_def Let_def head_inv_irrelevant split: option.split prod.split)

definition beacons_ok :: "('q \<Rightarrow> htk_beacon_rx list) \<Rightarrow> 'q head_radio \<Rightarrow> bool" where
  "beacons_ok cont r \<longleftrightarrow> (\<forall>b \<in> set (cont (beacon_q r)). 2 \<le> length b \<and> length b \<le> HTK_ESB_MAX_PAYLOAD)"

lemma beacon_sizes:
  assumes "msgq_law bmq cont cap" and "beacons_ok cont r"
  shows "beacons_ok cont (fold (beacon_rx bmq) ps r)"
  using assms(2) unfolding beacons_ok_def
  by (auto simp: fold_beacon_rx_queue [OF assms(1)] heard_beacons_def is_beacon_def dest!: in_set_takeD)

lemma head_inv_radio:
  assumes "head_inv cont h" and "radio_locked r = radio_locked (hd_radio h)" and "beacons_ok cont r"
    and "writes (snd d) = writes (snd (hd_esb h))"
  shows "head_inv cont (h\<lparr>hd_radio := r, hd_esb := d\<rparr>)"
  using assms by (simp add: head_inv_def settings_ok_def started_def beacons_ok_def)

lemma head_inv_beacons: "head_inv cont h \<Longrightarrow> beacons_ok cont (hd_radio h)"
  by (simp add: head_inv_def beacons_ok_def)

lemma esb_handler_effect:
  assumes "esb_handler bmq (tap drv) ev (r0, x) = (r, x')"
  shows "(\<exists>ps. r = fold (beacon_rx bmq) ps r0) \<and> writes (snd x') = writes (snd x)"
proof (cases ev)
  case (RxReceived ps)
  with assms show ?thesis by auto
next
  case TxSuccess
  with assms show ?thesis by (auto intro: exI [of _ "[]"])
next
  case TxFailed
  with assms show ?thesis by (cases x) (auto intro: exI [of _ "[]"])
qed

lemma esb_handler_keeps:
  assumes "msgq_law bmq cont 8" and "head_inv cont h"
    and "esb_handler bmq (tap drv) ev (hd_radio h, hd_esb h) = (r, d)"
  shows "head_inv cont (h\<lparr>hd_radio := r, hd_esb := d\<rparr>)"
proof -
  from esb_handler_effect [OF assms(3)] obtain ps where
    r: "r = fold (beacon_rx bmq) ps (hd_radio h)" and d: "writes (snd d) = writes (snd (hd_esb h))" by blast
  have "beacons_ok cont r"
    unfolding r by (rule beacon_sizes [OF assms(1) head_inv_beacons [OF assms(2)]])
  then show ?thesis by (intro head_inv_radio assms(2) d) (simp_all add: r fold_beacon_rx_keeps)
qed

lemma tracker_id_valid: "valid_target (tracker_id a)"
  by (simp add: tracker_id_def valid_target_def Let_def)

lemma head_main_keeps:
  assumes "head_inv cont h" and "hd_pc h = NotStarted"
  shows "head_inv cont (head_main F V dev (tap drv) addr now clocks h)"
proof -
  obtain d0 log where e: "hd_esb h = (d0, log)" by fastforce
  obtain err r d1 log1 where i: "htk_radio_init (tap drv) clocks (hd_radio h, (d0, log)) = (err, r, (d1, log1))"
    by (metis surj_pair)
  obtain err' i' where imu: "imu_init dev (hd_imu h) = (err', i')" by fastforce
  have w: "writes log1 = []" and q: "beacon_q r = beacon_q (hd_radio h)" "radio_locked r = radio_locked (hd_radio h)"
    using i assms configure_tap(1,2) [of drv True "hd_radio h" d0 log err r d1 log1] e
    by (auto simp: htk_radio_init_def head_inv_def split: if_splits)
  from assms q e i imu w show ?thesis
    by (auto simp: head_main_def Let_def head_inv_def settings_ok_def started_def enter_active_def
        leds_set_link_def tracker_id_valid)
qed

lemma main_listen_keeps:
  assumes "head_inv cont h" and "hd_pc h = Sleeping"
  shows "head_inv cont (main_listen (tap drv) h)"
proof -
  obtain d0 log where e: "hd_esb h = (d0, log)" by fastforce
  define l where "l = SleepUs (listen_period h * 1000)"
  obtain err r d1 log1 where
    b: "listen_begin (tap drv) HTK_LISTEN_WINDOW_MS (hd_radio h, (snd (drv l d0), log @ [l])) = (err, r, (d1, log1))"
    by (metis surj_pair)
  have "main_listen (tap drv) h = h\<lparr>hd_radio := r, hd_esb := (d1, log1), hd_pc := Listening err\<rparr>"
    using b e by (simp add: main_listen_def l_def)
  with listen_begin_tap [OF b] assms e show ?thesis
    by (simp add: head_inv_def settings_ok_def started_def l_def)
qed

lemma obey_keeps:
  assumes "head_inv cont h" and "\<And>t mode. cmd = SetMode t mode \<Longrightarrow> mode \<le> 2"
  shows "head_inv cont (obey V cmd h)"
proof (cases cmd)
  case (SetRate t hz)
  from set_rate_settings assms(1) have "settings_ok (set_rate hz h)" by (auto simp: head_inv_def)
  with SetRate assms(1) show ?thesis by (simp add: head_inv_def started_def set_rate_def Let_def)
next
  case (SetMode t mode)
  with assms show ?thesis by (simp add: head_inv_def started_def settings_ok_def)
qed (use assms in \<open>simp_all add: head_inv_leds head_inv_irrelevant\<close>)

lemma handle_beacon_keeps:
  assumes "head_inv cont h" shows "head_inv cont (handle_beacon V b h)"
  using handle_beacon_obeys [of V b h] obey_keeps [OF assms] assms by metis

lemma handle_beacons_keep: "head_inv cont h \<Longrightarrow> head_inv cont (fold (handle_beacon V) bs h)"
  by (induction bs arbitrary: h) (simp_all add: handle_beacon_keeps)

lemma handle_beacon_radio: "handle_beacon V b (h\<lparr>hd_radio := r\<rparr>) = (handle_beacon V b h)\<lparr>hd_radio := r\<rparr>"
proof -
  have my: "my_id (h\<lparr>hd_radio := r\<rparr>) = my_id h" by simp
  have arms: "(h\<lparr>hd_radio := r\<rparr>)\<lparr>hd_fusion := htk_fusion_reset V (hd_fusion (h\<lparr>hd_radio := r\<rparr>))\<rparr> =
      (h\<lparr>hd_fusion := htk_fusion_reset V (hd_fusion h)\<rparr>)\<lparr>hd_radio := r\<rparr>"
    "set_rate hz (h\<lparr>hd_radio := r\<rparr>) = (set_rate hz h)\<lparr>hd_radio := r\<rparr>"
    "(h\<lparr>hd_radio := r\<rparr>)\<lparr>g_mode := m\<rparr> = (h\<lparr>g_mode := m\<rparr>)\<lparr>hd_radio := r\<rparr>"
    "(h\<lparr>hd_radio := r\<rparr>)\<lparr>hd_leds := leds_identify (hd_leds (h\<lparr>hd_radio := r\<rparr>))\<rparr> =
      (h\<lparr>hd_leds := leds_identify (hd_leds h)\<rparr>)\<lparr>hd_radio := r\<rparr>" for hz m
    by (simp_all add: set_rate_def Let_def)
  show ?thesis
    by (simp only: handle_beacon_def Let_def my arms if_distrib [of "\<lambda>h. h\<lparr>hd_radio := r\<rparr>"])
qed

lemma handle_beacons_radio:
  "fold (handle_beacon V) bs (h\<lparr>hd_radio := r\<rparr>) = (fold (handle_beacon V) bs h)\<lparr>hd_radio := r\<rparr>"
  by (induction bs arbitrary: h) (simp_all add: handle_beacon_radio)

lemma drain_beacons_all:
  assumes "msgq_law bmq cont cap" and "cont (beacon_q (hd_radio h)) = bs"
  shows "\<exists>q. cont q = [] \<and> drain_beacons V bmq heard h =
    Some (heard \<or> bs \<noteq> [], (fold (handle_beacon V) bs h)\<lparr>hd_radio := (hd_radio h)\<lparr>beacon_q := q\<rparr>\<rparr>)"
  using assms(2)
proof (induction bs arbitrary: h heard)
  case Nil
  obtain b q where g: "msgq_get bmq (beacon_q (hd_radio h)) = (b, q)" by fastforce
  from msgq_get [OF assms(1) g] Nil have "b = None" "cont q = []" by auto
  with g show ?case by (auto simp: drain_beacons.simps htk_radio_beacon_get_def)
next
  case (Cons b bs)
  obtain b' q where g: "msgq_get bmq (beacon_q (hd_radio h)) = (b', q)" by fastforce
  from msgq_get [OF assms(1) g] Cons.prems have q: "b' = Some b" "cont q = bs" by auto
  let ?h = "(handle_beacon V b h)\<lparr>hd_radio := (hd_radio h)\<lparr>beacon_q := q\<rparr>\<rparr>"
  from g q have "drain_beacons V bmq heard h = drain_beacons V bmq True ?h"
    by (subst drain_beacons.simps) (simp add: htk_radio_beacon_get_def handle_beacon_radio)
  with Cons.IH [of ?h True] q show ?case by (simp add: handle_beacons_radio)
qed

text \<open>What the control thread does after a window: the beacons, the power state, the self-report.\<close>

lemma main_round_run:
  assumes "msgq_law bmq cont cap" and "listen_end (tap drv) err (hd_radio h, hd_esb h) = (r, x)"
  shows "\<exists>q. cont q = [] \<and> main_round dev V bmq (tap drv) err now now1 h =
    Some (tstatus_step (tap drv) now now1 (power_step dev V now (cont (beacon_q r) \<noteq> [])
      ((fold (handle_beacon V) (cont (beacon_q r)) (h\<lparr>hd_radio := r, hd_esb := x, hd_pc := Sleeping\<rparr>))
        \<lparr>hd_radio := r\<lparr>beacon_q := q\<rparr>\<rparr>)))"
  using drain_beacons_all [OF assms(1) refl, of V False "h\<lparr>hd_radio := r, hd_esb := x, hd_pc := Sleeping\<rparr>"] assms(2)
  by (auto simp: main_round_def)

lemma power_step_keeps:
  assumes "head_inv cont h" and "hd_pc h = Sleeping"
  shows "head_inv cont (power_step dev V now heard h)"
  using assms
  by (simp add: power_step_def enter_active_def enter_standby_def leds_set_link_def head_inv_def settings_ok_def
      started_def Let_def)

lemma power_step_pc [simp]: "hd_pc (power_step dev V now heard h) = hd_pc h"
  by (simp add: power_step_def enter_active_def enter_standby_def Let_def)

lemma payload_tstatus:
  assumes "g_mode h \<le> 2"
  shows "head_payload (my_id h) (enc_tstatus (tstatus_of now h))"
  unfolding head_payload_def
  by (intro conjI disjI2 exI [of _ "tstatus_of now h"]) (use assms in \<open>simp_all add: tstatus_of_def Let_def\<close>)

lemma tstatus_step_keeps:
  assumes "head_inv cont h" and "hd_pc h = Sleeping"
  shows "head_inv cont (tstatus_step (tap drv) now now1 h)"
proof -
  obtain err r x where s: "htk_radio_send (tap drv) (enc_tstatus (tstatus_of now1 h)) (hd_radio h, hd_esb h) = (err, r, x)"
    by (rule prod_cases3)
  from send_writes(2) [OF s] obtain n where
    w: "writes (snd x) = writes (snd (hd_esb h)) @ replicate n (enc_tstatus (tstatus_of now1 h))" ..
  have "head_payload (my_id h) (enc_tstatus (tstatus_of now1 h))"
    using assms(1) by (intro payload_tstatus) (simp add: head_inv_def settings_ok_def)
  with assms s send_writes(1) [OF s] w show ?thesis
    by (auto simp: tstatus_step_def send_tstatus_def head_inv_def settings_ok_def started_def)
qed

lemma handle_beacons_pc: "hd_pc (fold (handle_beacon V) bs h) = hd_pc h"
proof (induction bs arbitrary: h)
  case (Cons b bs)
  have "hd_pc (obey V cmd h) = hd_pc h" for cmd by (cases cmd) (simp_all add: set_rate_def Let_def)
  with handle_beacon_obeys [of V b h] have "hd_pc (handle_beacon V b h) = hd_pc h" by auto
  with Cons show ?case by simp
qed simp

lemma handle_beacons_hd_radio: "hd_radio (fold (handle_beacon V) bs h) = hd_radio h"
proof -
  have "h\<lparr>hd_radio := hd_radio h\<rparr> = h" by simp
  with handle_beacons_radio [of V bs "hd_radio h" h]
  have "fold (handle_beacon V) bs h = (fold (handle_beacon V) bs h)\<lparr>hd_radio := hd_radio h\<rparr>" by simp
  then have "hd_radio (fold (handle_beacon V) bs h) = hd_radio ((fold (handle_beacon V) bs h)\<lparr>hd_radio := hd_radio h\<rparr>)"
    by (rule arg_cong)
  then show ?thesis by simp
qed

lemma main_round_keeps:
  assumes "msgq_law bmq cont 8" and "head_inv cont h" and "hd_pc h = Listening err"
    and "main_round dev V bmq (tap drv) err now now1 h = Some h'"
  shows "head_inv cont h'"
proof -
  obtain d log where e: "hd_esb h = (d, log)" by fastforce
  obtain r d' log' where l: "listen_end (tap drv) err (hd_radio h, hd_esb h) = (r, (d', log'))" by (metis surj_pair)
  let ?h = "fold (handle_beacon V) (cont (beacon_q r)) (h\<lparr>hd_radio := r, hd_esb := (d', log'), hd_pc := Sleeping\<rparr>)"
  note fin = listen_end_tap(1) [OF l [unfolded e]]
  have "head_inv cont (h\<lparr>hd_radio := r, hd_esb := (d', log'), hd_pc := Sleeping\<rparr>)"
    using assms(2,3) fin e by (simp add: head_inv_def settings_ok_def started_def)
  then have inv: "head_inv cont ?h" and pc: "hd_pc ?h = Sleeping"
    by (simp_all add: handle_beacons_keep handle_beacons_pc)
  have rad: "hd_radio ?h = r" by (simp add: handle_beacons_hd_radio)
  from main_round_run [OF assms(1) l, of dev V now now1] assms(4) obtain q where q: "cont q = []"
    "h' = tstatus_step (tap drv) now now1 (power_step dev V now (cont (beacon_q r) \<noteq> []) (?h\<lparr>hd_radio := r\<lparr>beacon_q := q\<rparr>\<rparr>))"
    by auto
  from inv q(1) rad have "head_inv cont (?h\<lparr>hd_radio := r\<lparr>beacon_q := q\<rparr>\<rparr>)"
    by (simp add: head_inv_def settings_ok_def started_def)
  with pc show ?thesis unfolding q(2) by (intro tstatus_step_keeps power_step_keeps) simp_all
qed

lemma head_inv_boot: "cont bq = [] \<Longrightarrow> head_inv cont (head_boot F bq imq v (d, []) i)"
  by (simp add: head_inv_def head_boot_def settings_ok_def started_def head_radio_boot_def head_leds_boot_def
      supported_rates_def)

lemma head_step_keeps:
  assumes "msgq_law bmq cont 8" and "head_inv cont h" and "head_step F V dev mq bmq (tap drv) h h'"
  shows "head_inv cont h'"
  using assms(3)
proof (rule head_stepE)
  fix addr now clocks assume "h' = head_main F V dev (tap drv) addr now clocks h" "hd_pc h = NotStarted"
  then show ?thesis using head_main_keeps assms(2) by simp
next
  assume "h' = main_listen (tap drv) h" "hd_pc h = Sleeping"
  then show ?thesis using main_listen_keeps assms(2) by simp
next
  fix err now now1 assume "hd_pc h = Listening err" "main_round dev V bmq (tap drv) err now now1 h = Some h'"
  then show ?thesis by (rule main_round_keeps [OF assms(1,2)])
next
  fix t reading assume "h' = imu_drdy F mq t reading h"
  then show ?thesis using assms(2) by (simp add: imu_drdy_keeps)
next
  fix t now assume "fusion_round F V mq (tap drv) t now h = Some h'"
  then show ?thesis by (rule fusion_round_keeps [OF assms(2)])
next
  fix ev r d assume "h' = h\<lparr>hd_radio := r, hd_esb := d\<rparr>" "esb_handler bmq (tap drv) ev (hd_radio h, hd_esb h) = (r, d)"
  then show ?thesis using esb_handler_keeps [OF assms(1,2)] by simp
next
  assume "h' = h\<lparr>hd_leds := led_tick (hd_leds h)\<rparr>"
  then show ?thesis using assms(2) by (simp add: head_inv_leds)
qed

lemma head_reachable_inv:
  assumes "head_reachable F V dev mq bmq (tap drv) h0 h" and "msgq_law bmq cont 8" and "head_inv cont h0"
  shows "head_inv cont h"
  using assms by (induction rule: head_reachable.induct) (auto intro: head_step_keeps)

subsection \<open>Decimation\<close>

text \<open>
  What is to go out: of the samples \<open>xs\<close>, with the counter at \<open>d\<close>, one of every \<open>m\<close> is sent; a sent sample makes the packets of
  the mode; and the packets are numbered one after the other.
\<close>

definition kept_samples :: "nat \<Rightarrow> nat \<Rightarrow> 'a list \<Rightarrow> 'a list" where
  "kept_samples d m xs = nths xs {i. m dvd d + i + 1}"

definition sample_packets :: "('q, 'm, 'v, 'd, 'i) head \<Rightarrow> u16 \<Rightarrow> int \<times> imu_sample \<times> quat \<Rightarrow> bytes list" where
  "sample_packets h n x = (case x of (now, s, q) \<Rightarrow>
     let pkt = enc_orient (orient_packet (my_id h) n (is_t_us s) q (orient_flags (hd_fusion h) (now < tap_until_ms (hd_thread h)))) in
     if g_mode h = HTK_MODE_QUAT then [pkt]
     else if g_mode h = HTK_MODE_RAW then [enc_raw (raw_packet (my_id h) n s)]
     else if g_mode h = HTK_MODE_BOTH then [pkt, enc_raw (raw_packet (my_id h) (n + 1) s)]
     else [])"

fun numbered :: "(u16 \<Rightarrow> 'a \<Rightarrow> bytes list) \<Rightarrow> u16 \<Rightarrow> 'a list \<Rightarrow> bytes list" where
  "numbered pk n [] = []"
| "numbered pk n (y # ys) = pk n y @ numbered pk (n + of_nat (length (pk n y))) ys"

definition send_all :: "'d driver \<Rightarrow> bytes list \<Rightarrow> 'q head_radio \<times> 'd \<Rightarrow> 'q head_radio \<times> 'd" where
  "send_all drv ps x = fold (\<lambda>p x. snd (htk_radio_send drv p x)) ps x"

lemma send_all_simps [simp]:
  "send_all drv [] x = x" "send_all drv (p # ps) x = send_all drv ps (snd (htk_radio_send drv p x))"
  "send_all drv (ps @ qs) x = send_all drv qs (send_all drv ps x)"
  by (simp_all add: send_all_def)

lemma kept_nil: "kept_samples d m [] = []"
  by (simp add: kept_samples_def)

lemma kept_step:
  assumes "d < m"
  shows "kept_samples d m (x # xs) = (if Suc d < m then kept_samples (Suc d) m xs else x # kept_samples 0 m xs)"
proof (cases "Suc d < m")
  case True
  then have "\<not> m dvd Suc d" by (simp add: nat_dvd_not_less)
  with True show ?thesis by (simp add: kept_samples_def nths_Cons)
next
  case False
  with assms have m: "m = Suc d" by simp
  have "Suc d dvd Suc (Suc (d + j)) \<longleftrightarrow> Suc d dvd Suc j" for j
    using dvd_add_right_iff [of "Suc d" "Suc d" "Suc j"] by simp
  then show ?thesis by (simp add: m kept_samples_def nths_Cons)
qed

text \<open>The parts of the state that sending does not touch.\<close>

definition send_view :: "('q, 'm, 'v, 'd, 'i) head \<Rightarrow> u16 \<times> u8 \<times> u32 \<times> bool \<times> 'v htk_fusion \<times> int" where
  "send_view h = (my_id h, g_mode h, g_tx_div h, g_streaming h, hd_fusion h, tap_until_ms (hd_thread h))"

lemma sample_packets_view: "send_view h = send_view h' \<Longrightarrow> sample_packets h = sample_packets h'"
  by (intro ext) (simp add: send_view_def sample_packets_def Let_def split: prod.split)

lemma send_seq_effect:
  "send_view (send_seq drv pkt h) = send_view h" "th_decim (hd_thread (send_seq drv pkt h)) = th_decim (hd_thread h)"
  "tx_seq (send_seq drv pkt h) = tx_seq h + 1"
  "(hd_radio (send_seq drv pkt h), hd_esb (send_seq drv pkt h)) = send_all drv [pkt (tx_seq h)] (hd_radio h, hd_esb h)"
  by (simp_all add: send_seq_def send_view_def split: prod.split)

lemma transmit_effect:
  fixes h :: "('q, 'm, 'v, 'd, 'i) head" and drv :: "'d driver" and now :: int and s :: imu_sample and q :: quat
  defines "ps \<equiv> sample_packets h (tx_seq h) (now, s, q)" and "h' \<equiv> transmit_sample drv now s q h"
  shows "send_view h' = send_view h" and "th_decim (hd_thread h') = th_decim (hd_thread h)" and "tx_seq h' = tx_seq h + of_nat (length ps)"
    and "(hd_radio h', hd_esb h') = send_all drv ps (hd_radio h, hd_esb h)"
proof -
  let ?h = "h\<lparr>hd_leds := leds_set_rest (htk_fusion_rest (hd_fusion h)) (hd_leds h)\<rparr>"
  let ?o = "\<lambda>sq. enc_orient (orient_packet (my_id h) sq (is_t_us s) q (orient_flags (hd_fusion h) (now < tap_until_ms (hd_thread h))))"
  let ?r = "\<lambda>sq. enc_raw (raw_packet (my_id h) sq s)"
  have view: "send_view ?h = send_view h" by (simp add: send_view_def)
  have id: "my_id (send_seq drv ?o ?h) = my_id h" using send_seq_effect(1) [of drv ?o ?h] by (simp add: send_view_def)
  have h': "h' = (if g_mode h = HTK_MODE_QUAT then send_seq drv ?o ?h else if g_mode h = HTK_MODE_RAW then send_seq drv ?r ?h
      else if g_mode h = HTK_MODE_BOTH then send_seq drv ?r (send_seq drv ?o ?h) else ?h)"
    using id by (simp add: h'_def transmit_sample_def Let_def)
  note e = send_seq_effect [of drv ?o ?h] send_seq_effect [of drv ?r ?h] send_seq_effect [of drv ?r "send_seq drv ?o ?h"]
  show "send_view h' = send_view h" using e view by (simp add: h')
  show "th_decim (hd_thread h') = th_decim (hd_thread h)" using e by (simp add: h')
  show "tx_seq h' = tx_seq h + of_nat (length ps)" using e by (simp add: h' ps_def sample_packets_def Let_def)
  show "(hd_radio h', hd_esb h') = send_all drv ps (hd_radio h, hd_esb h)" using e by (simp add: h' ps_def sample_packets_def Let_def)
qed

fun stream_rounds :: "'d driver \<Rightarrow> (int \<times> imu_sample \<times> quat) list \<Rightarrow> ('q, 'm, 'v, 'd, 'i) head \<Rightarrow> ('q, 'm, 'v, 'd, 'i) head" where
  "stream_rounds drv [] h = h"
| "stream_rounds drv ((now, s, q) # xs) h = stream_rounds drv xs (stream_round drv now s q h)"

lemma count_up:
  assumes "unat (d :: u32) < unat m"
  shows "unat (d + 1) = Suc (unat d)" and "d + 1 < m \<longleftrightarrow> Suc (unat d) < unat m"
proof -
  have "unat m < 2 ^ LENGTH(32)" by (rule unsigned_less)
  with assms have "Suc (unat d) < 2 ^ 32" by simp
  then show "unat (d + 1) = Suc (unat d)" by (simp add: unat_word_ariths)
  then show "d + 1 < m \<longleftrightarrow> Suc (unat d) < unat m" by (simp add: word_less_nat_alt)
qed

lemma rounds_send:
  assumes "g_streaming h" and "unat (th_decim (hd_thread h)) < unat (g_tx_div h)"
  shows "(hd_radio (stream_rounds drv xs h), hd_esb (stream_rounds drv xs h)) =
      send_all drv (numbered (sample_packets h) (tx_seq h) (kept_samples (unat (th_decim (hd_thread h))) (unat (g_tx_div h)) xs))
        (hd_radio h, hd_esb h) \<and>
    tx_seq (stream_rounds drv xs h) = tx_seq h +
      of_nat (length (numbered (sample_packets h) (tx_seq h) (kept_samples (unat (th_decim (hd_thread h))) (unat (g_tx_div h)) xs)))"
  using assms
proof (induction xs arbitrary: h)
  case Nil
  then show ?case by (simp add: kept_samples_def)
next
  case (Cons x xs)
  obtain now s q where x: "x = (now, s, q)" by (rule prod_cases3)
  let ?d = "unat (th_decim (hd_thread h))" and ?m = "unat (g_tx_div h)" and ?h' = "stream_round drv now s q h"
  note up = count_up [OF Cons.prems(2)]
  show ?case
  proof (cases "Suc ?d < ?m")
    case True
    with Cons.prems up have h': "?h' = h\<lparr>hd_thread := (hd_thread h)\<lparr>th_decim := th_decim (hd_thread h) + 1\<rparr>\<rparr>"
      by (simp add: stream_round_def Let_def)
    have "send_view ?h' = send_view h" by (simp add: h' send_view_def)
    note sp = sample_packets_view [OF this]
    from Cons.IH [of ?h'] Cons.prems True up x kept_step [OF Cons.prems(2), of x xs] sp show ?thesis by (simp add: h')
  next
    case False
    let ?h = "h\<lparr>hd_thread := (hd_thread h)\<lparr>th_decim := 0\<rparr>\<rparr>"
    from False Cons.prems up have h': "?h' = transmit_sample drv now s q ?h" by (simp add: stream_round_def Let_def)
    have v: "send_view ?h = send_view h" by (simp add: send_view_def)
    note e = transmit_effect [where h = ?h and drv = drv and now = now and s = s and q = q, folded h']
    have "send_view ?h' = send_view h" using e(1) v by simp
    note sp = sample_packets_view [OF this] sample_packets_view [OF v]
    have f: "g_streaming ?h'" "g_tx_div ?h' = g_tx_div h" "th_decim (hd_thread ?h') = 0"
      using e(1,2) Cons.prems(1) by (simp_all add: send_view_def)
    have "0 < ?m" using Cons.prems(2) by simp
    with Cons.IH [OF f(1)] f sp e(3,4) x False kept_step [OF Cons.prems(2), of x xs] show ?thesis by (simp add: ac_simps)
  qed
qed

text \<open>A free radio with a willing driver writes every packet.\<close>

lemma send_free:
  assumes "\<And>p d. fst (drv (EsbWritePayload p) d) = 0" and "list_all (\<lambda>p. length p \<le> 32) ps" and "\<not> radio_locked r" and "in_ptx r"
  shows "\<exists>d'. send_all (tap drv) ps (r, (d, log)) = (r, (d', log @ map EsbWritePayload ps))"
  using assms(2)
proof (induction ps arbitrary: d log)
  case (Cons p ps)
  obtain d1 where d1: "drv (EsbWritePayload p) d = (0, d1)" using assms(1) [of p d] by (cases "drv (EsbWritePayload p) d") auto
  have "htk_radio_send (tap drv) p (r, (d, log)) = (0, r, (d1, log @ [EsbWritePayload p]))"
    using Cons.prems assms(3,4) d1 by (simp add: htk_radio_send_def tap_def)
  with Cons.IH [of d1 "log @ [EsbWritePayload p]"] Cons.prems show ?case by simp
qed simp

lemma numbered_short: "list_all (\<lambda>p. length p \<le> 32) (numbered (sample_packets h) n ys)"
  by (induction ys arbitrary: n) (auto simp: sample_packets_def Let_def)

lemma handle_beacons_fields:
  "hd_state (fold (handle_beacon V) bs h) = hd_state h \<and> last_beacon (fold (handle_beacon V) bs h) = last_beacon h"
proof (induction bs arbitrary: h)
  case (Cons b bs)
  have "hd_state (obey V cmd h) = hd_state h" "last_beacon (obey V cmd h) = last_beacon h" for cmd
    by (cases cmd; simp add: set_rate_def Let_def)+
  with handle_beacon_obeys [of V b h]
  have "hd_state (handle_beacon V b h) = hd_state h" "last_beacon (handle_beacon V b h) = last_beacon h" by auto
  with Cons show ?case by simp
qed simp

lemma tstatus_step_fields:
  "hd_state (tstatus_step drv now now1 h) = hd_state h" "last_beacon (tstatus_step drv now now1 h) = last_beacon h"
  "hd_pc (tstatus_step drv now now1 h) = hd_pc h"
  by (simp_all add: tstatus_step_def send_tstatus_def split: prod.split)

lemma power_step_state:
  "hd_state (power_step dev V now heard h) =
     (if heard \<or> hd_state h = ST_ACTIVE \<and> now - last_beacon h < 15000 then ST_ACTIVE else ST_STANDBY)"
  "last_beacon (power_step dev V now heard h) = (if heard then now else last_beacon h)"
  by (cases "hd_state h"; simp add: power_step_def enter_active_def enter_standby_def Let_def)+

lemma main_round_state:
  assumes "msgq_law bmq cont cap" and "listen_end (tap drv) err (hd_radio h, hd_esb h) = (r, x)"
  shows "\<exists>h'. main_round dev V bmq (tap drv) err now now1 h = Some h' \<and> hd_pc h' = Sleeping \<and>
    last_beacon h' = (if cont (beacon_q r) \<noteq> [] then now else last_beacon h) \<and>
    hd_state h' = (if cont (beacon_q r) \<noteq> [] \<or> hd_state h = ST_ACTIVE \<and> now - last_beacon h < 15000
      then ST_ACTIVE else ST_STANDBY)"
proof -
  from main_round_run [OF assms, of dev V now now1] obtain q where
    run: "main_round dev V bmq (tap drv) err now now1 h =
      Some (tstatus_step (tap drv) now now1 (power_step dev V now (cont (beacon_q r) \<noteq> [])
        ((fold (handle_beacon V) (cont (beacon_q r)) (h\<lparr>hd_radio := r, hd_esb := x, hd_pc := Sleeping\<rparr>))
          \<lparr>hd_radio := r\<lparr>beacon_q := q\<rparr>\<rparr>)))" by blast
  show ?thesis
    by (rule exI, rule conjI, rule run)
      (simp add: tstatus_step_fields power_step_state handle_beacons_fields handle_beacons_pc)
qed

subsection \<open>Properties\<close>

text \<open>C5. Whatever the threads and interrupts of the head unit do, and in whatever order and with whatever answers of
  the sensor and the radio driver, between their steps the unit is in order: mode, rate and divider are a valid
  setting; the radio lock is held exactly in a listen window; it streams exactly when it is started and in
  ACTIVE, and then its LED says so; the queue holds nothing but beacons of a legal size; and every packet
  that it ever wrote to the radio is an ORIENT, RAW or TSTATUS packet of at most 32 bytes under its own,
  valid id, with the flags or the mode in range.\<close>

theorem head_always_safe:
  assumes "head_reachable F V dev mq bmq (tap drv) (head_boot F bq imq v (d, []) i) h"
    and "msgq_law bmq cont 8" and "cont bq = []"
  shows "head_inv cont h"
  using head_reachable_inv [OF assms(1,2) head_inv_boot [of cont bq F imq v d i]] assms(3) by simp

definition quiet_dev :: "unit imu_dev" where
  "quiet_dev c i = ((if c = ImuReady then 1 else 0, 0), i)"

text \<open>The witness: a start on a device that is ready and a radio that accepts everything.\<close>

theorem head_always_safe_witness:
  "let h = head_main toy_ops still_vqf quiet_dev (tap (log_driver (\<lambda>c. 0))) 0x5A5A1234 1000 0
       (head_boot toy_ops ([] :: htk_beacon_rx list) ([] :: imu_sample list) ((0, 0, 0), 0) ([], []) ())
   in hd_pc h = Sleeping \<and> my_id h = 0x1234 \<and> g_streaming h \<and> link_state (hd_leds h) = LEDS_LINK_STREAMING"
proof -
  let ?boot = "head_boot toy_ops ([] :: htk_beacon_rx list) ([] :: imu_sample list) ((0, 0, 0), 0) ([], []) ()"
  let ?h = "head_main toy_ops still_vqf quiet_dev (tap (log_driver (\<lambda>c. 0))) 0x5A5A1234 1000 0 ?boot"
  have "hd_pc ?boot = NotStarted" by (simp add: head_boot_def)
  then have "head_reachable toy_ops still_vqf quiet_dev (list_msgq 4) (list_msgq 8) (tap (log_driver (\<lambda>c. 0))) ?boot ?h"
    by (rule head_reachable.step [OF head_reachable.here head_step.start])
  from head_always_safe [OF this list_msgq_law] have "head_inv (take 8) ?h" by simp
  moreover have "hd_pc ?h = Sleeping \<and> my_id ?h = 0x1234 \<and> hd_state ?h = ST_ACTIVE" by code_simp
  ultimately show ?thesis by (simp add: head_inv_def started_def Let_def)
qed

text \<open>The head acts on a beacon's command exactly when it is addressed by it: a beacon that carries a command of the
  host has the effect that the command has for the tracker with that id, whatever its counter byte, and no
  effect at all on a tracker with another id.\<close>

theorem head_obeys_iff_addressed:
  assumes "command_ok cmd" and "command_target cmd = Some tid"
  shows "handle_beacon V ([HTK_PKT_BEACON, n] @ command_wire cmd) h = (if tid = my_id h then obey V cmd h else h)"
  by (rule handle_command [OF assms])

theorem head_obeys_iff_addressed_witness:
  "g_mode (handle_beacon still_vqf ([HTK_PKT_BEACON, 7] @ command_wire (SetMode 0x1234 2))
     ((head_boot toy_ops ([] :: htk_beacon_rx list) ([] :: imu_sample list) ((0, 0, 0), 0) ([], []) ())\<lparr>my_id := 0x1234\<rparr>)) = (2 :: u8)"
  by (subst head_obeys_iff_addressed [where tid = "0x1234"]) (simp_all add: valid_target_def)

text \<open>The rate that the head selects is the supported rate that is nearest to the requested one (the lower of two that
  are equally near), and the divider turns the sensor's 416 Hz into exactly this rate.\<close>

theorem set_rate_nearest:
  "g_rate_hz (set_rate hz h) \<in> set supported_rates \<and>
   unat (g_tx_div (set_rate hz h)) * unat (g_rate_hz (set_rate hz h)) = 416 \<and>
   list_all (\<lambda>r. \<bar>uint hz - uint (g_rate_hz (set_rate hz h))\<bar> < \<bar>uint hz - uint r\<bar> \<or>
      \<bar>uint hz - uint (g_rate_hz (set_rate hz h))\<bar> = \<bar>uint hz - uint r\<bar> \<and> g_rate_hz (set_rate hz h) \<le> r)
     supported_rates"
proof -
  have "0 \<le> uint hz" by simp
  then show ?thesis
    by (simp add: set_rate_def nearest_rate_thresholds Let_def)
      (auto simp: supported_rates_def word_less_def word_le_def)
qed

text \<open>C12. The power state follows the beacons: a round of the control loop always ends; if a beacon was heard in its window,
  the head is in ACTIVE and streaming afterwards, with the time of the round noted; if none was heard, it is in
  ACTIVE only if it was and less than 15 s have passed since the last one, and otherwise in STANDBY, not
  streaming.\<close>

theorem power_follows_beacons:
  assumes "msgq_law bmq cont 8" and "head_inv cont h" and "hd_pc h = Listening err"
  shows "\<exists>h'. main_round dev V bmq (tap drv) err now now1 h = Some h' \<and>
    (if cont (beacon_q (hd_radio h)) \<noteq> [] then hd_state h' = ST_ACTIVE \<and> g_streaming h' \<and> last_beacon h' = now
     else (hd_state h' = ST_ACTIVE \<longleftrightarrow> hd_state h = ST_ACTIVE \<and> now - last_beacon h < 15000) \<and>
       (g_streaming h' \<longleftrightarrow> hd_state h' = ST_ACTIVE) \<and> last_beacon h' = last_beacon h)"
proof -
  obtain d log where e: "hd_esb h = (d, log)" by fastforce
  obtain r x where l: "listen_end (tap drv) err (hd_radio h, hd_esb h) = (r, x)" by (metis surj_pair)
  obtain d' log' where x: "x = (d', log')" by fastforce
  have q: "beacon_q r = beacon_q (hd_radio h)" using listen_end_tap(1) [OF l [unfolded e x]] by simp
  obtain h' where run: "main_round dev V bmq (tap drv) err now now1 h = Some h'" and pc: "hd_pc h' = Sleeping"
    and st: "last_beacon h' = (if cont (beacon_q r) \<noteq> [] then now else last_beacon h)"
      "hd_state h' = (if cont (beacon_q r) \<noteq> [] \<or> hd_state h = ST_ACTIVE \<and> now - last_beacon h < 15000
        then ST_ACTIVE else ST_STANDBY)"
    using main_round_state [OF assms(1) l, of dev V now now1] by blast
  have "head_inv cont h'" by (rule main_round_keeps [OF assms(1-3) run])
  with pc have "g_streaming h' \<longleftrightarrow> hd_state h' = ST_ACTIVE" by (simp add: head_inv_def started_def)
  with run st show ?thesis by (simp add: q)
qed

theorem power_follows_beacons_witness:
  "let h = (head_boot toy_ops [[0x20, 7]] ([] :: imu_sample list) ((0, 0, 0), 0) ([], []) ())
       \<lparr>my_id := 0x1234, hd_state := ST_STANDBY, hd_pc := Listening 0, hd_radio := (head_radio_boot [[0x20, 7]])\<lparr>radio_locked := True\<rparr>\<rparr>;
       h' = the (main_round quiet_dev still_vqf (list_msgq 8) (tap (log_driver (\<lambda>c. 0))) 0 50000 50000 h)
   in hd_state h' = ST_ACTIVE \<and> g_streaming h'"
proof -
  let ?h = "(head_boot toy_ops [[0x20, 7]] ([] :: imu_sample list) ((0, 0, 0), 0) ([], []) ())
       \<lparr>my_id := 0x1234, hd_state := ST_STANDBY, hd_pc := Listening 0, hd_radio := (head_radio_boot [[0x20, 7]])\<lparr>radio_locked := True\<rparr>\<rparr>"
  have "head_inv (take 8) ?h"
    by (simp add: head_inv_def head_boot_def settings_ok_def started_def head_radio_boot_def head_leds_boot_def
        supported_rates_def valid_target_def)
  from power_follows_beacons [OF list_msgq_law this, of 0 quiet_dev still_vqf "log_driver (\<lambda>c. 0)" 50000 50000]
  obtain h' where "main_round quiet_dev still_vqf (list_msgq 8) (tap (log_driver (\<lambda>c. 0))) 0 50000 50000 ?h = Some h'"
    "hd_state h' = ST_ACTIVE" "g_streaming h'" by (auto simp: head_radio_boot_def)
  then show ?thesis by (simp only: Let_def option.sel simp_thms)
qed

text \<open>C32. Decimation: while the head streams, and from any phase of the counter, exactly one of every \<open>g_tx_div\<close> samples is
  transmitted. The calls of \<open>htk_radio_send\<close> that are made are exactly these: for each of these samples in turn the ORIENT or RAW packet or
  both, as the mode says, with the sample's data, under the head's id and each with the next sequence number; and the number is counted on
  also when the radio refuses a packet, so that the receiver can see the loss. If the radio is free and the driver takes
  everything, these packets are what is written to it.\<close>

theorem decimation_exact:
  assumes "g_streaming h" and "unat (th_decim (hd_thread h)) < unat (g_tx_div h)"
    and "h' = stream_rounds (tap drv) xs h" and "hd_esb h = (d, log)" and "hd_esb h' = (d', log')"
    and "ps = numbered (sample_packets h) (tx_seq h) (kept_samples (unat (th_decim (hd_thread h))) (unat (g_tx_div h)) xs)"
  shows "(hd_radio h', hd_esb h') = send_all (tap drv) ps (hd_radio h, hd_esb h) \<and> tx_seq h' = tx_seq h + of_nat (length ps) \<and>
    ((\<forall>p d. fst (drv (EsbWritePayload p) d) = 0) \<and> \<not> radio_locked (hd_radio h) \<and> in_ptx (hd_radio h) \<longrightarrow>
      log' = log @ map EsbWritePayload ps)"
proof -
  from rounds_send [OF assms(1,2), of "tap drv" xs] have e: "(hd_radio h', hd_esb h') = send_all (tap drv) ps (hd_radio h, hd_esb h)"
    "tx_seq h' = tx_seq h + of_nat (length ps)" by (simp_all add: assms(3,6))
  have "list_all (\<lambda>p. length p \<le> 32) ps" unfolding assms(6) by (rule numbered_short)
  note free = send_free [OF _ this, of drv "hd_radio h" d log]
  show ?thesis
  proof (intro conjI impI e)
    assume "(\<forall>p d. fst (drv (EsbWritePayload p) d) = 0) \<and> \<not> radio_locked (hd_radio h) \<and> in_ptx (hd_radio h)"
    then show "log' = log @ map EsbWritePayload ps" using free e(1) assms(4,5) by auto
  qed
qed

definition zero_sample :: imu_sample where
  "zero_sample = \<lparr>is_t_us = 0, is_gyr = (0, 0, 0), is_acc = (0, 0, 0), is_rgyr = (0, 0, 0), is_racc = (0, 0, 0)\<rparr>"

lemma kept_half: "kept_samples 0 (Suc (Suc 0)) (x # y # ys) = y # kept_samples 0 (Suc (Suc 0)) ys"
  by (simp add: kept_step)

lemma kept_one: "kept_samples 0 (Suc (Suc 0)) [x] = []"
  by (simp add: kept_step kept_nil)

text \<open>The witness: of nine samples at a divider of two, four go out, each as two packets.\<close>

theorem decimation_exact_witness:
  "let h = (head_boot toy_ops ([] :: htk_beacon_rx list) ([] :: imu_sample list) ((0, 0, 0) :: vec3, 0 :: f32) ([] :: radio_call list, [] :: radio_call list) ())
       \<lparr>g_streaming := True, g_mode := HTK_MODE_BOTH, hd_radio := (head_radio_boot [])\<lparr>in_ptx := True\<rparr>\<rparr>;
       h' = stream_rounds (tap (log_driver (\<lambda>c. 0))) (replicate 9 (0, zero_sample, (0, 0, 0, 0))) h
   in length (snd (hd_esb h')) = 8 \<and> tx_seq h' = 8"
proof -
  let ?h = "(head_boot toy_ops ([] :: htk_beacon_rx list) ([] :: imu_sample list) ((0, 0, 0) :: vec3, 0 :: f32) ([] :: radio_call list, [] :: radio_call list) ())
       \<lparr>g_streaming := True, g_mode := HTK_MODE_BOTH, hd_radio := (head_radio_boot [])\<lparr>in_ptx := True\<rparr>\<rparr>"
  let ?xs = "replicate 9 (0, zero_sample, (0, 0, 0, 0))"
  let ?h' = "stream_rounds (tap (log_driver (\<lambda>c. 0))) ?xs ?h"
  let ?ps = "numbered (sample_packets ?h) (tx_seq ?h) (kept_samples (unat (th_decim (hd_thread ?h))) (unat (g_tx_div ?h)) ?xs)"
  obtain d' log' where e: "hd_esb ?h' = (d', log')" by fastforce
  have run: "log' = [] @ map EsbWritePayload ?ps \<and> tx_seq ?h' = tx_seq ?h + of_nat (length ?ps)"
    using decimation_exact [where h = ?h and drv = "log_driver (\<lambda>c. 0)" and log = "[]" and d = "[]", OF _ _ refl _ e refl]
    by (simp add: head_boot_def fusion_thread_init_def log_driver_def head_radio_boot_def)
  have counters: "unat (th_decim (hd_thread ?h)) = 0" "unat (g_tx_div ?h) = 2" "tx_seq ?h = 0"
    by (simp_all add: head_boot_def fusion_thread_init_def)
  have kept: "length (kept_samples 0 2 (replicate 9 y)) = 4" for y :: 'z
    by (simp add: kept_half kept_one numeral_eq_Suc)
  have two: "length (numbered (sample_packets ?h) n ys) = 2 * length ys" for n ys
    by (induction ys arbitrary: n) (simp_all add: sample_packets_def head_boot_def split: prod.split)
  have "length ?ps = 8" by (simp only: counters kept two)
  with run counters(3) e show ?thesis by (simp add: Let_def)
qed

text \<open>The sample queue is latest-wins: a data-ready interrupt with a reading always leaves the fresh sample at the
  end of the queue of four; a full queue loses its oldest sample, and exactly this loss is counted; a failed
  reading changes nothing.\<close>

theorem imu_queue_latest_wins:
  assumes "msgq_law mq cont 4"
  shows "imu_drdy F mq t None h = h \<and>
    (\<exists>s. is_t_us s = t \<and> is_gyr s = g \<and> is_acc s = a \<and>
      cont (imu_msgq (imu_drdy F mq t (Some (g, a)) h)) =
        (if length (cont (imu_msgq h)) = 4 then tl (cont (imu_msgq h)) else cont (imu_msgq h)) @ [s] \<and>
      imu_drops (imu_drdy F mq t (Some (g, a)) h) =
        imu_drops h + (if length (cont (imu_msgq h)) = 4 then 1 else 0))"
proof -
  let ?s = "\<lparr>is_t_us = t, is_gyr = g, is_acc = a, is_rgyr = clamp3 F (GYRO_LSB_PER_RAD_S F) g,
    is_racc = clamp3 F (ACC_LSB_PER_MS2 F) a\<rparr>"
  obtain ok q1 where p1: "msgq_put mq ?s (imu_msgq h) = (ok, q1)" by fastforce
  obtain x q2 where g: "msgq_get mq q1 = (x, q2)" by fastforce
  obtain ok2 q3 where p2: "msgq_put mq ?s q2 = (ok2, q3)" by fastforce
  note msgq_cap [OF assms, of "imu_msgq h"] msgq_put [OF assms p1] msgq_get [OF assms g] msgq_put [OF assms p2]
  then show ?thesis
    using p1 g p2 by (intro conjI exI [of _ ?s]) (auto simp: imu_drdy_def)
qed

theorem imu_queue_latest_wins_witness:
  "imu_drops (imu_drdy toy_ops (list_msgq 4) 7 (Some ((0, 0, 0), (0, 0, 0)))
     (head_boot toy_ops ([] :: htk_beacon_rx list) (replicate 4 zero_sample) ((0, 0, 0), 0) [] ())) = 1"
  using imu_queue_latest_wins [OF list_msgq_law, of toy_ops 7
      "head_boot toy_ops ([] :: htk_beacon_rx list) (replicate 4 zero_sample) ((0, 0, 0), 0) [] ()" "(0, 0, 0)" "(0, 0, 0)"]
  by (auto simp: head_boot_def)

end
