(* ===== verification/Fabric.thy ===== *)
theory Fabric
  imports Parser Dongle Head_Main "HOL-Library.Sublist"
begin

text \<open>
  The parts put together: what the dongle sends, read by the host's parser; a command from the host through the
  dongle's receiver and its beacons to the heads; the samples of the heads through the dongle to the host.
\<close>

subsection \<open>Reading a stream that has not ended\<close>

lemma cut_no_zero: "0 \<notin> set bs \<Longrightarrow> cut seg bs = ([], seg @ bs)"
  by (induction bs arbitrary: seg) auto

context framing begin

text \<open>A receiver that has seen part of a stream of frames has seen some whole frames and the beginning of the next.\<close>

lemma cut_frames_prefix:
  assumes "\<forall>p \<in> set ps. ok p" and "xs @ ys = concat (map enc ps)"
  shows "\<exists>k r. k \<le> length ps \<and> cut [] xs = (map block (take k ps), r) \<and> length r \<le> block_max \<and>
    xs = concat (map enc (take k ps)) @ r \<and> (k < length ps \<longrightarrow> length r < length (enc (ps ! k))) \<and> (k = length ps \<longrightarrow> r = [])"
  using assms
proof (induction ps arbitrary: xs)
  case Nil
  then show ?case by simp
next
  case (Cons p ps)
  have p: "ok p" and ps: "\<forall>q \<in> set ps. ok q" using Cons.prems(1) by simp_all
  show ?case
  proof (cases "length xs \<le> length (block p)")
    case True
    have "xs = take (length xs) (enc p @ concat (map enc ps))" using Cons.prems(2) by (metis append_eq_conv_conj concat.simps(2) list.simps(9))
    with True have xs: "xs = take (length xs) (block p)" by (simp add: enc_block [OF p])
    then have "0 \<notin> set xs" using block_no_zero [OF p] by (metis in_set_takeD)
    then have "cut [] xs = ([], xs)" by (simp add: cut_no_zero)
    with True p block_length [OF p] show ?thesis by (intro exI [of _ 0] exI [of _ xs]) (simp add: enc_block)
  next
    case False
    have "enc p @ concat (map enc ps) = xs @ ys" using Cons.prems(2) by simp
    moreover have "length (enc p) \<le> length xs" using False by (simp add: enc_block [OF p])
    ultimately obtain xs' where xs: "xs = enc p @ xs'" "xs' @ ys = concat (map enc ps)"
      by (auto simp: append_eq_append_conv2)
    from Cons.IH [OF ps xs(2)] obtain k r where IH: "k \<le> length ps" "cut [] xs' = (map block (take k ps), r)"
      "length r \<le> block_max" "xs' = concat (map enc (take k ps)) @ r" "k < length ps \<longrightarrow> length r < length (enc (ps ! k))"
      "k = length ps \<longrightarrow> r = []" by blast
    have "cut [] xs = (map block (take (Suc k) (p # ps)), r)"
      using IH(2) by (simp add: xs(1) enc_block [OF p] cut_segment [OF block_no_zero [OF p]])
    with IH xs(1) show ?thesis by (intro exI [of _ "Suc k"] exI [of _ r]) simp
  qed
qed

end

lemma frames_for_encode: "frames_for ps = concat (map (\<lambda>p. htk_frame_encode p 64) ps)"
  by (simp add: frames_for_def)

lemma parser_prefix:
  assumes wf: "\<forall>pkt \<in> set pkts. packet_wf pkt" and xs: "xs @ ys = frames_for (map packet_bytes pkts)"
  shows "\<exists>k. k \<le> length pkts \<and> (ys = [] \<longrightarrow> k = length pkts) \<and>
    length (frames_for (map packet_bytes (take k pkts))) \<le> length xs \<and>
    (k < length pkts \<longrightarrow> length xs < length (frames_for (map packet_bytes (take (Suc k) pkts)))) \<and>
    snd (feed cbs xs (parser_init, env)) = fold (deliver cbs) (take k pkts) env \<and>
    stats (fst (feed cbs xs (parser_init, env))) = (stats parser_init)\<lparr>frames_ok := of_nat k\<rparr>"
proof -
  let ?ps = "map packet_bytes pkts"
  have ok: "\<forall>p \<in> set ?ps. payload_ok p" using wf packet_bytes_ok by auto
  from htk.cut_frames_prefix [OF ok xs [unfolded frames_for_encode]] obtain k r where
    k: "k \<le> length pkts" "cut [] xs = (map frame_block (take k ?ps), r)" "length r \<le> 62"
      "xs = frames_for (take k ?ps) @ r" "k < length pkts \<longrightarrow> length r < length (htk_frame_encode (?ps ! k) 64)"
      "k = length pkts \<longrightarrow> r = []"
    by (auto simp: frames_for_encode)
  have ok': "\<forall>p \<in> set (take k ?ps). payload_ok p" using ok by (meson in_set_takeD)
  have wf': "\<forall>pkt \<in> set (take k pkts). packet_wf pkt" using wf by (meson in_set_takeD)
  have "parser_obs (feed cbs xs (parser_init, env)) =
    host.open_obs r (fold (host.settle cbs) (map frame_block (take k ?ps)) (parser_obs (parser_init, env)))"
    using host.feed_fresh(1) [OF _ k(2), of "(parser_init, env)" cbs] by (simp add: feed_def parser_view_def parser_init_def)
  also have "\<dots> = fold (process_payload cbs) (map packet_bytes (take k pkts)) (stats parser_init, env)"
    using host.fold_settle_blocks [OF ok', of cbs] k(3) by (simp add: host.open_obs_def parser_obs_def take_map)
  also have "\<dots> = ((stats parser_init)\<lparr>frames_ok := of_nat k\<rparr>, fold (deliver cbs) (take k pkts) env)"
    using process_packets [OF wf', of cbs "stats parser_init" env] k(1) by (simp add: parser_init_def min_absorb2)
  finally have obs: "stats (fst (feed cbs xs (parser_init, env))) = (stats parser_init)\<lparr>frames_ok := of_nat k\<rparr>"
    "snd (feed cbs xs (parser_init, env)) = fold (deliver cbs) (take k pkts) env"
    by (auto simp: parser_obs_def split: prod.splits)
  have len: "length (frames_for (map packet_bytes (take k pkts))) \<le> length xs" using k(4) by (simp add: take_map)
  have part: "length xs < length (frames_for (map packet_bytes (take (Suc k) pkts)))" if "k < length pkts"
    using k(4,5) that by (simp add: take_Suc_conv_app_nth take_map frames_for_def)
  have "k = length pkts" if "ys = []"
  proof (rule ccontr)
    assume "k \<noteq> length pkts"
    with k(1) part have "length xs < length (frames_for (map packet_bytes (take (Suc k) pkts)))" by simp
    also have "\<dots> \<le> length (frames_for (map packet_bytes (take (Suc k) pkts @ drop (Suc k) pkts)))"
      by (simp only: map_append frames_for_append) simp
    finally show False using xs that by simp
  qed
  with k(1) len part obs show ?thesis by blast
qed

subsection \<open>Samples through the dongle\<close>

text \<open>
  What happens on the way, in any order: the radio interrupt hands out packets, the processing thread takes its turn (it waits as
  long as its queue is empty), the USB interrupt runs, and the state of the USB device changes.
\<close>

datatype fabric_event = FromAir "bytes list" | RxThread int | UsbIrq "uart_iter list" | HostStatus usb_dc_status

type_synonym ('q, 'r) fabric = "'q dongle_radio \<times> trackers \<times> 'r usb_io \<times> dongle_leds"

fun fabric_step :: "(bytes, 'q) msgq_ops \<Rightarrow> 'r ring_ops \<Rightarrow> fabric_event \<Rightarrow> ('q, 'r) fabric \<Rightarrow> ('q, 'r) fabric" where
  "fabric_step mq ops (FromAir ps) (r, y) = (fst (on_esb_event mq (\<lambda>c d. (0, d)) (RxReceived ps) (r, ())), y)"
| "fabric_step mq ops (RxThread now) x = (case rx_thread_round mq ops now x of None \<Rightarrow> x | Some x' \<Rightarrow> x')"
| "fabric_step mq ops (UsbIrq its) (r, t, u, l) = (r, t, cdc_irq_handler ops its u, l)"
| "fabric_step mq ops (HostStatus st) (r, t, u, l) = (r, t, usb_status_cb st u, l)"

fun event_ok :: "fabric_event \<Rightarrow> bool" where
  "event_ok (UsbIrq its) = list_all uart_law its"
| "event_ok e = True"

text \<open>The packets that arrived at the radio, and those that the thread took from its queue, each with whether a host was configured.\<close>

fun arrived :: "fabric_event list \<Rightarrow> bytes list" where
  "arrived [] = []"
| "arrived (FromAir ps # es) = ps @ arrived es"
| "arrived (e # es) = arrived es"

fun taken :: "(bytes, 'q) msgq_ops \<Rightarrow> fabric_event \<Rightarrow> ('q, 'r) fabric \<Rightarrow> (bytes \<times> bool) list" where
  "taken mq (RxThread now) (r, t, u, l) =
     (case fst (msgq_get mq (rx_msgq r)) of None \<Rightarrow> [] | Some p \<Rightarrow> [(p, usb_configured u)])"
| "taken mq e x = []"

fun handled :: "(bytes, 'q) msgq_ops \<Rightarrow> 'r ring_ops \<Rightarrow> fabric_event list \<Rightarrow> ('q, 'r) fabric \<Rightarrow> (bytes \<times> bool) list" where
  "handled mq ops [] x = []"
| "handled mq ops (e # es) x = taken mq e x @ handled mq ops es (fabric_step mq ops e x)"

text \<open>The packets among these that are for the host: the samples of the heads.\<close>

definition for_host :: "bytes \<Rightarrow> bool" where
  "for_host p \<longleftrightarrow> length p = 26 \<and> p ! 0 = HTK_PKT_ORIENT \<or> length p = 22 \<and> p ! 0 = HTK_PKT_RAW"

definition samples :: "bytes list \<Rightarrow> packet list" where
  "samples ps = map unpack (filter for_host ps)"

lemma samples_simps [simp]:
  "samples [] = []" "samples (p # ps) = (if for_host p then unpack p # samples ps else samples ps)"
  by (simp_all add: samples_def)

lemma for_host_packet:
  assumes "for_host p"
  shows "packet_wf (unpack p) \<and> packet_bytes (unpack p) = p"
proof -
  from assms have "dongle_payload p" by (auto simp: for_host_def forwarded_payload)
  then show ?thesis by (auto simp: dongle_payload_def unpack_packet_bytes)
qed

lemma rx_packet_host:
  "\<exists>t' l'. rx_packet ops now p (t, u, l) = (t', if for_host p then usb_io_send_payload ops p u else u, l')"
  by (cases "length p < 1") (auto simp: rx_packet_def for_host_def Let_def)

text \<open>What a head sends is a sample for the host or a self-report.\<close>

lemma head_sample: "head_payload tid p \<Longrightarrow> for_host p \<longleftrightarrow> p ! 0 \<noteq> HTK_PKT_TSTATUS"
  by (auto simp: head_payload_def for_host_def)

text \<open>The queue of the radio interrupt: what is put in comes out in order, and what does not fit is counted.\<close>

lemma queue_rx_run:
  assumes "msgq_law mq qc cap"
  shows "\<exists>kept n. subseq kept ps \<and> qc (rx_msgq (fold (queue_rx mq) ps r)) = qc (rx_msgq r) @ kept \<and>
    rx_queue_overruns (fold (queue_rx mq) ps r) = rx_queue_overruns r + of_nat n \<and> n + length kept = length ps"
proof (induction ps arbitrary: r)
  case Nil
  then show ?case by simp
next
  case (Cons p ps)
  obtain ok q where put: "msgq_put mq p (rx_msgq r) = (ok, q)" by fastforce
  note law = msgq_put [OF assms put]
  let ?r = "queue_rx mq p r"
  have r: "qc (rx_msgq ?r) = qc (rx_msgq r) @ (if ok then [p] else [])"
    "rx_queue_overruns ?r = rx_queue_overruns r + (if ok then 0 else 1)"
    using law by (simp_all add: queue_rx_def put Let_def)
  from Cons.IH [of ?r] obtain kept n where IH: "subseq kept ps" "n + length kept = length ps"
    "qc (rx_msgq (fold (queue_rx mq) ps ?r)) = qc (rx_msgq ?r) @ kept"
    "rx_queue_overruns (fold (queue_rx mq) ps ?r) = rx_queue_overruns ?r + of_nat n" by blast
  show ?case
  proof (cases ok)
    case True
    with IH r show ?thesis by (intro exI [of _ "p # kept"] exI [of _ n]) simp
  next
    case False
    with IH r show ?thesis by (intro exI [of _ kept] exI [of _ "Suc n"]) (simp add: list_emb_Cons)
  qed
qed

lemma fabric_queue:
  assumes "msgq_law mq qc cap" and "fold (fabric_step mq ops) es x = x'"
  shows "\<exists>kept n. subseq kept (arrived es) \<and> n + length kept = length (arrived es) \<and>
    qc (rx_msgq (fst x)) @ kept = map fst (handled mq ops es x) @ qc (rx_msgq (fst x')) \<and>
    rx_queue_overruns (fst x') = rx_queue_overruns (fst x) + of_nat n"
  using assms(2)
proof (induction es arbitrary: x)
  case Nil
  then show ?case by simp
next
  case (Cons e es)
  obtain r t u l where x: "x = (r, t, u, l)" by (rule prod_cases4)
  from Cons.IH [of "fabric_step mq ops e x"] Cons.prems obtain kept n where
    IH: "subseq kept (arrived es)" "n + length kept = length (arrived es)"
      "qc (rx_msgq (fst (fabric_step mq ops e x))) @ kept =
        map fst (handled mq ops es (fabric_step mq ops e x)) @ qc (rx_msgq (fst x'))"
      "rx_queue_overruns (fst x') = rx_queue_overruns (fst (fabric_step mq ops e x)) + of_nat n" by auto
  show ?case
  proof (cases e)
    case (FromAir ps)
    from queue_rx_run [OF assms(1), of ps r] obtain kept0 n0 where
      q: "subseq kept0 ps" "n0 + length kept0 = length ps"
        "qc (rx_msgq (fold (queue_rx mq) ps r)) = qc (rx_msgq r) @ kept0"
        "rx_queue_overruns (fold (queue_rx mq) ps r) = rx_queue_overruns r + of_nat n0" by blast
    with IH FromAir show ?thesis
      by (intro exI [of _ "kept0 @ kept"] exI [of _ "n0 + n"]) (auto simp: x list_emb_append_mono)
  next
    case (RxThread now)
    obtain p q where g: "msgq_get mq (rx_msgq r) = (p, q)" by fastforce
    note law = msgq_get [OF assms(1) g]
    from law IH RxThread show ?thesis
      by (intro exI [of _ kept] exI [of _ n]) (cases "qc (rx_msgq r)", auto simp: x rx_thread_round_def g)
  next
    case (UsbIrq its)
    with IH show ?thesis by (intro exI [of _ kept] exI [of _ n]) (simp add: x)
  next
    case (HostStatus st)
    with IH show ?thesis by (intro exI [of _ kept] exI [of _ n]) (simp add: x)
  qed
qed

lemma irq_keeps [simp]:
  "usb_configured (cdc_irq_handler ops its u) = usb_configured u" "tx_dropped (cdc_irq_handler ops its u) = tx_dropped u"
  by (induction its arbitrary: u)
    (auto simp: irq_rx_def tx_fetch_def tx_fill_def Let_def split: prod.splits sum.splits if_splits)

text \<open>The other half of the way: of the packets that the thread takes while a host is there, the samples are framed or counted.\<close>

lemma send_half:
  assumes law: "ring_law ops cont cap" and inv: "tx_inv cont u" and "for_host p" and u': "u' = usb_io_send_payload ops p u"
  shows "\<exists>acc n. tx_inv cont u' \<and> tx_stream cont u' = tx_stream cont u @ frames_for (map packet_bytes acc) \<and>
    (\<forall>pkt \<in> set acc. packet_wf pkt) \<and> subseq acc (if usb_configured u then [unpack p] else []) \<and>
    tx_dropped u' = tx_dropped u + of_nat n \<and> n + length acc = (if usb_configured u then 1 else 0)"
proof -
  note wf = for_host_packet [OF assms(3)]
  have ok: "payload_ok p" using wf packet_bytes_ok by metis
  note step = usb_step_stream [OF law inv, of "SendPayload p"]
  have conf: "send_accepts ops p u \<Longrightarrow> usb_configured u" by (simp add: send_accepts_def)
  show ?thesis
  proof (cases "send_accepts ops p u")
    case True
    with step wf conf show ?thesis
      by (intro exI [of _ "[unpack p]"] exI [of _ 0]) (simp add: u' send_dropped)
  next
    case False
    with step ok show ?thesis
      by (intro exI [of _ "[]"] exI [of _ "if usb_configured u then 1 else 0"]) (simp add: u' send_dropped frames_for_def)
  qed
qed

lemma fabric_half:
  assumes law: "ring_law ops cont cap" and "event_ok e" and inv: "tx_inv cont u" and x: "x = (r, t, u, l)"
  shows "\<exists>acc n. subseq acc (samples (map fst (filter snd (taken mq e x)))) \<and> (\<forall>pkt \<in> set acc. packet_wf pkt) \<and>
    n + length acc = length (samples (map fst (filter snd (taken mq e x)))) \<and>
    tx_inv cont (fst (snd (snd (fabric_step mq ops e x)))) \<and>
    tx_stream cont (fst (snd (snd (fabric_step mq ops e x)))) = tx_stream cont u @ frames_for (map packet_bytes acc) \<and>
    tx_dropped (fst (snd (snd (fabric_step mq ops e x)))) = tx_dropped u + of_nat n"
proof (cases e)
  case (FromAir ps)
  with inv show ?thesis by (intro exI [of _ "[]"]) (simp add: x frames_for_def)
next
  case (UsbIrq its)
  with assms(2) usb_step_stream [OF law inv, of "UartIrq its"] show ?thesis
    by (intro exI [of _ "[]"]) (simp add: x frames_for_def)
next
  case (HostStatus st)
  with usb_step_stream [OF law inv, of "UsbStatus st"] show ?thesis
    by (intro exI [of _ "[]"]) (cases st, simp_all add: x frames_for_def tx_stream_def)
next
  case (RxThread now)
  show ?thesis
  proof (cases "fst (msgq_get mq (rx_msgq r))")
    case None
    with RxThread inv show ?thesis
      by (intro exI [of _ "[]"]) (auto simp: x frames_for_def rx_thread_round_def split: prod.split)
  next
    case (Some p)
    obtain t1 l1 where rx: "rx_packet ops now p (t, u, l) = (t1, if for_host p then usb_io_send_payload ops p u else u, l1)"
      using rx_packet_host by blast
    have u1: "fst (snd (snd (fabric_step mq ops e x))) = (if for_host p then usb_io_send_payload ops p u else u)"
      using Some RxThread rx by (auto simp: x rx_thread_round_def split: prod.split)
    have tk: "samples (map fst (filter snd (taken mq e x))) = (if usb_configured u \<and> for_host p then [unpack p] else [])"
      using Some RxThread by (simp add: x)
    show ?thesis
    proof (cases "for_host p")
      case True
      from send_half [OF law inv True refl] True show ?thesis unfolding u1 tk by (auto split: if_splits)
    next
      case False
      with inv show ?thesis unfolding u1 tk by (intro exI [of _ "[]"]) (simp add: frames_for_def)
    qed
  qed
qed

lemma fabric_send:
  assumes law: "ring_law ops cont cap" and "list_all event_ok es" and "tx_inv cont (fst (snd (snd x)))"
    and "fold (fabric_step mq ops) es x = (r', t', u', l')"
  shows "\<exists>acc n. subseq acc (samples (map fst (filter snd (handled mq ops es x)))) \<and> (\<forall>pkt \<in> set acc. packet_wf pkt) \<and>
    n + length acc = length (samples (map fst (filter snd (handled mq ops es x)))) \<and>
    tx_stream cont u' = tx_stream cont (fst (snd (snd x))) @ frames_for (map packet_bytes acc) \<and>
    tx_dropped u' = tx_dropped (fst (snd (snd x))) + of_nat n"
  using assms(2-)
proof (induction es arbitrary: x)
  case Nil
  then show ?case by (intro exI [of _ "[]"]) (simp add: frames_for_def)
next
  case (Cons e es)
  obtain r t u l where x: "x = (r, t, u, l)" by (rule prod_cases4)
  let ?x = "fabric_step mq ops e x"
  let ?now = "samples (map fst (filter snd (taken mq e x)))"
  obtain acc0 n0 where half: "subseq acc0 ?now" "\<forall>pkt \<in> set acc0. packet_wf pkt" "n0 + length acc0 = length ?now"
    "tx_inv cont (fst (snd (snd ?x)))" "tx_stream cont (fst (snd (snd ?x))) = tx_stream cont u @ frames_for (map packet_bytes acc0)"
    "tx_dropped (fst (snd (snd ?x))) = tx_dropped u + of_nat n0"
    using fabric_half [OF law _ _ x, of e mq] Cons.prems(1,2) x by auto
  from Cons.IH [of ?x] Cons.prems half(4) obtain acc n where
    "subseq acc (samples (map fst (filter snd (handled mq ops es ?x))))" "\<forall>pkt \<in> set acc. packet_wf pkt"
    "n + length acc = length (samples (map fst (filter snd (handled mq ops es ?x))))"
    "tx_stream cont u' = tx_stream cont (fst (snd (snd ?x))) @ frames_for (map packet_bytes acc)"
    "tx_dropped u' = tx_dropped (fst (snd (snd ?x))) + of_nat n" by auto
  with half show ?case
    by (intro exI [of _ "acc0 @ acc"] exI [of _ "n0 + n"])
      (auto simp: x samples_def frames_for_append list_emb_append_mono)
qed

subsection \<open>Properties\<close>

text \<open>C3. The host sees the dongle's packets: at any instant of any run of the dongle, the bytes that it has sent, read by a
  fresh parser in whatever chunks, are delivered as the first \<open>k\<close> of the well-formed packets that the dongle has
  framed, in order, where the \<open>(k + 1)\<close>-th is not yet complete; all of them if nothing waits; and no error of any
  kind is counted.\<close>

theorem host_sees_dongle_packets:
  assumes "ring_law ops cont cap" and "cont tx = []"
    and "dongle_reachable ops mq drv F (dongle_reset tx rx q clock d) s"
    and "concat chunks = cdc_out (dg_usb (sys_dongle s))" and "fold (feed cbs) chunks (parser_init, env) = (p, env')"
  shows "\<exists>pkts k. (\<forall>pkt \<in> set pkts. packet_wf pkt) \<and> k \<le> length pkts \<and>
    cdc_out (dg_usb (sys_dongle s)) @ concat (tx_queue cont (dg_usb (sys_dongle s))) = frames_for (map packet_bytes pkts) \<and>
    (k < length pkts \<longrightarrow> length (concat chunks) < length (frames_for (map packet_bytes (take (Suc k) pkts)))) \<and>
    (tx_queue cont (dg_usb (sys_dongle s)) = [] \<longrightarrow> k = length pkts) \<and>
    env' = fold (deliver cbs) (take k pkts) env \<and> stats p = (stats parser_init)\<lparr>frames_ok := of_nat k\<rparr>"
proof -
  have "sys_inv cont s" by (rule dongle_reachable_sys_inv [OF assms(1) sys_inv_reset assms(3)]) (rule assms(2))
  then obtain acc where acc: "\<forall>p \<in> set acc. dongle_payload p" "tx_stream cont (dg_usb (sys_dongle s)) = frames_for acc"
    by (auto simp: sys_inv_def dongle_inv_def stream_ok_def)
  then obtain pkts where pkts: "\<forall>pkt \<in> set pkts. packet_wf pkt" "acc = map packet_bytes pkts"
    using payloads_packets [of acc] unfolding dongle_payload_def by blast
  let ?q = "concat (tx_queue cont (dg_usb (sys_dongle s)))"
  have xs: "concat chunks @ ?q = frames_for (map packet_bytes pkts)"
    using acc(2) pkts(2) assms(4) by (simp add: tx_stream_def)
  from parser_prefix [OF pkts(1) xs, of cbs env] obtain k where
    "k \<le> length pkts" "?q = [] \<longrightarrow> k = length pkts"
    "k < length pkts \<longrightarrow> length (concat chunks) < length (frames_for (map packet_bytes (take (Suc k) pkts)))"
    "snd (feed cbs (concat chunks) (parser_init, env)) = fold (deliver cbs) (take k pkts) env"
    "stats (fst (feed cbs (concat chunks) (parser_init, env))) = (stats parser_init)\<lparr>frames_ok := of_nat k\<rparr>" by blast
  with assms(4,5) pkts(1) xs show ?thesis
    by (intro exI [of _ pkts] exI [of _ k]) (auto simp: feed_chunks)
qed

text \<open>The witness: a dongle that finds HELLO in its receive ring.\<close>

declare rx_work_fn.simps [code]

theorem host_sees_dongle_packets_witness:
  "\<exists>(s :: (nat \<times> bytes, bytes list, radio_call list) dongle_sys) p pkts.
    feed logging (cdc_out (dg_usb (sys_dongle s))) (parser_init, []) = (p, pkts) \<and>
    frames_ok (stats p) = 1 \<and> decode_errors (stats p) = 0"
proof -
  let ?F = toy_ops
  let ?drv = "log_driver (\<lambda>c. 0)" and ?mq = "list_msgq 64 :: (bytes, bytes list) msgq_ops"
  let ?start = "dongle_reset (2048, []) (256, encode_hello) [] (\<lambda>n. 0) [] :: (nat \<times> bytes, bytes list, radio_call list) dongle_sys"
  let ?up = "upd_dongle (\<lambda>dg. dg\<lparr>dg_usb := usb_status_cb USB_DC_CONFIGURED (dg_usb dg)\<rparr>) ?start"
  let ?work = "rx_work_fn list_ring (sys_rx ?up) (sys_dongle ?up)"
  let ?done = "?up\<lparr>sys_rx := fst (the ?work), sys_dongle := snd (the ?work)\<rparr>"
  let ?s = "upd_dongle (\<lambda>dg. dg\<lparr>dg_usb := cdc_irq_handler list_ring [iter_fill 64] (dg_usb dg)\<rparr>) ?done"
  have "?work \<noteq> None" by code_simp
  then have work: "?work = Some (fst (the ?work), snd (the ?work))" by simp
  have "dongle_reachable list_ring ?mq ?drv ?F ?start ?up"
    by (rule dongle_reachable.step [OF dongle_reachable.here dongle_step.usb_status])
  then have "dongle_reachable list_ring ?mq ?drv ?F ?start ?done"
    by (rule dongle_reachable.step [OF _ dongle_step.rx_work [OF work]])
  then have reach: "dongle_reachable list_ring ?mq ?drv ?F ?start ?s"
    by (rule dongle_reachable.step [OF _ dongle_step.uart]) simp
  obtain p pkts where f: "feed logging (cdc_out (dg_usb (sys_dongle ?s))) (parser_init, []) = (p, pkts)" by fastforce
  have "frames_ok (stats (fst (feed logging (cdc_out (dg_usb (sys_dongle ?s))) (parser_init, [])))) = 1" by code_simp
  with f have one: "frames_ok (stats p) = 1" by (simp only: fst_conv)
  have "fold (feed logging) [cdc_out (dg_usb (sys_dongle ?s))] (parser_init, []) = (p, pkts)"
    by (simp only: fold.simps comp_apply id_apply f)
  from host_sees_dongle_packets [OF list_ring_law _ reach _ this]
  have "\<exists>k. stats p = (stats parser_init)\<lparr>frames_ok := of_nat k\<rparr>" unfolding list_ring_bytes_simp concat.simps append_Nil2 take_Nil by blast
  then have "decode_errors (stats p) = 0" by (auto simp: parser_init_def)
  with f one show ?thesis by blast
qed

text \<open>C2. A command travels from the host to the tracker that it names, and no other: after any noise on the USB line, a
  command for tracker \<open>tid\<close> that the host library has encoded is what the next 30 beacons of the dongle carry and
  all later ones do not; each beacon fits the head's receive buffer; and a head that hears one of the 30 does
  what the command says if it is the tracker \<open>tid\<close>, and nothing otherwise.\<close>

theorem command_reaches_head:
  assumes "command_ok cmd" and "command_target cmd = Some tid"
    and "fold (rx_byte ops) (noise @ [0] @ encode_command cmd) x = (rx, dg)"
    and "\<And>d. fst (esb_setup drv ESB_MODE_PTX d) = 0"
    and "(beacon_work_fn (tap drv) ^^ n) (dg_radio dg, l, (d, [])) = (r', l', (d', log))"
  shows "length (writes log) = n \<and> (\<forall>i < n.
    2 \<le> length (writes log ! i) \<and> length (writes log ! i) \<le> HTK_ESB_MAX_PAYLOAD \<and>
    handle_beacon V (writes log ! i) h = (if i < 30 \<and> tid = my_id h then obey V cmd h else h))"
proof -
  let ?c = "command_wire cmd"
  obtain rx0 dg0 where x0: "fold (rx_byte ops) (noise @ [0]) x = (rx0, dg0)" by fastforce
  have "dg = perform ops cmd dg0"
    using commands_after_noise [of "[cmd]", OF _ x0] assms(1,3) by simp
  then have radio: "dg_radio dg = radio_set_pending_cmd ?c (dg_radio dg0)"
    using assms(2) by (cases cmd) (simp_all add: radio_set_pending_cmd_def)
  have c: "1 \<le> length ?c" "length ?c \<le> PENDING_CMD_MAX" using assms(2) by (cases cmd; simp)+
  from beacon_run [OF assms(4) c assms(5) [unfolded radio]]
  have w: "writes log = map (\<lambda>i. [HTK_PKT_BEACON, beacon_seq (dg_radio dg0) + of_nat i] @ (if i < 30 then ?c else [])) [0..<n]"
    by blast
  have bare: "handle_beacon V [HTK_PKT_BEACON, b] h = h" for b by (simp add: handle_beacon_def)
  show ?thesis
    using c handle_command [OF assms(1,2), of V _ h] bare by (auto simp: w)
qed

text \<open>The witness: SET_MODE for the tracker 0x1234, and the head that has this id.\<close>

theorem command_reaches_head_witness:
  "let dg = \<lparr>dg_usb = usb_io_boot (2048, []) (256, []), dg_trk = trackers_boot, dg_radio = dongle_radio_boot (), dg_sim = sim_boot,
       dg_leds = dongle_leds_boot, dg_clock = (\<lambda>n. int n), dg_reads = 0\<rparr>;
       dg' = snd (fold (rx_byte list_ring) ([9, 9] @ [0] @ encode_command (SetMode 0x1234 2)) (usb_rx_boot, dg));
       b = hd (writes (snd (snd (snd ((beacon_work_fn (tap (log_driver (\<lambda>c. 0))) ^^ 1) (dg_radio dg', dongle_leds_boot, ([], [])))))))
   in g_mode (handle_beacon still_vqf b
     ((head_boot toy_ops ([] :: htk_beacon_rx list) ([] :: imu_sample list) ((0, 0, 0), 0) ([] :: radio_call list, [] :: radio_call list) ())\<lparr>my_id := 0x1234\<rparr>)) = (2 :: u8)"
proof -
  let ?dg = "\<lparr>dg_usb = usb_io_boot (2048, []) (256, []), dg_trk = trackers_boot, dg_radio = dongle_radio_boot (), dg_sim = sim_boot,
       dg_leds = dongle_leds_boot, dg_clock = (\<lambda>n. int n), dg_reads = 0\<rparr>"
  let ?cmd = "SetMode 0x1234 2" and ?drv = "log_driver (\<lambda>c. 0)"
  let ?h = "(head_boot toy_ops ([] :: htk_beacon_rx list) ([] :: imu_sample list) ((0, 0, 0), 0) ([] :: radio_call list, [] :: radio_call list) ())\<lparr>my_id := 0x1234\<rparr>"
  have cmd: "command_ok ?cmd" "command_target ?cmd = Some 0x1234" by simp_all
  obtain rx dg where rx: "fold (rx_byte list_ring) ([9, 9] @ [0] @ encode_command ?cmd) (usb_rx_boot, ?dg) = (rx, dg)" by fastforce
  have ok: "fst (esb_setup ?drv ESB_MODE_PTX d) = 0" for d by (simp add: esb_setup_calls calls_log)
  obtain r l d log where run: "(beacon_work_fn (tap ?drv) ^^ 1) (dg_radio dg, dongle_leds_boot, ([], [])) = (r, l, (d, log))"
    by (metis surj_pair)
  from command_reaches_head [OF cmd rx ok run, of still_vqf ?h]
  have "length (writes log) = 1" "handle_beacon still_vqf (writes log ! 0) ?h = obey still_vqf ?cmd ?h" by auto
  then have "g_mode (handle_beacon still_vqf (hd (writes log)) ?h) = (2 :: u8)" by (cases "writes log") simp_all
  with rx run show ?thesis by (simp only: Let_def snd_conv)
qed

text \<open>C1. Samples reach the application: whatever packets arrive at the dongle's radio, and however the radio interrupt, the processing
  thread, the USB interrupt and changes of the USB state take turns, when the dongle's queues have drained every packet that has
  arrived (for the packets of heads, see C5) is accounted for. Either it found the queue of the radio full, and the overrun was counted; or the thread took it, in order. What the
  thread took while no host was configured is not sent and not counted. Of the rest, the samples (all that a head sends but its
  self-reports) are given to the application unchanged, in order and at most once, and every one that is missing has been counted as
  dropped; the parser has counted no error.\<close>

theorem samples_reach_host:
  assumes "ring_law ops cont cap" and "msgq_law mq qc 64" and "list_all event_ok es"
    and "tx_inv cont u" and "tx_queue cont u = []" and "cdc_out u = []" and "qc (rx_msgq r) = []"
    and "fold (fabric_step mq ops) es (r, t, u, l) = (r', t', u', l')" and "tx_queue cont u' = []" and "qc (rx_msgq r') = []"
    and "concat chunks = cdc_out u'" and "fold (feed cbs) chunks (parser_init, env) = (p, env')"
    and "tk = handled mq ops es (r, t, u, l)" and "sent = samples (map fst (filter snd tk))"
  shows "subseq (map fst tk) (arrived es) \<and>
    rx_queue_overruns r' = rx_queue_overruns r + of_nat (length (arrived es) - length tk) \<and>
    (\<exists>acc. subseq acc sent \<and> env' = fold (deliver cbs) acc env \<and>
      tx_dropped u' = tx_dropped u + of_nat (length sent - length acc) \<and>
      stats p = (stats parser_init)\<lparr>frames_ok := of_nat (length acc)\<rparr>) \<and>
    (\<forall>tid b. head_payload tid b \<longrightarrow> samples [b] = (if b ! 0 = HTK_PKT_TSTATUS then [] else [unpack b]))"
proof (intro conjI)
  from fabric_queue [OF assms(2,8)] assms(7,10,13) obtain kept n where
    "subseq kept (arrived es)" "n + length kept = length (arrived es)" "kept = map fst tk"
    "rx_queue_overruns r' = rx_queue_overruns r + of_nat n" by auto
  moreover from this have "n = length (arrived es) - length tk" by simp
  ultimately show "subseq (map fst tk) (arrived es)"
    "rx_queue_overruns r' = rx_queue_overruns r + of_nat (length (arrived es) - length tk)" by simp_all
  from fabric_send [OF assms(1,3) _ assms(8)] assms(4,13,14) obtain acc n where
    acc: "subseq acc sent" "\<forall>pkt \<in> set acc. packet_wf pkt" "n + length acc = length sent"
      "tx_stream cont u' = tx_stream cont u @ frames_for (map packet_bytes acc)" "tx_dropped u' = tx_dropped u + of_nat n" by auto
  then have n: "n = length sent - length acc" by simp
  have "concat chunks @ [] = frames_for (map packet_bytes acc)"
    using acc(4) assms(5,6,9,11) by (simp add: tx_stream_def)
  from parser_prefix [OF acc(2) this, of cbs env] acc n assms(12)
  show "\<exists>acc. subseq acc sent \<and> env' = fold (deliver cbs) acc env \<and>
      tx_dropped u' = tx_dropped u + of_nat (length sent - length acc) \<and>
      stats p = (stats parser_init)\<lparr>frames_ok := of_nat (length acc)\<rparr>"
    by (intro exI [of _ acc]) (auto simp: feed_chunks)
  show "\<forall>tid b. head_payload tid b \<longrightarrow> samples [b] = (if b ! 0 = HTK_PKT_TSTATUS then [] else [unpack b])"
    using head_sample by auto
qed

text \<open>The witness: an orientation arrives before a host is there; then, with a host, another one and a self-report.\<close>

definition air_orient :: "u16 \<Rightarrow> htk_orient" where
  "air_orient n = orient_packet 0x1234 n 1000 (0x3F800000, 0, 0, 0) 0"

definition air_tstatus :: htk_tstatus where
  "air_tstatus = \<lparr>tt_type = HTK_PKT_TSTATUS, tt_id = 0x1234, tt_vbat_mV = 0, tt_fw_major = 0, tt_fw_minor = 1,
     tt_fw_patch = 0, tt_mode = 0, tt_rate = 208, tt_uptime_s = 5\<rparr>"

theorem samples_reach_host_witness:
  "let es = [FromAir [enc_orient (air_orient 7)], RxThread 10, HostStatus USB_DC_CONFIGURED,
         FromAir [enc_orient (air_orient 8), enc_tstatus air_tstatus], RxThread 11, RxThread 12, UsbIrq [iter_fill 20], UsbIrq [iter_fill 60]];
       (r', t', u', l') = fold (fabric_step (list_msgq 64) list_ring) es
         (dongle_radio_boot [], trackers_boot, usb_io_boot (2048, []) (256, []), dongle_leds_boot)
   in snd (feed logging (cdc_out u') (parser_init, [])) = [POrient (air_orient 8)] \<and> rx_queue_overruns r' = 0"
proof -
  let ?u = "usb_io_boot (2048, []) (256, [])" and ?mq = "list_msgq 64 :: (bytes, bytes list) msgq_ops"
  let ?x = "(dongle_radio_boot [] :: bytes list dongle_radio, trackers_boot, ?u, dongle_leds_boot)"
  let ?es = "[FromAir [enc_orient (air_orient 7)], RxThread 10, HostStatus USB_DC_CONFIGURED,
    FromAir [enc_orient (air_orient 8), enc_tstatus air_tstatus], RxThread 11, RxThread 12, UsbIrq [iter_fill 20], UsbIrq [iter_fill 60]]"
  let ?x' = "fold (fabric_step ?mq list_ring) ?es ?x"
  obtain r' t' u' l' where run: "?x' = (r', t', u', l')" by (rule prod_cases4)
  have inv: "list_all event_ok ?es" "tx_inv list_ring_bytes ?u" "tx_queue list_ring_bytes ?u = []" "cdc_out ?u = []"
    "take 64 (rx_msgq (dongle_radio_boot [] :: bytes list dongle_radio)) = []"
    by (simp_all add: tx_inv_def tx_queue_def tx_current_def usb_io_boot_def dongle_radio_boot_def)
  have "tx_queue list_ring_bytes (fst (snd (snd ?x'))) = []" "take 64 (rx_msgq (fst ?x')) = []"
    "tx_dropped (fst (snd (snd ?x'))) = 0" by code_simp+
  with run have q: "tx_queue list_ring_bytes u' = []" "take 64 (rx_msgq r') = []" "tx_dropped u' = 0" by simp_all
  have tk: "handled ?mq list_ring ?es ?x = [(enc_orient (air_orient 7), False), (enc_orient (air_orient 8), True), (enc_tstatus air_tstatus, True)]"
    by code_simp
  have sent: "samples (map fst (filter snd (handled ?mq list_ring ?es ?x))) = [POrient (air_orient 8)]"
    using unpack_packet_bytes [of "POrient (air_orient 8)"] unfolding tk
    by (simp add: air_orient_def air_tstatus_def for_host_def)
  have f: "fold (feed logging) [cdc_out u'] (parser_init, []) = (fst (feed logging (cdc_out u') (parser_init, [])),
      snd (feed logging (cdc_out u') (parser_init, [])))" by simp
  note all = samples_reach_host [OF list_ring_law list_msgq_law inv run q(1,2) _ f refl refl, unfolded sent]
  from all q(3) obtain acc where
    acc: "subseq acc [POrient (air_orient 8)]" "snd (feed logging (cdc_out u') (parser_init, [])) = fold (deliver logging) acc []"
      "of_nat (length [POrient (air_orient 8)] - length acc) = (0 :: u32)" by (auto simp: usb_io_boot_def)
  have "acc = [POrient (air_orient 8)]" using acc(1,3) by (cases acc) (auto split: if_splits)
  moreover have "rx_queue_overruns r' = 0" using all unfolding tk by (simp add: dongle_radio_boot_def)
  ultimately show ?thesis using acc(2) run by (simp add: logging_def call_def)
qed

end
