(* ===== verification/Transport.thy ===== *)
theory Transport
  imports Parser Commands
begin

text \<open>
  The byte pipes of the host library, \<^verbatim>\<open>host/libheadtracker/src/transport.cpp\<close> and \<^verbatim>\<open>transport.hpp\<close>: the abstract
  class \<^verbatim>\<open>Transport\<close> as a record of operations on a state \<open>'t\<close>, its five implementations (in memory, replay of a
  file, recording tee, POSIX and Windows serial port), the enumeration of ports and the search for the dongle.

  \<^verbatim>\<open>open\<close> gives \<open>None\<close> for true and \<open>Some err\<close> for false. \<^verbatim>\<open>read\<close> gives \<open>None\<close> for -1 and \<open>Some bs\<close> for the bytes it
  has read, none on a timeout. Around it and around \<^verbatim>\<open>write\<close> a further option stands for a call that never returns.
  System calls, and the arithmetic of \<^verbatim>\<open>double\<close>, are parameters. The locale \<open>byte_pipe\<close> states what the client of a
  transport relies on, and \<open>byte_source\<close> adds that reading loses and invents no byte.
\<close>

subsection \<open>The interface\<close>

record 't transport_ops =
  t_open :: "string \<Rightarrow> 't \<Rightarrow> string option \<times> 't"
  t_close :: "'t \<Rightarrow> 't"
  t_is_open :: "'t \<Rightarrow> bool"
  t_read :: "nat \<Rightarrow> int \<Rightarrow> 't \<Rightarrow> (bytes option \<times> 't) option"
  t_write :: "bytes \<Rightarrow> 't \<Rightarrow> (bool \<times> 't) option"
  t_now :: "'t \<Rightarrow> u64 \<times> 't"

text \<open>
  The clock of a process: \<open>reading n\<close> is the value of the \<open>n\<close>-th call of \<^verbatim>\<open>now_ms\<close>, and \<open>slept\<close> records the sleeps, in ms.
\<close>

record clock =
  reading :: "nat \<Rightarrow> u64"
  calls_made :: nat
  slept :: "int list"

definition now_ms :: "clock \<Rightarrow> u64 \<times> clock" where
  "now_ms c = (reading c (calls_made c), c\<lparr>calls_made := calls_made c + 1\<rparr>)"

definition sleep_ms :: "int \<Rightarrow> clock \<Rightarrow> clock" where
  "sleep_ms n c = c\<lparr>slept := slept c @ [n]\<rparr>"

text \<open>\<open>keep\<close> is the invariant that a transport keeps of its own state, and \<open>pending\<close> what there is to read.\<close>

locale byte_pipe =
  fixes T :: "'t transport_ops" and keep :: "'t \<Rightarrow> bool"
  assumes close_inv: "keep s \<Longrightarrow> keep (t_close T s) \<and> \<not> t_is_open T (t_close T s)"
    and open_inv: "keep s \<Longrightarrow> t_open T target s = (err, s') \<Longrightarrow> keep s' \<and> t_is_open T s' = (err = None)"
    and read_inv: "keep s \<Longrightarrow> 0 < cap \<Longrightarrow> t_read T cap tmo s = Some (r, s') \<Longrightarrow> keep s'"
    and read_cap: "keep s \<Longrightarrow> 0 < cap \<Longrightarrow> t_read T cap tmo s = Some (Some bs, s') \<Longrightarrow> length bs \<le> cap"
    and read_closed: "keep s \<Longrightarrow> 0 < cap \<Longrightarrow> \<not> t_is_open T s \<Longrightarrow> t_read T cap tmo s = Some (Some bs, s') \<Longrightarrow> bs = []"
    and write_inv: "keep s \<Longrightarrow> t_write T data s = Some (ok, s') \<Longrightarrow> keep s' \<and> t_is_open T s' = t_is_open T s"
    and now_inv: "keep s \<Longrightarrow> t_now T s = (t, s') \<Longrightarrow> keep s' \<and> t_is_open T s' = t_is_open T s"

locale byte_source = byte_pipe +
  fixes pending :: "'t \<Rightarrow> bytes"
  assumes read_pending: "keep s \<Longrightarrow> 0 < cap \<Longrightarrow> t_read T cap tmo s = Some (Some bs, s') \<Longrightarrow>
      \<exists>more. pending s @ more = bs @ pending s'"
    and dead_pending: "keep s \<Longrightarrow> 0 < cap \<Longrightarrow> t_read T cap tmo s = Some (None, s') \<Longrightarrow>
      \<exists>more. pending s' = pending s @ more"
    and write_pending: "keep s \<Longrightarrow> t_write T data s = Some (ok, s') \<Longrightarrow> \<exists>more. pending s' = pending s @ more"
    and now_pending: "keep s \<Longrightarrow> t_now T s = (t, s') \<Longrightarrow> \<exists>more. pending s' = pending s @ more"

subsection \<open>MemTransport\<close>

record mem_impl =
  mem_in :: bytes
  mem_out :: bytes
  mem_opened :: bool
  mem_failed :: bool

text \<open>\<open>others n\<close> is what other threads do to the buffers between two looks of a waiting reader.\<close>

record mem_transport =
  impl :: "mem_impl option"
  mem_clock :: clock
  others :: "nat \<Rightarrow> mem_impl \<Rightarrow> mem_impl"

definition mem_impl_new :: mem_impl where
  "mem_impl_new = \<lparr>mem_in = [], mem_out = [], mem_opened = False, mem_failed = False\<rparr>"

definition make_impl :: "mem_impl option \<Rightarrow> mem_impl" where
  "make_impl i = (case i of None \<Rightarrow> mem_impl_new | Some i \<Rightarrow> i)"

definition mem_open :: "string \<Rightarrow> mem_transport \<Rightarrow> string option \<times> mem_transport" where
  "mem_open target s = (None, s\<lparr>impl := Some ((make_impl (impl s))\<lparr>mem_opened := True, mem_failed := False\<rparr>)\<rparr>)"

definition mem_close :: "mem_transport \<Rightarrow> mem_transport" where
  "mem_close s = s\<lparr>impl := map_option (\<lambda>i. i\<lparr>mem_opened := False\<rparr>) (impl s)\<rparr>"

definition mem_is_open :: "mem_transport \<Rightarrow> bool" where
  "mem_is_open s = (case impl s of None \<Rightarrow> False | Some i \<Rightarrow> mem_opened i)"

text \<open>One look under the lock; \<open>None\<close> when there is nothing to report yet.\<close>

definition mem_look :: "nat \<Rightarrow> mem_transport \<Rightarrow> (bytes option \<times> mem_transport) option" where
  "mem_look cap s =
     (case impl s of
        None \<Rightarrow> Some (None, s)
      | Some i \<Rightarrow>
          (if mem_failed i \<or> \<not> mem_opened i then Some (None, s)
           else if mem_in i \<noteq> [] then
             (let n = min cap (length (mem_in i)) in
              Some (Some (take n (mem_in i)), s\<lparr>impl := Some (i\<lparr>mem_in := drop n (mem_in i)\<rparr>)\<rparr>))
           else None))"

definition mem_wait :: "mem_transport \<Rightarrow> mem_transport" where
  "mem_wait s = s\<lparr>mem_clock := sleep_ms 1 (mem_clock s), impl := map_option (others s (calls_made (mem_clock s))) (impl s)\<rparr>"

partial_function (option) mem_read_loop :: "nat \<Rightarrow> u64 \<Rightarrow> mem_transport \<Rightarrow> (bytes option \<times> mem_transport) option" where
  "mem_read_loop cap deadline s =
     (case mem_look cap s of
        Some r \<Rightarrow> Some r
      | None \<Rightarrow>
          (case now_ms (mem_clock s) of (t, c) \<Rightarrow>
             if t \<ge> deadline then Some (Some [], s\<lparr>mem_clock := c\<rparr>)
             else mem_read_loop cap deadline (mem_wait (s\<lparr>mem_clock := c\<rparr>))))"

definition mem_read :: "nat \<Rightarrow> int \<Rightarrow> mem_transport \<Rightarrow> (bytes option \<times> mem_transport) option" where
  "mem_read cap timeout_ms s =
     (if impl s = None then Some (None, s)
      else (case now_ms (mem_clock s) of (t, c) \<Rightarrow>
        mem_read_loop cap (t + (if timeout_ms > 0 then word_of_int timeout_ms else 0)) (s\<lparr>mem_clock := c\<rparr>)))"

definition mem_write :: "bytes \<Rightarrow> mem_transport \<Rightarrow> (bool \<times> mem_transport) option" where
  "mem_write data s =
     (case impl s of
        None \<Rightarrow> Some (False, s)
      | Some i \<Rightarrow>
          Some (if \<not> mem_opened i then (False, s) else (True, s\<lparr>impl := Some (i\<lparr>mem_out := mem_out i @ data\<rparr>)\<rparr>)))"

definition mem_feed :: "bytes \<Rightarrow> mem_transport \<Rightarrow> mem_transport" where
  "mem_feed data s =
     (if data = [] then s
      else (let i = make_impl (impl s) in s\<lparr>impl := Some (i\<lparr>mem_in := mem_in i @ data\<rparr>)\<rparr>))"

definition mem_written :: "mem_transport \<Rightarrow> bytes" where
  "mem_written s = (case impl s of None \<Rightarrow> [] | Some i \<Rightarrow> mem_out i)"

definition mem_clear_written :: "mem_transport \<Rightarrow> mem_transport" where
  "mem_clear_written s = s\<lparr>impl := map_option (\<lambda>i. i\<lparr>mem_out := []\<rparr>) (impl s)\<rparr>"

definition mem_fail :: "mem_transport \<Rightarrow> mem_transport" where
  "mem_fail s = s\<lparr>impl := Some ((make_impl (impl s))\<lparr>mem_failed := True\<rparr>)\<rparr>"

definition mem_now :: "mem_transport \<Rightarrow> u64 \<times> mem_transport" where
  "mem_now s = (case now_ms (mem_clock s) of (t, c) \<Rightarrow> (t, s\<lparr>mem_clock := c\<rparr>))"

definition mem_ops :: "mem_transport transport_ops" where
  "mem_ops = \<lparr>t_open = mem_open, t_close = mem_close, t_is_open = mem_is_open, t_read = mem_read, t_write = mem_write,
     t_now = mem_now\<rparr>"

text \<open>Other threads only append to the input.\<close>

definition mem_inv :: "mem_transport \<Rightarrow> bool" where
  "mem_inv s \<longleftrightarrow> (\<forall>n i. \<exists>data. others s n i = i\<lparr>mem_in := mem_in i @ data\<rparr>)"

definition mem_pending :: "mem_transport \<Rightarrow> bytes" where
  "mem_pending s = (case impl s of None \<Rightarrow> [] | Some i \<Rightarrow> mem_in i)"

lemma mem_wait_effect:
  assumes "mem_inv s"
  shows "mem_inv (mem_wait s) \<and> mem_is_open (mem_wait s) = mem_is_open s \<and>
    (\<exists>more. mem_pending (mem_wait s) = mem_pending s @ more)"
proof (cases "impl s")
  case None
  with assms show ?thesis by (simp add: mem_wait_def mem_inv_def mem_is_open_def mem_pending_def)
next
  case (Some i)
  from assms obtain data where "others s (calls_made (mem_clock s)) i = i\<lparr>mem_in := mem_in i @ data\<rparr>"
    unfolding mem_inv_def by blast
  with assms Some show ?thesis
    by (auto simp: mem_wait_def mem_inv_def mem_is_open_def mem_pending_def)
qed

definition mem_read_ok :: "nat \<Rightarrow> mem_transport \<Rightarrow> bytes option \<times> mem_transport \<Rightarrow> bool" where
  "mem_read_ok cap s y \<longleftrightarrow> mem_inv (snd y) \<and>
     (fst y = None \<longrightarrow> (\<exists>more. mem_pending (snd y) = mem_pending s @ more)) \<and>
     (\<forall>bs. fst y = Some bs \<longrightarrow> length bs \<le> cap \<and> (\<not> mem_is_open s \<longrightarrow> bs = []) \<and>
        (\<exists>more. mem_pending s @ more = bs @ mem_pending (snd y)))"

lemma mem_look_some: "mem_look cap s = Some y \<Longrightarrow> mem_inv s \<Longrightarrow> mem_read_ok cap s y"
  by (auto simp: mem_look_def mem_read_ok_def mem_inv_def mem_pending_def mem_is_open_def Let_def
      split: option.splits if_splits)

lemma mem_clock_irrelevant:
  "mem_inv (s\<lparr>mem_clock := c\<rparr>) = mem_inv s" "mem_is_open (s\<lparr>mem_clock := c\<rparr>) = mem_is_open s"
  "mem_pending (s\<lparr>mem_clock := c\<rparr>) = mem_pending s"
  by (simp_all add: mem_inv_def mem_is_open_def mem_pending_def)

lemma mem_read_loop_effect:
  assumes "mem_read_loop cap deadline s = Some y"
  shows "mem_inv s \<longrightarrow> mem_read_ok cap s y"
proof (rule mem_read_loop.raw_induct [of "\<lambda>cap deadline s y. mem_inv s \<longrightarrow> mem_read_ok cap s y", OF _ assms])
  fix loop cap deadline s y
  assume loop: "\<And>cap deadline s y. loop cap deadline s = Some y \<Longrightarrow> mem_inv s \<longrightarrow> mem_read_ok cap s y"
    and run: "(case mem_look cap s of
        None \<Rightarrow> (case now_ms (mem_clock s) of (t, c) \<Rightarrow>
          if deadline \<le> t then Some (Some [], s\<lparr>mem_clock := c\<rparr>)
          else loop cap deadline (mem_wait (s\<lparr>mem_clock := c\<rparr>)))
      | Some r \<Rightarrow> Some r) = Some y"
  obtain t c where clk: "now_ms (mem_clock s) = (t, c)" by fastforce
  let ?s = "s\<lparr>mem_clock := c\<rparr>"
  show "mem_inv s \<longrightarrow> mem_read_ok cap s y"
  proof
    assume inv: "mem_inv s"
    show "mem_read_ok cap s y"
    proof (cases "mem_look cap s")
      case (Some r)
      with run have "mem_look cap s = Some y" by simp
      then show ?thesis using inv by (rule mem_look_some)
    next
      case None
      show ?thesis
      proof (cases "t \<ge> deadline")
        case True
        with run None clk inv have "y = (Some [], ?s)" by simp
        with inv show ?thesis by (simp add: mem_read_ok_def mem_clock_irrelevant)
      next
        case False
        from mem_wait_effect [of ?s] inv obtain more where
          w: "mem_inv (mem_wait ?s)" "mem_is_open (mem_wait ?s) = mem_is_open s"
            "mem_pending (mem_wait ?s) = mem_pending s @ more" by (auto simp: mem_clock_irrelevant)
        from run None clk False have "loop cap deadline (mem_wait ?s) = Some y" by simp
        from loop [OF this] w(1) have "mem_read_ok cap (mem_wait ?s) y" by simp
        with w(2,3) show ?thesis by (auto simp: mem_read_ok_def append_assoc)
      qed
    qed
  qed
qed

lemma mem_read_effect:
  assumes "mem_inv s" and "mem_read cap tmo s = Some y"
  shows "mem_read_ok cap s y"
proof (cases "impl s = None")
  case True
  with assms show ?thesis by (auto simp: mem_read_def mem_read_ok_def)
next
  case False
  obtain t c where "now_ms (mem_clock s) = (t, c)" by fastforce
  with False assms have "\<exists>deadline. mem_read_loop cap deadline (s\<lparr>mem_clock := c\<rparr>) = Some y" by (auto simp: mem_read_def)
  with mem_read_loop_effect assms(1) show ?thesis by (fastforce simp: mem_read_ok_def mem_clock_irrelevant)
qed

interpretation mem: byte_source mem_ops mem_inv mem_pending
proof unfold_locales
  fix s s' cap tmo and r :: "bytes option" and bs
  assume inv: "mem_inv s"
  note eff = mem_read_effect [OF inv, unfolded mem_read_ok_def]
  show "t_read mem_ops cap tmo s = Some (r, s') \<Longrightarrow> mem_inv s'"
    "t_read mem_ops cap tmo s = Some (Some bs, s') \<Longrightarrow> length bs \<le> cap"
    "t_read mem_ops cap tmo s = Some (Some bs, s') \<Longrightarrow> \<exists>more. mem_pending s @ more = bs @ mem_pending s'"
    "t_read mem_ops cap tmo s = Some (None, s') \<Longrightarrow> \<exists>more. mem_pending s' = mem_pending s @ more"
    "\<not> t_is_open mem_ops s \<Longrightarrow> t_read mem_ops cap tmo s = Some (Some bs, s') \<Longrightarrow> bs = []"
    using eff by (fastforce simp: mem_ops_def)+
qed (auto simp: mem_ops_def mem_open_def mem_close_def mem_is_open_def mem_write_def mem_now_def mem_inv_def
      mem_pending_def split: option.splits prod.splits if_splits)

subsection \<open>FileTransport\<close>

text \<open>The operations on \<^verbatim>\<open>double\<close> that the pacing uses, on bit patterns.\<close>

record dbl_ops =
  d_of_u64 :: "u64 \<Rightarrow> u64"
  d_mul :: "u64 \<Rightarrow> u64 \<Rightarrow> u64"
  d_div :: "u64 \<Rightarrow> u64 \<Rightarrow> u64"
  d_sub :: "u64 \<Rightarrow> u64 \<Rightarrow> u64"
  d_less :: "u64 \<Rightarrow> u64 \<Rightarrow> bool"
  d_le :: "u64 \<Rightarrow> u64 \<Rightarrow> bool"
  d_trunc :: "u64 \<Rightarrow> int"

text \<open>A C stream: the whole content and the position in it.\<close>

type_synonym stream = "bytes \<times> nat"

datatype file_handle = Stdin | Regular stream

record file_transport =
  ft_f :: "file_handle option"
  ft_owns :: bool
  ft_bps :: u64
  ft_loop :: bool
  ft_start_ms :: u64
  ft_delivered :: u64
  ft_eof :: bool
  ft_stdin :: stream
  ft_disk :: "string \<Rightarrow> bytes option"
  ft_clock :: clock

definition file_close :: "file_transport \<Rightarrow> file_transport" where
  "file_close s = s\<lparr>ft_f := None, ft_owns := False\<rparr>"

definition file_now :: "file_transport \<Rightarrow> u64 \<times> file_transport" where
  "file_now s = (case now_ms (ft_clock s) of (t, c) \<Rightarrow> (t, s\<lparr>ft_clock := c\<rparr>))"

definition file_started :: "file_transport \<Rightarrow> file_transport" where
  "file_started s = (case file_now s of (t, s) \<Rightarrow> s\<lparr>ft_start_ms := t, ft_delivered := 0\<rparr>)"

definition file_open :: "string \<Rightarrow> file_transport \<Rightarrow> string option \<times> file_transport" where
  "file_open target s =
     (let s = file_close s in
      if target = ''-'' then (None, (file_started (s\<lparr>ft_f := Some Stdin, ft_owns := False\<rparr>))\<lparr>ft_eof := False\<rparr>)
      else
        (case ft_disk s target of
           None \<Rightarrow> (Some (''cannot open replay file '' @ [CHR 0x27] @ target @ [CHR 0x27]), s\<lparr>ft_owns := True\<rparr>)
         | Some content \<Rightarrow>
             (None, (file_started (s\<lparr>ft_f := Some (Regular (content, 0)), ft_owns := True\<rparr>))\<lparr>ft_eof := False\<rparr>)))"

definition file_is_open :: "file_transport \<Rightarrow> bool" where
  "file_is_open s \<longleftrightarrow> ft_f s \<noteq> None \<and> \<not> ft_eof s"

fun stream_read :: "nat \<Rightarrow> stream \<Rightarrow> bytes \<times> stream" where
  "stream_read cap (content, pos) = (let bs = take cap (drop pos content) in (bs, (content, pos + length bs)))"

definition file_fread :: "nat \<Rightarrow> file_handle \<Rightarrow> file_transport \<Rightarrow> bytes \<times> file_transport" where
  "file_fread cap f s =
     (case f of
        Stdin \<Rightarrow> (case stream_read cap (ft_stdin s) of (bs, st) \<Rightarrow> (bs, s\<lparr>ft_stdin := st\<rparr>))
      | Regular st \<Rightarrow> (case stream_read cap st of (bs, st) \<Rightarrow> (bs, s\<lparr>ft_f := Some (Regular st)\<rparr>)))"

text \<open>The seek to the start, which succeeds on a regular file.\<close>

definition file_rewind :: "file_transport \<Rightarrow> file_transport" where
  "file_rewind s = (case ft_f s of Some (Regular (content, pos)) \<Rightarrow> s\<lparr>ft_f := Some (Regular (content, 0))\<rparr> | _ \<Rightarrow> s)"

text \<open>The pacing: \<open>None\<close> to deliver nothing now, else how much may be read.\<close>

definition file_pace :: "dbl_ops \<Rightarrow> nat \<Rightarrow> int \<Rightarrow> file_transport \<Rightarrow> nat option \<times> file_transport" where
  "file_pace D cap timeout_ms s =
     (if \<not> d_less D 0 (ft_bps s) then (Some cap, s)
      else
        (case file_now s of (t, s) \<Rightarrow>
           let elapsed = t - ft_start_ms s; delivered = d_of_u64 D (ft_delivered s);
               allowed = d_div D (d_mul D (ft_bps s) (d_of_u64 D elapsed)) 0x408F400000000000 in
           if d_le D allowed delivered then
             (let deficit = d_sub D delivered allowed;
                  wait = d_trunc D (d_div D (d_mul D deficit 0x408F400000000000) (ft_bps s)) + 1;
                  wait = (if timeout_ms \<ge> 0 \<and> wait > timeout_ms then timeout_ms else wait) in
              (None, if wait > 0 then s\<lparr>ft_clock := sleep_ms wait (ft_clock s)\<rparr> else s))
           else
             (let budget = nat (d_trunc D (d_sub D allowed delivered));
                  budget = (if budget = 0 then 1 else budget) in
              (Some (min cap budget), s))))"

definition file_read :: "dbl_ops \<Rightarrow> nat \<Rightarrow> int \<Rightarrow> file_transport \<Rightarrow> (bytes option \<times> file_transport) option" where
  "file_read D cap timeout_ms s =
     Some (case ft_f s of
        None \<Rightarrow> (None, s)
      | Some f \<Rightarrow>
          (case file_pace D cap timeout_ms s of
             (None, s) \<Rightarrow> (Some [], s)
           | (Some cap, s) \<Rightarrow>
               (case file_fread cap f s of (bs, s) \<Rightarrow>
                  if bs = [] then
                    (if ft_loop s \<and> ft_owns s then (Some [], file_started (file_rewind s))
                     else (None, s\<lparr>ft_eof := True\<rparr>))
                  else (Some bs, s\<lparr>ft_delivered := ft_delivered s + of_nat (length bs)\<rparr>))))"

definition file_write :: "bytes \<Rightarrow> file_transport \<Rightarrow> (bool \<times> file_transport) option" where
  "file_write data s = Some (True, s)"

definition file_ops :: "dbl_ops \<Rightarrow> file_transport transport_ops" where
  "file_ops D = \<lparr>t_open = file_open, t_close = file_close, t_is_open = file_is_open, t_read = file_read D,
     t_write = file_write, t_now = file_now\<rparr>"

subsection \<open>TeeTransport\<close>

text \<open>
  The streams of the C library: \<open>sd_fopen path\<close> is \<^verbatim>\<open>fopen(path, "wb")\<close> and says whether it succeeds; the results of the
  other three are not looked at by the code. \<open>stdio_law\<close> is what they do to a stream on a disk that takes everything: \<open>file\<close> is
  what the file holds, \<open>unflushed\<close> what has been written to the stream and not to the file.
\<close>

record 'w stdio_ops =
  sd_fopen :: "string \<Rightarrow> 'w \<Rightarrow> bool \<times> 'w"
  sd_fwrite :: "bytes \<Rightarrow> 'w \<Rightarrow> 'w"
  sd_fflush :: "'w \<Rightarrow> 'w"
  sd_fclose :: "'w \<Rightarrow> 'w"


text \<open>An instance: the file and the buffer, which is written out when it is full.\<close>

definition list_stdio :: "(bytes \<times> bytes) stdio_ops" where
  "list_stdio =
     \<lparr>sd_fopen = (\<lambda>_ w. (True, ([], []))),
      sd_fwrite = (\<lambda>bs (f, b). if length (b @ bs) < 8 then (f, b @ bs) else (f @ b @ bs, [])),
      sd_fflush = (\<lambda>(f, b). (f @ b, [])), sd_fclose = (\<lambda>(f, b). (f @ b, []))\<rparr>"


text \<open>
  \<open>tee_rec\<close> says whether the record file is open. \<open>tee_seen\<close> is for the specification: the bytes that have been read since
  it was opened.
\<close>

record ('t, 'w) tee =
  tee_inner :: 't
  tee_rec :: bool
  tee_path :: string
  tee_os :: 'w
  tee_seen :: bytes

definition tee_open :: "'w stdio_ops \<Rightarrow> 't transport_ops \<Rightarrow> string \<Rightarrow> ('t, 'w) tee \<Rightarrow> string option \<times> ('t, 'w) tee" where
  "tee_open D T target s =
     (case t_open T target (tee_inner s) of
        (Some err, i) \<Rightarrow> (Some err, s\<lparr>tee_inner := i\<rparr>)
      | (None, i) \<Rightarrow>
          (case sd_fopen D (tee_path s) (tee_os s) of (ok, w) \<Rightarrow>
             if ok then (None, s\<lparr>tee_inner := i, tee_rec := True, tee_os := w, tee_seen := []\<rparr>)
             else (Some (''could not open record file '' @ [CHR 0x27] @ tee_path s @ [CHR 0x27]),
                   s\<lparr>tee_inner := t_close T i, tee_rec := False, tee_os := w\<rparr>)))"

definition tee_close :: "'w stdio_ops \<Rightarrow> 't transport_ops \<Rightarrow> ('t, 'w) tee \<Rightarrow> ('t, 'w) tee" where
  "tee_close D T s =
     (let s = s\<lparr>tee_inner := t_close T (tee_inner s)\<rparr> in
      if tee_rec s then s\<lparr>tee_rec := False, tee_os := sd_fclose D (tee_os s)\<rparr> else s)"

definition tee_is_open :: "'t transport_ops \<Rightarrow> ('t, 'w) tee \<Rightarrow> bool" where
  "tee_is_open T s = t_is_open T (tee_inner s)"

definition tee_read ::
  "'w stdio_ops \<Rightarrow> 't transport_ops \<Rightarrow> nat \<Rightarrow> int \<Rightarrow> ('t, 'w) tee \<Rightarrow> (bytes option \<times> ('t, 'w) tee) option" where
  "tee_read D T cap timeout_ms s =
     (case t_read T cap timeout_ms (tee_inner s) of
        None \<Rightarrow> None
      | Some (r, i) \<Rightarrow>
          (let s = s\<lparr>tee_inner := i\<rparr> in
           Some (r, case r of
              None \<Rightarrow> s
            | Some bs \<Rightarrow>
                if bs \<noteq> [] \<and> tee_rec s
                then s\<lparr>tee_os := sd_fflush D (sd_fwrite D bs (tee_os s)), tee_seen := tee_seen s @ bs\<rparr> else s)))"

definition tee_write :: "'t transport_ops \<Rightarrow> bytes \<Rightarrow> ('t, 'w) tee \<Rightarrow> (bool \<times> ('t, 'w) tee) option" where
  "tee_write T data s = map_option (\<lambda>(ok, i). (ok, s\<lparr>tee_inner := i\<rparr>)) (t_write T data (tee_inner s))"

definition tee_now :: "'t transport_ops \<Rightarrow> ('t, 'w) tee \<Rightarrow> u64 \<times> ('t, 'w) tee" where
  "tee_now T s = (case t_now T (tee_inner s) of (t, i) \<Rightarrow> (t, s\<lparr>tee_inner := i\<rparr>))"

definition tee_ops :: "'w stdio_ops \<Rightarrow> 't transport_ops \<Rightarrow> ('t, 'w) tee transport_ops" where
  "tee_ops D T = \<lparr>t_open = tee_open D T, t_close = tee_close D T, t_is_open = tee_is_open T, t_read = tee_read D T,
     t_write = tee_write T, t_now = tee_now T\<rparr>"

lemma tee_read_inner:
  assumes "t_read (tee_ops D T) cap tmo s = Some (r, s')"
  obtains i where "t_read T cap tmo (tee_inner s) = Some (r, i)" "tee_inner s' = i"
  using assms by (auto simp: tee_ops_def tee_read_def Let_def split: option.splits if_splits)

lemma tee_pipe:
  fixes T :: "'t transport_ops" and D :: "'w stdio_ops"
  assumes "byte_pipe T keep"
  shows "byte_pipe (tee_ops D T) (\<lambda>s. keep (tee_inner s))"
proof (rule byte_pipe.intro)
  note defs = tee_ops_def tee_open_def tee_close_def tee_is_open_def tee_write_def tee_now_def
  fix s :: "('t, 'w) tee" assume k: "keep (tee_inner s)"
  show "keep (tee_inner (t_close (tee_ops D T) s)) \<and> \<not> t_is_open (tee_ops D T) (t_close (tee_ops D T) s)"
    using byte_pipe.close_inv [OF assms k] by (simp add: defs Let_def)
  show "keep (tee_inner s') \<and> t_is_open (tee_ops D T) s' = (err = None)" if op: "t_open (tee_ops D T) target s = (err, s')" for target err s'
  proof -
    obtain e i where o: "t_open T target (tee_inner s) = (e, i)" by fastforce
    from byte_pipe.open_inv [OF assms k o] byte_pipe.close_inv [OF assms, of i] op o show ?thesis
      by (cases e) (auto simp: defs split: if_splits prod.splits)
  qed
  show "keep (tee_inner s')" if "0 < cap" "t_read (tee_ops D T) cap tmo s = Some (r, s')" for cap tmo r s'
    using tee_read_inner [OF that(2)] byte_pipe.read_inv [OF assms k that(1)] by metis
  show "length bs \<le> cap" if "0 < cap" "t_read (tee_ops D T) cap tmo s = Some (Some bs, s')" for cap tmo bs s'
    using tee_read_inner [OF that(2)] byte_pipe.read_cap [OF assms k that(1)] by metis
  show "bs = []" if "0 < cap" "\<not> t_is_open (tee_ops D T) s" "t_read (tee_ops D T) cap tmo s = Some (Some bs, s')" for cap tmo bs s'
  proof -
    from that(2) have "\<not> t_is_open T (tee_inner s)" by (simp add: defs)
    with tee_read_inner [OF that(3)] byte_pipe.read_closed [OF assms k that(1)] show ?thesis by metis
  qed
  show "keep (tee_inner s') \<and> t_is_open (tee_ops D T) s' = t_is_open (tee_ops D T) s"
    if w: "t_write (tee_ops D T) data s = Some (ok, s')" for data ok s'
  proof -
    from w obtain i where i: "t_write T data (tee_inner s) = Some (ok, i)" "s' = s\<lparr>tee_inner := i\<rparr>" by (auto simp: defs)
    from byte_pipe.write_inv [OF assms k i(1)] i(2) show ?thesis by (simp add: defs)
  qed
  show "keep (tee_inner s') \<and> t_is_open (tee_ops D T) s' = t_is_open (tee_ops D T) s"
    if w: "t_now (tee_ops D T) s = (t, s')" for t s'
  proof -
    from w obtain i where i: "t_now T (tee_inner s) = (t, i)" "s' = s\<lparr>tee_inner := i\<rparr>" by (auto simp: defs split: prod.splits)
    from byte_pipe.now_inv [OF assms k i(1)] i(2) show ?thesis by (simp add: defs)
  qed
qed

lemma tee_source:
  fixes T :: "'t transport_ops" and D :: "'w stdio_ops"
  assumes "byte_source T keep pending"
  shows "byte_source (tee_ops D T) (\<lambda>s. keep (tee_inner s)) (\<lambda>s. pending (tee_inner s))"
proof (rule byte_source.intro [OF tee_pipe])
  show "byte_pipe T keep" using assms by (rule byte_source.axioms)
  show "byte_source_axioms (tee_ops D T) (\<lambda>s. keep (tee_inner s)) (\<lambda>s. pending (tee_inner s))"
  proof
    fix s :: "('t, 'w) tee" and cap tmo bs s' assume k: "keep (tee_inner s)"
    show "\<exists>more. pending (tee_inner s) @ more = bs @ pending (tee_inner s')"
      if "0 < cap" "t_read (tee_ops D T) cap tmo s = Some (Some bs, s')"
      using tee_read_inner [OF that(2)] byte_source.read_pending [OF assms k that(1)] by metis
    show "\<exists>more. pending (tee_inner s') = pending (tee_inner s) @ more"
      if "0 < cap" "t_read (tee_ops D T) cap tmo s = Some (None, s')"
      using tee_read_inner [OF that(2)] byte_source.dead_pending [OF assms k that(1)] by metis
    show "\<exists>more. pending (tee_inner s') = pending (tee_inner s) @ more"
      if "t_write (tee_ops D T) data s = Some (ok, s')" for data ok
      using that byte_source.write_pending [OF assms k] by (auto simp: tee_ops_def tee_write_def)
    show "\<exists>more. pending (tee_inner s') = pending (tee_inner s) @ more"
      if "t_now (tee_ops D T) s = (t, s')" for t
      using that byte_source.now_pending [OF assms k] by (auto simp: tee_ops_def tee_now_def split: prod.splits)
  qed
qed

text \<open>The replay of a file that is not looped is a source of bytes: what is left of the stream.\<close>

definition stream_left :: "stream \<Rightarrow> bytes" where
  "stream_left st = drop (snd st) (fst st)"

definition handle_left :: "file_transport \<Rightarrow> file_handle \<Rightarrow> bytes" where
  "handle_left s f = stream_left (case f of Stdin \<Rightarrow> ft_stdin s | Regular st \<Rightarrow> st)"

definition file_left :: "file_transport \<Rightarrow> bytes" where
  "file_left s = (case ft_f s of None \<Rightarrow> [] | Some f \<Rightarrow> handle_left s f)"

definition file_inv :: "file_transport \<Rightarrow> bool" where
  "file_inv s \<longleftrightarrow> (ft_f s = Some Stdin \<longrightarrow> \<not> ft_owns s) \<and>
     (ft_eof s \<and> ft_f s \<noteq> None \<longrightarrow> file_left s = [] \<and> \<not> (ft_loop s \<and> ft_owns s))"

text \<open>The part of the state that says what is left to read.\<close>

definition same_file :: "file_transport \<Rightarrow> file_transport \<Rightarrow> bool" where
  "same_file s s' \<longleftrightarrow> ft_f s' = ft_f s \<and> ft_stdin s' = ft_stdin s \<and> ft_owns s' = ft_owns s \<and> ft_loop s' = ft_loop s \<and>
     ft_eof s' = ft_eof s"

lemma file_left_cong: "ft_f s' = ft_f s \<Longrightarrow> ft_stdin s' = ft_stdin s \<Longrightarrow> file_left s' = file_left s"
  by (cases "ft_f s") (simp_all add: file_left_def handle_left_def split: file_handle.split)

lemma same_fileD:
  assumes "same_file s s'"
  shows "file_left s' = file_left s" and "file_inv s' = file_inv s" and "file_is_open s' = file_is_open s"
    and "ft_loop s' = ft_loop s" and "ft_f s' = ft_f s"
proof -
  show l: "file_left s' = file_left s" using assms by (intro file_left_cong) (simp_all add: same_file_def)
  from assms l show "file_inv s' = file_inv s" "file_is_open s' = file_is_open s" "ft_loop s' = ft_loop s" "ft_f s' = ft_f s"
    by (simp_all add: same_file_def file_inv_def file_is_open_def)
qed

lemma file_now_keeps: "file_now s = (t, s') \<Longrightarrow> same_file s s'"
  by (auto simp: file_now_def same_file_def split: prod.splits)

lemma file_started_keeps: "same_file s (file_started s)"
  by (simp add: file_started_def file_now_def same_file_def split: prod.split)

lemma file_pace_keeps:
  assumes "file_pace D cap tmo s = (r, s')"
  shows "same_file s s'" and "r = Some n \<Longrightarrow> n \<le> cap" and "r = Some n \<Longrightarrow> 0 < cap \<Longrightarrow> 0 < n"
proof -
  obtain t s1 where n: "file_now s = (t, s1)" by fastforce
  from assms n file_now_keeps [OF n] show "same_file s s'"
    by (auto simp: file_pace_def Let_def same_file_def split: if_splits)
  show "r = Some n \<Longrightarrow> n \<le> cap" "r = Some n \<Longrightarrow> 0 < cap \<Longrightarrow> 0 < n"
    using assms n by (auto simp: file_pace_def Let_def split: if_splits)
qed

lemma stream_read_left:
  assumes "stream_read cap st = (bs, st')"
  shows "length bs \<le> cap \<and> stream_left st = bs @ stream_left st' \<and> (bs = [] \<longrightarrow> cap = 0 \<or> stream_left st = [])"
proof -
  obtain content pos where st: "st = (content, pos)" by fastforce
  have "bs = take cap (drop pos content) \<and> st' = (content, pos + length bs)"
    using assms unfolding st stream_read.simps Let_def prod.inject by metis
  then have bs: "bs = take cap (stream_left st)" and st': "stream_left st' = drop (length bs) (stream_left st)"
    by (simp_all only: st stream_left_def fst_conv snd_conv drop_drop add.commute)
  have d: "drop (length (take cap (stream_left st))) (stream_left st) = drop cap (stream_left st)"
    by (simp add: min_def)
  show ?thesis by (simp only: st' bs d append_take_drop_id) auto
qed

lemma file_fread_effect:
  assumes "ft_f s = Some f" and "file_fread cap f s = (bs, s')"
  shows "length bs \<le> cap \<and> file_left s = bs @ file_left s' \<and> (bs = [] \<longrightarrow> cap = 0 \<or> file_left s = []) \<and>
    ft_loop s' = ft_loop s \<and> ft_owns s' = ft_owns s \<and> ft_eof s' = ft_eof s \<and>
    (ft_f s' = Some Stdin \<longleftrightarrow> f = Stdin) \<and> ft_f s' \<noteq> None"
proof (cases f)
  case Stdin
  obtain b st where r: "stream_read cap (ft_stdin s) = (b, st)" by (metis surj_pair)
  with assms(2) Stdin have e: "bs = b" "s' = s\<lparr>ft_stdin := st\<rparr>" by (simp_all add: file_fread_def)
  have "file_left s = stream_left (ft_stdin s)" "file_left s' = stream_left st"
    using assms(1) Stdin by (simp_all add: e(2) file_left_def handle_left_def)
  moreover from stream_read_left [OF r] have "length b \<le> cap" "b = [] \<longrightarrow> cap = 0 \<or> stream_left (ft_stdin s) = []"
    "stream_left (ft_stdin s) = b @ stream_left st" by blast+
  ultimately show ?thesis using assms(1) Stdin by (simp only: e(1)) (simp add: e(2))
next
  case (Regular st0)
  obtain b st where r: "stream_read cap st0 = (b, st)" by (metis surj_pair)
  with assms(2) Regular have e: "bs = b" "s' = s\<lparr>ft_f := Some (Regular st)\<rparr>" by (simp_all add: file_fread_def)
  have "file_left s = stream_left st0" "file_left s' = stream_left st"
    using assms(1) Regular by (simp_all add: e(2) file_left_def handle_left_def)
  moreover from stream_read_left [OF r] have "length b \<le> cap" "b = [] \<longrightarrow> cap = 0 \<or> stream_left st0 = []"
    "stream_left st0 = b @ stream_left st" by blast+
  ultimately show ?thesis using assms(1) Regular by (simp only: e(1)) (simp add: e(2))
qed

lemma file_open_effect:
  assumes "file_open target s = (err, s')"
  shows "file_inv s' \<and> file_is_open s' = (err = None) \<and> ft_loop s' = ft_loop s"
proof -
  define s1 where "s1 = s\<lparr>ft_f := Some Stdin, ft_owns := False\<rparr>"
  define s2 where "s2 content = s\<lparr>ft_f := Some (Regular (content, 0)), ft_owns := True\<rparr>" for content
  have eq: "file_open target s =
    (if target = ''-'' then (None, (file_started s1)\<lparr>ft_eof := False\<rparr>)
     else (case ft_disk s target of
       None \<Rightarrow> (Some (''cannot open replay file '' @ [CHR 0x27] @ target @ [CHR 0x27]), s\<lparr>ft_f := None, ft_owns := True\<rparr>)
     | Some content \<Rightarrow> (None, (file_started (s2 content))\<lparr>ft_eof := False\<rparr>)))"
    by (cases "ft_disk s target") (simp_all add: file_open_def file_close_def s1_def s2_def Let_def)
  from file_started_keeps [of s1] file_started_keeps [of "s2 c" for c] assms show ?thesis
    unfolding eq
    by (auto simp: same_file_def file_inv_def file_is_open_def s1_def s2_def split: if_splits option.splits)
qed

text \<open>What one read of a replay does.\<close>

lemma file_read_effect:
  assumes "file_inv s" and "0 < cap" and "file_read D cap tmo s = Some (r, s')"
  shows "file_inv s' \<and> ft_loop s' = ft_loop s \<and>
    (\<not> ft_loop s \<and> r = None \<longrightarrow> file_left s' = file_left s) \<and>
    (\<forall>bs. r = Some bs \<longrightarrow> length bs \<le> cap \<and> (\<not> file_is_open s \<longrightarrow> bs = []) \<and>
       (\<not> ft_loop s \<longrightarrow> file_left s = bs @ file_left s'))"
proof (cases "ft_f s")
  case None
  with assms show ?thesis by (auto simp: file_read_def)
next
  case (Some f)
  obtain p s1 where p: "file_pace D cap tmo s = (p, s1)" by fastforce
  note same = same_fileD [OF file_pace_keeps(1) [OF p]]
  show ?thesis
  proof (cases p)
    case None
    with Some p assms have "r = Some []" "s' = s1" by (auto simp: file_read_def)
    with same assms(1) show ?thesis by auto
  next
    case (Some n)
    obtain bs s2 where fr: "file_fread n f s1 = (bs, s2)" by (metis surj_pair)
    from \<open>ft_f s = Some f\<close> same have f1: "ft_f s1 = Some f" by simp
    note eff = file_fread_effect [OF f1 fr]
    have n: "n \<le> cap" by (rule file_pace_keeps(2) [OF p Some])
    have inv1: "file_inv s1" using assms(1) same by simp
    have eq: "file_read D cap tmo s = Some (if bs = [] then
        (if ft_loop s2 \<and> ft_owns s2 then (Some [], file_started (file_rewind s2)) else (None, s2\<lparr>ft_eof := True\<rparr>))
      else (Some bs, s2\<lparr>ft_delivered := ft_delivered s2 + of_nat (length bs)\<rparr>))"
      using \<open>ft_f s = Some f\<close> p Some fr by (simp add: file_read_def)
    show ?thesis
    proof (cases "bs = []")
      case False
      then have "file_left s1 \<noteq> []" using eff by auto
      with inv1 f1 have eof: "\<not> ft_eof s1" by (auto simp: file_inv_def)
      with f1 same have opn: "file_is_open s" by (auto simp: file_is_open_def)
      have s': "r = Some bs" "same_file s2 s'" using assms(3) eq False by (auto simp: same_file_def)
      have "file_inv s2" using inv1 eff eof f1 by (auto simp: file_inv_def)
      with same_fileD [OF s'(2)] s'(1) eff n opn same show ?thesis by auto
    next
      case True
      show ?thesis
      proof (cases "ft_loop s2 \<and> ft_owns s2")
        case True
        have s': "r = Some []" "s' = file_started (file_rewind s2)" using assms(3) eq True \<open>bs = []\<close> by auto
        have "ft_owns s1" "ft_loop s1" "f \<noteq> Stdin" using True eff inv1 f1 by (auto simp: file_inv_def)
        with True eff inv1 f1 have "file_inv (file_rewind s2)" "ft_loop (file_rewind s2) = ft_loop s2"
          by (auto simp: file_inv_def file_rewind_def split: option.splits file_handle.splits)
        with same_fileD [OF file_started_keeps [of "file_rewind s2"]] s' True eff same show ?thesis by auto
      next
        case False
        with assms(3) eq \<open>bs = []\<close> have s': "r = None" "s' = s2\<lparr>ft_eof := True\<rparr>" by auto
        have "file_left s1 = []" using eff \<open>bs = []\<close> file_pace_keeps(3) [OF p Some assms(2)] by auto
        with eff \<open>bs = []\<close> have left: "file_left s2 = []" by auto
        have "file_left s' = file_left s2" by (rule file_left_cong) (simp_all add: s')
        then have left': "file_left s' = []" using left by simp
        have "file_left s = []" using \<open>file_left s1 = []\<close> same(1) by simp
        moreover have "ft_f s' = Some Stdin \<longrightarrow> \<not> ft_owns s'" using inv1 eff f1 by (simp add: s' file_inv_def)
        moreover have "\<not> (ft_loop s' \<and> ft_owns s')" using False by (simp add: s')
        ultimately have "file_inv s'" "file_left s' = file_left s" using left' by (simp_all add: file_inv_def)
        with s' eff same(4) show ?thesis by simp
      qed
    qed
  qed
qed

lemma file_read_law:
  "file_inv s \<Longrightarrow> 0 < cap \<Longrightarrow> t_read (file_ops D) cap tmo s = Some (r, s') \<Longrightarrow> file_inv s' \<and> ft_loop s' = ft_loop s \<and>
    (\<not> ft_loop s \<and> r = None \<longrightarrow> file_left s' = file_left s) \<and>
    (\<forall>bs. r = Some bs \<longrightarrow> length bs \<le> cap \<and> (\<not> file_is_open s \<longrightarrow> bs = []) \<and>
       (\<not> ft_loop s \<longrightarrow> file_left s = bs @ file_left s'))"
  using file_read_effect [of s cap D tmo r s'] by (simp add: file_ops_def)

lemma file_other_laws:
  "file_inv (t_close (file_ops D) s) \<and> \<not> t_is_open (file_ops D) (t_close (file_ops D) s) \<and>
    ft_loop (t_close (file_ops D) s) = ft_loop s"
  "t_open (file_ops D) target s = (err, s') \<Longrightarrow> file_inv s' \<and> t_is_open (file_ops D) s' = (err = None) \<and> ft_loop s' = ft_loop s"
  "t_write (file_ops D) data s = Some (ok, s') \<Longrightarrow> s' = s"
  "t_now (file_ops D) s = (t, s') \<Longrightarrow> same_file s s'"
proof -
  show "file_inv (t_close (file_ops D) s) \<and> \<not> t_is_open (file_ops D) (t_close (file_ops D) s) \<and>
    ft_loop (t_close (file_ops D) s) = ft_loop s"
    by (simp add: file_ops_def file_close_def file_inv_def file_is_open_def)
  show "t_open (file_ops D) target s = (err, s') \<Longrightarrow> file_inv s' \<and> t_is_open (file_ops D) s' = (err = None) \<and> ft_loop s' = ft_loop s"
    using file_open_effect [of target s err s'] by (simp add: file_ops_def)
  show "t_write (file_ops D) data s = Some (ok, s') \<Longrightarrow> s' = s" by (simp add: file_ops_def file_write_def)
  show "t_now (file_ops D) s = (t, s') \<Longrightarrow> same_file s s'" by (simp add: file_ops_def file_now_keeps)
qed

interpretation replay: byte_pipe "file_ops D" file_inv for D
proof (rule byte_pipe.intro)
  fix s assume k: "file_inv s"
  show "file_inv (t_close (file_ops D) s) \<and> \<not> t_is_open (file_ops D) (t_close (file_ops D) s)"
    using file_other_laws(1) by blast
  show "file_inv s' \<and> t_is_open (file_ops D) s' = (err = None)" if "t_open (file_ops D) target s = (err, s')" for target err s'
    using file_other_laws(2) [OF that] by blast
  show "file_inv s'" if "0 < cap" "t_read (file_ops D) cap tmo s = Some (r, s')" for cap tmo r s'
    using file_read_law [OF k that] by blast
  show "length bs \<le> cap" if "0 < cap" "t_read (file_ops D) cap tmo s = Some (Some bs, s')" for cap tmo bs s'
    using file_read_law [OF k that] by blast
  show "bs = []" if "0 < cap" "\<not> t_is_open (file_ops D) s" "t_read (file_ops D) cap tmo s = Some (Some bs, s')" for cap tmo bs s'
    using file_read_law [OF k that(1,3)] that(2) by (simp add: file_ops_def)
  show "file_inv s' \<and> t_is_open (file_ops D) s' = t_is_open (file_ops D) s" if "t_write (file_ops D) data s = Some (ok, s')" for data ok s'
    using file_other_laws(3) [OF that] k by simp
  show "file_inv s' \<and> t_is_open (file_ops D) s' = t_is_open (file_ops D) s" if "t_now (file_ops D) s = (t, s')" for t s'
    using same_fileD(2,3) [OF file_other_laws(4) [OF that]] k by (simp add: file_ops_def)
qed

definition once_inv :: "file_transport \<Rightarrow> bool" where
  "once_inv s \<longleftrightarrow> file_inv s \<and> \<not> ft_loop s"

interpretation replay_once: byte_source "file_ops D" once_inv file_left for D
proof (rule byte_source.intro)
  show "byte_pipe (file_ops D) once_inv"
  proof (rule byte_pipe.intro)
    fix s assume k: "once_inv s"
    then have k': "file_inv s" and l: "\<not> ft_loop s" by (simp_all add: once_inv_def)
    show "once_inv (t_close (file_ops D) s) \<and> \<not> t_is_open (file_ops D) (t_close (file_ops D) s)"
      using file_other_laws(1) [of D s] l by (simp add: once_inv_def)
    show "once_inv s' \<and> t_is_open (file_ops D) s' = (err = None)" if "t_open (file_ops D) target s = (err, s')" for target err s'
      using file_other_laws(2) [OF that] l by (simp add: once_inv_def)
    show "once_inv s'" if "0 < cap" "t_read (file_ops D) cap tmo s = Some (r, s')" for cap tmo r s'
      using file_read_law [OF k' that] l by (simp add: once_inv_def)
    show "length bs \<le> cap" if "0 < cap" "t_read (file_ops D) cap tmo s = Some (Some bs, s')" for cap tmo bs s'
      using file_read_law [OF k' that] by blast
    show "bs = []" if "0 < cap" "\<not> t_is_open (file_ops D) s" "t_read (file_ops D) cap tmo s = Some (Some bs, s')" for cap tmo bs s'
      using replay.read_closed [OF k' that] .
    show "once_inv s' \<and> t_is_open (file_ops D) s' = t_is_open (file_ops D) s" if "t_write (file_ops D) data s = Some (ok, s')" for data ok s'
      using file_other_laws(3) [OF that] k by simp
    show "once_inv s' \<and> t_is_open (file_ops D) s' = t_is_open (file_ops D) s" if "t_now (file_ops D) s = (t, s')" for t s'
      using same_fileD(2,3,4) [OF file_other_laws(4) [OF that]] k by (simp add: file_ops_def once_inv_def)
  qed
  show "byte_source_axioms (file_ops D) once_inv file_left"
  proof
    fix s cap tmo bs s' assume "once_inv s"
    then have k: "file_inv s" "\<not> ft_loop s" by (simp_all add: once_inv_def)
    show "\<exists>more. file_left s @ more = bs @ file_left s'" if "0 < cap" "t_read (file_ops D) cap tmo s = Some (Some bs, s')"
      using file_read_law [OF k(1) that] k(2) by (intro exI [of _ "[]"]) simp
    show "\<exists>more. file_left s' = file_left s @ more" if "0 < cap" "t_read (file_ops D) cap tmo s = Some (None, s')"
      using file_read_law [OF k(1) that] k(2) by (intro exI [of _ "[]"]) simp
    show "\<exists>more. file_left s' = file_left s @ more" if "t_write (file_ops D) data s = Some (ok, s')" for data ok
      using file_other_laws(3) [OF that] by simp
    show "\<exists>more. file_left s' = file_left s @ more" if "t_now (file_ops D) s = (t, s')" for t
      using same_fileD(1) [OF file_other_laws(4) [OF that]] by simp
  qed
qed

subsection \<open>Serial port, POSIX\<close>

text \<open>The fields of \<^verbatim>\<open>struct termios\<close> that the code sets itself, and the constants of Linux for them.\<close>

record termios =
  c_cflag :: u32
  cc_vmin :: u8
  cc_vtime :: u8
  tio_ispeed :: u32
  tio_ospeed :: u32

definition CLOCAL :: u32 where [code_defs]: "CLOCAL = 0x800"
definition CREAD :: u32 where [code_defs]: "CREAD = 0x80"
definition CSTOPB :: u32 where [code_defs]: "CSTOPB = 0x40"
definition CRTSCTS :: u32 where [code_defs]: "CRTSCTS = 0x80000000"
definition B115200 :: u32 where [code_defs]: "B115200 = 0x1002"
definition POLL_DEAD :: u16 where [code_defs]: "POLL_DEAD = 0x38" \<comment> \<open>\<^verbatim>\<open>POLLERR | POLLHUP | POLLNVAL\<close>\<close>
definition RETRY_ERRNOS :: "int list" where [code_defs]: "RETRY_ERRNOS = [11, 4]" \<comment> \<open>\<^verbatim>\<open>EAGAIN\<close> (and \<^verbatim>\<open>EWOULDBLOCK\<close>), \<^verbatim>\<open>EINTR\<close>\<close>

record 'w posix_ops =
  px_open :: "string \<Rightarrow> 'w \<Rightarrow> int \<times> 'w"
  px_exclusive :: "int \<Rightarrow> 'w \<Rightarrow> 'w"
  px_tcgetattr :: "int \<Rightarrow> 'w \<Rightarrow> termios option \<times> 'w"
  px_cfmakeraw :: "termios \<Rightarrow> termios"
  px_tcsetattr :: "int \<Rightarrow> termios \<Rightarrow> 'w \<Rightarrow> bool \<times> 'w"
  px_tcflush :: "int \<Rightarrow> 'w \<Rightarrow> 'w"
  px_close :: "int \<Rightarrow> 'w \<Rightarrow> 'w"
  px_poll :: "int \<Rightarrow> int \<Rightarrow> 'w \<Rightarrow> (int \<times> u16) \<times> 'w"
  px_read :: "int \<Rightarrow> nat \<Rightarrow> 'w \<Rightarrow> bytes option \<times> 'w"
  px_write :: "int \<Rightarrow> bytes \<Rightarrow> 'w \<Rightarrow> nat option \<times> 'w"
  px_errno :: "'w \<Rightarrow> int"
  px_strerror :: "int \<Rightarrow> string"
  px_now :: "'w \<Rightarrow> u64 \<times> 'w"

record 'w serial =
  sp_fd :: int
  sp_os :: 'w

definition serial_close :: "'w posix_ops \<Rightarrow> 'w serial \<Rightarrow> 'w serial" where
  "serial_close P s = (if sp_fd s \<ge> 0 then s\<lparr>sp_fd := - 1, sp_os := px_close P (sp_fd s) (sp_os s)\<rparr> else s)"

definition serial_termios :: "'w posix_ops \<Rightarrow> termios \<Rightarrow> termios" where
  "serial_termios P tio =
     (let tio = px_cfmakeraw P tio; tio = tio\<lparr>c_cflag := c_cflag tio OR (CLOCAL OR CREAD)\<rparr>;
          tio = tio\<lparr>c_cflag := c_cflag tio AND NOT CSTOPB\<rparr>; tio = tio\<lparr>c_cflag := c_cflag tio AND NOT CRTSCTS\<rparr> in
      tio\<lparr>cc_vmin := 0, cc_vtime := 0, tio_ispeed := B115200, tio_ospeed := B115200\<rparr>)"

definition serial_open :: "'w posix_ops \<Rightarrow> string \<Rightarrow> 'w serial \<Rightarrow> string option \<times> 'w serial" where
  "serial_open P target s =
     (case px_open P target (sp_os (serial_close P s)) of (fd, w) \<Rightarrow>
        let s = \<lparr>sp_fd = fd, sp_os = w\<rparr> in
        if fd < 0 then
          (Some (''cannot open '' @ target @ '' ('' @ px_strerror P (px_errno P w) @ '')''), s)
        else
          (case px_tcgetattr P fd (px_exclusive P fd w) of
             (None, w) \<Rightarrow> (Some (''tcgetattr failed on '' @ target), serial_close P (s\<lparr>sp_os := w\<rparr>))
           | (Some tio, w) \<Rightarrow>
               (case px_tcsetattr P fd (serial_termios P tio) w of (ok, w) \<Rightarrow>
                  if \<not> ok then (Some (''tcsetattr failed on '' @ target), serial_close P (s\<lparr>sp_os := w\<rparr>))
                  else (None, s\<lparr>sp_os := px_tcflush P fd w\<rparr>))))"

definition serial_is_open :: "'w serial \<Rightarrow> bool" where
  "serial_is_open s \<longleftrightarrow> sp_fd s \<ge> 0"

definition serial_read :: "'w posix_ops \<Rightarrow> nat \<Rightarrow> int \<Rightarrow> 'w serial \<Rightarrow> (bytes option \<times> 'w serial) option" where
  "serial_read P cap timeout_ms s =
     Some (if sp_fd s < 0 then (None, s)
      else
        (case px_poll P (sp_fd s) timeout_ms (sp_os s) of ((pr, revents), w) \<Rightarrow>
           let s = s\<lparr>sp_os := w\<rparr> in
           if pr < 0 then (if px_errno P w = 4 then Some [] else None, s)
           else if pr = 0 then (Some [], s)
           else if revents AND POLL_DEAD \<noteq> 0 then (None, s)
           else
             (case px_read P (sp_fd s) cap w of (r, w) \<Rightarrow>
                let s = s\<lparr>sp_os := w\<rparr> in
                case r of
                  None \<Rightarrow> (if px_errno P w \<in> set RETRY_ERRNOS then Some [] else None, s)
                | Some bs \<Rightarrow> (if bs = [] then None else Some bs, s))))"

partial_function (option) serial_write_loop :: "'w posix_ops \<Rightarrow> bytes \<Rightarrow> 'w serial \<Rightarrow> (bool \<times> 'w serial) option" where
  "serial_write_loop px data s =
     (if data = [] then Some (True, s)
      else
        (case px_write px (sp_fd s) data (sp_os s) of (r, w) \<Rightarrow>
           let s = s\<lparr>sp_os := w\<rparr> in
           case r of
             None \<Rightarrow> if px_errno px w \<in> set RETRY_ERRNOS then serial_write_loop px data s else Some (False, s)
           | Some n \<Rightarrow> serial_write_loop px (drop n data) s))"

definition serial_write :: "'w posix_ops \<Rightarrow> bytes \<Rightarrow> 'w serial \<Rightarrow> (bool \<times> 'w serial) option" where
  "serial_write P data s = (if sp_fd s < 0 then Some (False, s) else serial_write_loop P data s)"

definition serial_now :: "'w posix_ops \<Rightarrow> 'w serial \<Rightarrow> u64 \<times> 'w serial" where
  "serial_now P s = (case px_now P (sp_os s) of (t, w) \<Rightarrow> (t, s\<lparr>sp_os := w\<rparr>))"

definition serial_ops :: "'w posix_ops \<Rightarrow> 'w serial transport_ops" where
  "serial_ops P = \<lparr>t_open = serial_open P, t_close = serial_close P, t_is_open = serial_is_open, t_read = serial_read P,
     t_write = serial_write P, t_now = serial_now P\<rparr>"

lemma serial_write_loop_code [code]:
  "serial_write_loop px data s =
     (if data = [] then Some (True, s)
      else
        (case px_write px (sp_fd s) data (sp_os s) of
           (None, w) \<Rightarrow>
             (if px_errno px w \<in> set RETRY_ERRNOS then serial_write_loop px data (s\<lparr>sp_os := w\<rparr>)
              else Some (False, s\<lparr>sp_os := w\<rparr>))
         | (Some n, w) \<Rightarrow> serial_write_loop px (drop n data) (s\<lparr>sp_os := w\<rparr>)))"
  by (subst serial_write_loop.simps)
    (cases "px_write px (sp_fd s) data (sp_os s)"; simp add: Let_def split: option.split)

lemma serial_pipe:
  assumes "\<And>fd cap w bs w'. px_read P fd cap w = (Some bs, w') \<Longrightarrow> length bs \<le> cap"
  shows "byte_pipe (serial_ops P) (\<lambda>_. True)"
proof (rule byte_pipe.intro)
  have w: "serial_write_loop P data s = Some y \<Longrightarrow> sp_fd (snd y) = sp_fd s" for data s y
  proof (rule serial_write_loop.raw_induct [of "\<lambda>P data s y. sp_fd (snd y) = sp_fd s"])
    fix loop P data y and s :: "'a serial"
    assume IH: "\<And>P data s y. loop P data s = Some y \<Longrightarrow> sp_fd (snd y) = sp_fd s"
      and run: "(if data = [] then Some (True, s) else case px_write P (sp_fd s) data (sp_os s) of (r, w) \<Rightarrow>
        let s = s\<lparr>sp_os := w\<rparr> in case r of
          None \<Rightarrow> if px_errno P w \<in> set RETRY_ERRNOS then loop P data s else Some (False, s)
        | Some n \<Rightarrow> loop P (drop n data) s) = Some y"
    obtain r w where "px_write P (sp_fd s) data (sp_os s) = (r, w)" by fastforce
    with run IH [of P _ "s\<lparr>sp_os := w\<rparr>" y] show "sp_fd (snd y) = sp_fd s"
      by (cases r) (auto simp: Let_def split: if_splits)
  qed
  note defs = serial_ops_def serial_is_open_def serial_close_def serial_now_def serial_write_def
  fix s
  show "True \<and> \<not> t_is_open (serial_ops P) (t_close (serial_ops P) s)" by (simp add: defs)
  show "True \<and> t_is_open (serial_ops P) s' = (err = None)" if "t_open (serial_ops P) target s = (err, s')" for target err s'
    using that by (auto simp: defs serial_open_def Let_def split: prod.splits option.splits if_splits)
  show "length bs \<le> cap" if "t_read (serial_ops P) cap tmo s = Some (Some bs, s')" for cap tmo bs s'
    using that assms by (auto simp: defs serial_read_def Let_def split: prod.splits option.splits if_splits)
  show "bs = []" if "\<not> t_is_open (serial_ops P) s" "t_read (serial_ops P) cap tmo s = Some (Some bs, s')" for cap tmo bs s'
    using that by (simp add: defs serial_read_def)
  show "True \<and> t_is_open (serial_ops P) s' = t_is_open (serial_ops P) s" if "t_write (serial_ops P) data s = Some (ok, s')" for data ok s'
    using that w [of data s "(ok, s')"] by (simp add: defs split: if_splits)
  show "True \<and> t_is_open (serial_ops P) s' = t_is_open (serial_ops P) s" if "t_now (serial_ops P) s = (t, s')" for t s'
    using that by (auto simp: defs split: prod.splits)
qed (rule TrueI)

subsection \<open>Serial port, Windows\<close>

record win_dcb =
  dcb_BaudRate :: nat
  dcb_ByteSize :: nat
  dcb_Parity :: nat
  dcb_StopBits :: nat
  dcb_fBinary :: bool
  dcb_fDtrControl :: nat
  dcb_fRtsControl :: nat
  dcb_fOutxCtsFlow :: bool
  dcb_fOutxDsrFlow :: bool
  dcb_fDsrSensitivity :: bool
  dcb_fOutX :: bool
  dcb_fInX :: bool
  dcb_fAbortOnError :: bool

record win_timeouts =
  ReadIntervalTimeout :: u32
  ReadTotalTimeoutMultiplier :: u32
  ReadTotalTimeoutConstant :: u32
  WriteTotalTimeoutConstant :: u32
  WriteTotalTimeoutMultiplier :: u32

record 'w win_ops =
  wn_CreateFile :: "string \<Rightarrow> 'w \<Rightarrow> nat option \<times> 'w"
  wn_SetupAndPurge :: "nat \<Rightarrow> 'w \<Rightarrow> 'w"
  wn_GetCommState :: "nat \<Rightarrow> 'w \<Rightarrow> win_dcb option \<times> 'w"
  wn_SetCommState :: "nat \<Rightarrow> win_dcb \<Rightarrow> 'w \<Rightarrow> bool \<times> 'w"
  wn_SetCommTimeouts :: "nat \<Rightarrow> win_timeouts \<Rightarrow> 'w \<Rightarrow> 'w"
  wn_ReadFile :: "nat \<Rightarrow> nat \<Rightarrow> 'w \<Rightarrow> bytes option \<times> 'w"
  wn_WriteFile :: "nat \<Rightarrow> bytes \<Rightarrow> 'w \<Rightarrow> nat option \<times> 'w"
  wn_CloseHandle :: "nat \<Rightarrow> 'w \<Rightarrow> 'w"
  wn_ClearCommError :: "nat \<Rightarrow> 'w \<Rightarrow> 'w"
  wn_GetLastError :: "'w \<Rightarrow> nat"
  wn_now :: "'w \<Rightarrow> u64 \<times> 'w"

record 'w win_serial =
  ws_h :: "nat option"
  ws_timeout_set :: int
  ws_os :: 'w

text \<open>\<^verbatim>\<open>std::to_string\<close> of an unsigned number.\<close>

fun dec_string :: "nat \<Rightarrow> string" where
  "dec_string n = (if n < 10 then [] else dec_string (n div 10)) @ [char_of (48 + n mod 10)]"

declare dec_string.simps [simp del]

definition win_close :: "'w win_ops \<Rightarrow> 'w win_serial \<Rightarrow> 'w win_serial" where
  "win_close P s = (case ws_h s of None \<Rightarrow> s | Some h \<Rightarrow> s\<lparr>ws_h := None, ws_os := wn_CloseHandle P h (ws_os s)\<rparr>)"

definition win_path :: "string \<Rightarrow> string" where
  "win_path target =
     (let prefix = [CHR 0x5C, CHR 0x5C, CHR ''.'', CHR 0x5C] in
      if take 4 target \<noteq> prefix then prefix @ target else target)"

definition win_set_timeouts :: "'w win_ops \<Rightarrow> int \<Rightarrow> nat \<Rightarrow> 'w win_serial \<Rightarrow> 'w win_serial" where
  "win_set_timeouts P timeout_ms h s =
     s\<lparr>ws_os := wn_SetCommTimeouts P h
         \<lparr>ReadIntervalTimeout = 0xFFFFFFFF, ReadTotalTimeoutMultiplier = 0xFFFFFFFF,
          ReadTotalTimeoutConstant = (if timeout_ms > 0 then word_of_int timeout_ms else 0),
          WriteTotalTimeoutConstant = 500, WriteTotalTimeoutMultiplier = 0\<rparr> (ws_os s),
       ws_timeout_set := timeout_ms\<rparr>"

definition win_dcb_settings :: "win_dcb \<Rightarrow> win_dcb" where
  "win_dcb_settings d =
     d\<lparr>dcb_BaudRate := 115200, dcb_ByteSize := 8, dcb_Parity := 0, dcb_StopBits := 0, dcb_fBinary := True,
       dcb_fDtrControl := 1, dcb_fRtsControl := 1, dcb_fOutxCtsFlow := False, dcb_fOutxDsrFlow := False,
       dcb_fDsrSensitivity := False, dcb_fOutX := False, dcb_fInX := False, dcb_fAbortOnError := False\<rparr>"

definition win_open :: "'w win_ops \<Rightarrow> string \<Rightarrow> 'w win_serial \<Rightarrow> string option \<times> 'w win_serial" where
  "win_open P target s =
     (let s = win_close P s in
      case wn_CreateFile P (win_path target) (ws_os s) of
        (None, w) \<Rightarrow>
          (Some (''cannot open '' @ target @ '' (error '' @ dec_string (wn_GetLastError P w) @ '')''), s\<lparr>ws_h := None, ws_os := w\<rparr>)
      | (Some h, w) \<Rightarrow>
          (case wn_GetCommState P h (wn_SetupAndPurge P h w) of
             (None, w) \<Rightarrow> (Some (''GetCommState failed on '' @ target), win_close P (s\<lparr>ws_h := Some h, ws_os := w\<rparr>))
           | (Some dcb, w) \<Rightarrow>
               (case wn_SetCommState P h (win_dcb_settings dcb) w of (ok, w) \<Rightarrow>
                  let s = s\<lparr>ws_h := Some h, ws_os := w\<rparr> in
                  if \<not> ok then (Some (''SetCommState failed on '' @ target), win_close P s)
                  else (None, win_set_timeouts P 20 h s))))"

definition win_is_open :: "'w win_serial \<Rightarrow> bool" where
  "win_is_open s \<longleftrightarrow> ws_h s \<noteq> None"

text \<open>\<^verbatim>\<open>ERROR_OPERATION_ABORTED\<close>, \<^verbatim>\<open>ACCESS_DENIED\<close>, \<^verbatim>\<open>BAD_COMMAND\<close>, \<^verbatim>\<open>DEVICE_REMOVED\<close>, \<^verbatim>\<open>INVALID_HANDLE\<close>, \<^verbatim>\<open>GEN_FAILURE\<close>.\<close>

definition DEAD_PORT_ERRORS :: "nat list" where [code_defs]: "DEAD_PORT_ERRORS = [995, 5, 22, 1617, 6, 31]"

definition win_read :: "'w win_ops \<Rightarrow> nat \<Rightarrow> int \<Rightarrow> 'w win_serial \<Rightarrow> (bytes option \<times> 'w win_serial) option" where
  "win_read P cap timeout_ms s =
     Some (case ws_h s of
        None \<Rightarrow> (None, s)
      | Some h \<Rightarrow>
          (let s = (if timeout_ms \<noteq> ws_timeout_set s then win_set_timeouts P timeout_ms h s else s) in
           case wn_ReadFile P h cap (ws_os s) of
             (None, w) \<Rightarrow>
               (if wn_GetLastError P w \<in> set DEAD_PORT_ERRORS then (None, s\<lparr>ws_os := w\<rparr>)
                else (Some [], s\<lparr>ws_os := wn_ClearCommError P h w\<rparr>))
           | (Some bs, w) \<Rightarrow> (Some bs, s\<lparr>ws_os := w\<rparr>)))"

text \<open>The loop ends: every round that goes on has written something.\<close>

function win_write_loop :: "'w win_ops \<Rightarrow> nat \<Rightarrow> bytes \<Rightarrow> 'w win_serial \<Rightarrow> bool \<times> 'w win_serial" where
  "win_write_loop P h data s =
     (if data = [] then (True, s)
      else
        (case wn_WriteFile P h data (ws_os s) of (r, w) \<Rightarrow>
           let s = s\<lparr>ws_os := w\<rparr> in
           case r of
             None \<Rightarrow> (False, s)
           | Some n \<Rightarrow> if n = 0 then (False, s) else win_write_loop P h (drop n data) s))"
  by pat_completeness auto
termination
  by (relation "measure (\<lambda>(P, h, data, s). length data)") (auto simp flip: length_greater_0_conv)

definition win_write :: "'w win_ops \<Rightarrow> bytes \<Rightarrow> 'w win_serial \<Rightarrow> (bool \<times> 'w win_serial) option" where
  "win_write P data s = Some (case ws_h s of None \<Rightarrow> (False, s) | Some h \<Rightarrow> win_write_loop P h data s)"

definition win_now :: "'w win_ops \<Rightarrow> 'w win_serial \<Rightarrow> u64 \<times> 'w win_serial" where
  "win_now P s = (case wn_now P (ws_os s) of (t, w) \<Rightarrow> (t, s\<lparr>ws_os := w\<rparr>))"

definition win_ops :: "'w win_ops \<Rightarrow> 'w win_serial transport_ops" where
  "win_ops P = \<lparr>t_open = win_open P, t_close = win_close P, t_is_open = win_is_open, t_read = win_read P,
     t_write = win_write P, t_now = win_now P\<rparr>"

declare win_write_loop.simps [simp del]

lemma win_write_loop_handle: "ws_h (snd (win_write_loop P h data s)) = ws_h s"
proof (induction P h data s rule: win_write_loop.induct)
  case (1 P h data s)
  then show ?case
    by (subst win_write_loop.simps) (auto simp: Let_def split: prod.split option.split)
qed

lemma win_pipe:
  assumes "\<And>h cap w bs w'. wn_ReadFile P h cap w = (Some bs, w') \<Longrightarrow> length bs \<le> cap"
  shows "byte_pipe (win_ops P) (\<lambda>_. True)"
proof (rule byte_pipe.intro)
  note defs = win_ops_def win_is_open_def win_close_def win_now_def win_write_def win_set_timeouts_def
  fix s
  show "True \<and> \<not> t_is_open (win_ops P) (t_close (win_ops P) s)" by (simp add: defs split: option.split)
  show "True \<and> t_is_open (win_ops P) s' = (err = None)" if "t_open (win_ops P) target s = (err, s')" for target err s'
    using that by (auto simp: defs win_open_def Let_def split: prod.splits option.splits if_splits)
  show "length bs \<le> cap" if "t_read (win_ops P) cap tmo s = Some (Some bs, s')" for cap tmo bs s'
    using that assms by (auto simp: defs win_read_def Let_def split: prod.splits option.splits if_splits)
  show "bs = []" if "\<not> t_is_open (win_ops P) s" "t_read (win_ops P) cap tmo s = Some (Some bs, s')" for cap tmo bs s'
    using that by (simp add: defs win_read_def)
  show "True \<and> t_is_open (win_ops P) s' = t_is_open (win_ops P) s" if "t_write (win_ops P) data s = Some (ok, s')" for data ok s'
  proof (cases "ws_h s")
    case None
    with that show ?thesis by (simp add: defs)
  next
    case (Some h)
    with that win_write_loop_handle [of P h data s] show ?thesis by (simp add: defs)
  qed
  show "True \<and> t_is_open (win_ops P) s' = t_is_open (win_ops P) s" if "t_now (win_ops P) s = (t, s')" for t s'
    using that by (auto simp: defs split: prod.splits)
qed (rule TrueI)

subsection \<open>Enumeration\<close>

record port_info =
  pi_path :: string
  pi_description :: string
  pi_hwid :: string

definition to_lower :: "char \<Rightarrow> char" where
  "to_lower c = (let n = of_char c :: nat in if 65 \<le> n \<and> n \<le> 90 then char_of (n + 32) else c)"

fun find_sub :: "string \<Rightarrow> string \<Rightarrow> bool" where
  "find_sub b [] = (b = [])"
| "find_sub b (c # a) = (take (length b) (c # a) = b \<or> find_sub b a)"

definition contains_ci :: "string \<Rightarrow> string \<Rightarrow> bool" where
  "contains_ci hay needle = find_sub (map to_lower needle) (map to_lower hay)"

definition looks_like_dongle :: "port_info \<Rightarrow> bool" where
  "looks_like_dongle p \<longleftrightarrow> contains_ci (pi_description p) ''headtracker'' \<or> contains_ci (pi_hwid p) ''headtracker''"

text \<open>\<open>listing\<close> is what \<^verbatim>\<open>opendir\<close> and \<^verbatim>\<open>readdir\<close> give for a directory, \<open>target_of\<close> the result of \<^verbatim>\<open>readlink\<close> when it is not empty.\<close>

definition after_last_slash :: "string \<Rightarrow> string" where
  "after_last_slash t = rev (takeWhile (\<lambda>c. c \<noteq> CHR ''/'') (rev t))"

definition scan_entry :: "(string \<Rightarrow> string option) \<Rightarrow> string \<Rightarrow> bool \<Rightarrow> string \<Rightarrow> port_info" where
  "scan_entry target_of dir resolve_link name =
     (let full = dir @ ''/'' @ name in
      if resolve_link then
        \<lparr>pi_path = (case target_of full of Some t \<Rightarrow> ''/dev/'' @ after_last_slash t | None \<Rightarrow> full),
         pi_description = name, pi_hwid = name\<rparr>
      else \<lparr>pi_path = full, pi_description = name, pi_hwid = []\<rparr>)"

definition scan_dir ::
  "(string \<Rightarrow> string list option) \<Rightarrow> (string \<Rightarrow> string option) \<Rightarrow> string \<Rightarrow> string option \<Rightarrow> bool \<Rightarrow> port_info list" where
  "scan_dir listing target_of dir prefix resolve_link =
     (case listing dir of
        None \<Rightarrow> []
      | Some names \<Rightarrow>
          map (scan_entry target_of dir resolve_link)
            (filter (\<lambda>name. name \<noteq> ''.'' \<and> name \<noteq> ''..'' \<and>
                (case prefix of None \<Rightarrow> True | Some p \<Rightarrow> take (length p) name = p)) names))"

definition enumerate_ports :: "(string \<Rightarrow> string list option) \<Rightarrow> (string \<Rightarrow> string option) \<Rightarrow> port_info list" where
  "enumerate_ports listing target_of =
     (let out = scan_dir listing target_of ''/dev/serial/by-id'' None True;
          out = (if out = [] then out @ scan_dir listing target_of ''/dev'' (Some ''ttyACM'') False else out) in
      out @ scan_dir listing target_of ''/dev'' (Some ''cu.usbmodem'') False)"

text \<open>On Windows: \<open>devices\<close> lists the name of the port (empty when it has none), the friendly name and the hardware id.\<close>

definition enumerate_ports_win :: "(string \<times> string \<times> string) list option \<Rightarrow> port_info list" where
  "enumerate_ports_win devices =
     (case devices of
        None \<Rightarrow> []
      | Some ds \<Rightarrow>
          filter (\<lambda>p. \<not> (contains_ci (pi_hwid p) ''BTHENUM'' \<or> contains_ci (pi_description p) ''bluetooth''))
            (map (\<lambda>(name, friendly, hwid). \<lparr>pi_path = name, pi_description = friendly, pi_hwid = hwid\<rparr>)
              (filter (\<lambda>(name, friendly, hwid). name \<noteq> []) ds)))"

subsection \<open>Discovery\<close>

text \<open>The local variables of \<^verbatim>\<open>probe_port\<close>: whether there was an answer, and whether the last one was good.\<close>

definition probe_callbacks :: "(bool \<times> bool) parser_callbacks" where
  "probe_callbacks = \<lparr>on_orient = None, on_status = None, on_tracker_stat = None, on_raw = None,
     on_hello_resp = Some (\<lambda>h _. (True, compatible h \<and> hr_device h = 1)), on_log = None\<rparr>"

text \<open>
  One turn of the loop: the end of it with the local variables or with the error of a failed write or read, or the
  next \<^verbatim>\<open>next_hello\<close>, \<^verbatim>\<open>sent\<close> and parser.
\<close>

datatype 'a turn = Stop "string + bool \<times> bool" | Again 'a

definition say_hello :: "'t transport_ops \<Rightarrow> u64 \<Rightarrow> nat \<Rightarrow> 't \<Rightarrow> (bool \<times> (u64 \<times> nat) \<times> 't) option" where
  "say_hello T next_hello sent s =
     (case t_now T s of (now, s) \<Rightarrow>
        if now \<ge> next_hello \<and> sent < 3 then
          (case t_write T encode_hello s of
             None \<Rightarrow> None
           | Some (ok, s) \<Rightarrow>
               if \<not> ok then Some (False, (next_hello, sent), s)
               else (case t_now T s of (now, s) \<Rightarrow> Some (True, (now + 100, sent + 1), s)))
        else Some (True, (next_hello, sent), s))"

definition probe_turn ::
  "'t transport_ops \<Rightarrow> string \<Rightarrow> u64 \<Rightarrow> (u64 \<times> nat) \<times> parser \<times> bool \<times> bool \<Rightarrow> 't \<Rightarrow>
   (((u64 \<times> nat) \<times> parser \<times> bool \<times> bool) turn \<times> 't) option" where
  "probe_turn T path deadline x s = (case x of ((next_hello, sent), pr) \<Rightarrow>
     case t_now T s of (now, s) \<Rightarrow>
       if \<not> (now < deadline) \<or> fst (snd pr) then Some (Stop (Inr (snd pr)), s)
       else
         (case say_hello T next_hello sent s of
            None \<Rightarrow> None
          | Some (ok, hello, s) \<Rightarrow>
              if \<not> ok then Some (Stop (Inl (''write failed on '' @ path)), s)
              else
                (case t_read T 256 20 s of
                   None \<Rightarrow> None
                 | Some (None, s) \<Rightarrow> Some (Stop (Inl (''read failed on '' @ path)), s)
                 | Some (Some bs, s) \<Rightarrow> Some (Again (hello, feed probe_callbacks bs pr), s))))"

partial_function (option) probe_loop ::
  "'t transport_ops \<Rightarrow> string \<Rightarrow> u64 \<Rightarrow> (u64 \<times> nat) \<times> parser \<times> bool \<times> bool \<Rightarrow> 't \<Rightarrow> ((string + bool \<times> bool) \<times> 't) option" where
  "probe_loop T path deadline vars s =
     (case probe_turn T path deadline vars s of
        None \<Rightarrow> None
      | Some (t, s) \<Rightarrow> (case t of Stop r \<Rightarrow> Some (r, s) | Again vars \<Rightarrow> probe_loop T path deadline vars s))"

text \<open>The error message is \<open>None\<close> when the probe was successful.\<close>

definition probe_port :: "'t transport_ops \<Rightarrow> string \<Rightarrow> int \<Rightarrow> 't \<Rightarrow> (string option \<times> 't) option" where
  "probe_port T path probe_timeout_ms s =
     (case t_open T path s of
        (Some err, s) \<Rightarrow> Some (Some err, s)
      | (None, s) \<Rightarrow>
          (case t_now T s of (now, s) \<Rightarrow>
             case probe_loop T path (now + word_of_int probe_timeout_ms) ((0, 0), (parser_init, (False, False))) s of
               None \<Rightarrow> None
             | Some (Inl err, s) \<Rightarrow> Some (Some err, t_close T s)
             | Some (Inr (answered, ok), s) \<Rightarrow>
                 Some (if \<not> answered then Some (''no HELLO_RESP from '' @ path)
                   else if \<not> ok then Some (''device on '' @ path @ '' is not a compatible dongle'')
                   else None, t_close T s)))"

definition stable_partition :: "('a \<Rightarrow> bool) \<Rightarrow> 'a list \<Rightarrow> 'a list" where
  "stable_partition p xs = filter p xs @ filter (\<lambda>x. \<not> p x) xs"

text \<open>The loop over the candidates; every probe uses a serial port of its own, on the state of the system.\<close>

fun probe_all :: "(string \<Rightarrow> 'w \<Rightarrow> (string option \<times> 'w) option) \<Rightarrow> port_info list \<Rightarrow> 'w \<Rightarrow> (string \<times> 'w) option" where
  "probe_all probe [] w = Some ([], w)"
| "probe_all probe (p # ps) w =
     (case probe (pi_path p) w of
        None \<Rightarrow> None
      | Some (None, w) \<Rightarrow> Some (pi_path p, w)
      | Some (Some err, w) \<Rightarrow> probe_all probe ps w)"

definition serial_probe :: "'w posix_ops \<Rightarrow> int \<Rightarrow> string \<Rightarrow> 'w \<Rightarrow> (string option \<times> 'w) option" where
  "serial_probe P probe_timeout_ms path w =
     map_option (\<lambda>(r, s). (r, sp_os s)) (probe_port (serial_ops P) path probe_timeout_ms \<lparr>sp_fd = - 1, sp_os = w\<rparr>)"

definition find_dongle :: "'w posix_ops \<Rightarrow> int \<Rightarrow> port_info list \<Rightarrow> 'w \<Rightarrow> (string \<times> 'w) option" where
  "find_dongle P probe_timeout_ms ports w =
     probe_all (serial_probe P probe_timeout_ms) (stable_partition looks_like_dongle ports) w"

declare probe_loop.simps [code] mem_read_loop.simps [code]

subsection \<open>What a probe has seen\<close>

lemma tee_keeps_record:
  "t_now (tee_ops D T) s = (t, s') \<Longrightarrow> tee_rec s' = tee_rec s \<and> tee_seen s' = tee_seen s"
  "t_write (tee_ops D T) data s = Some (ok, s') \<Longrightarrow> tee_rec s' = tee_rec s \<and> tee_seen s' = tee_seen s"
  "t_read (tee_ops D T) cap tmo s = Some (r, s') \<Longrightarrow> tee_rec s \<Longrightarrow>
    tee_rec s' \<and> tee_seen s' = tee_seen s @ (case r of None \<Rightarrow> [] | Some bs \<Rightarrow> bs)"
  "t_open (tee_ops D T) target s = (None, s') \<Longrightarrow> tee_rec s' \<and> tee_seen s' = []"
  "tee_seen (t_close (tee_ops D T) s) = tee_seen s"
  by (auto simp: tee_ops_def tee_now_def tee_write_def tee_read_def tee_open_def tee_close_def Let_def
      split: prod.splits option.splits if_splits)

definition probe_view :: "bytes \<Rightarrow> parser \<times> bool \<times> bool" where
  "probe_view bs = feed probe_callbacks bs (parser_init, (False, False))"

lemma say_hello_record:
  assumes "say_hello (tee_ops D T) nh sent s = Some (ok, x, s')"
  shows "tee_rec s' = tee_rec s \<and> tee_seen s' = tee_seen s"
  using assms
  by (auto simp: say_hello_def split: prod.splits option.splits if_splits dest!: tee_keeps_record(1,2))

lemma probe_turn_view:
  assumes "probe_turn (tee_ops D T) path deadline x s = Some (t, s')" and "tee_rec s" and "snd x = probe_view (tee_seen s)"
  shows "tee_rec s' \<and> (\<forall>r. t = Stop (Inr r) \<longrightarrow> r = snd (probe_view (tee_seen s'))) \<or> (\<exists>err. t = Stop (Inl err))"
    and "t = Again y \<Longrightarrow> tee_rec s' \<and> snd y = probe_view (tee_seen s')"
proof -
  obtain nh sent pr where x: "x = ((nh, sent), pr)" by (metis surj_pair)
  obtain now s1 where n: "t_now (tee_ops D T) s = (now, s1)" by fastforce
  note k1 = tee_keeps_record(1) [OF n]
  have "(tee_rec s' \<and> (\<forall>r. t = Stop (Inr r) \<longrightarrow> r = snd (probe_view (tee_seen s'))) \<or> (\<exists>err. t = Stop (Inl err))) \<and>
    (\<forall>y. t = Again y \<longrightarrow> tee_rec s' \<and> snd y = probe_view (tee_seen s'))"
  proof (cases "\<not> (now < deadline) \<or> fst (snd pr)")
    case True
    with assms n x k1 show ?thesis by (auto simp: probe_turn_def)
  next
    case False
    with assms(1) n x obtain ok hello s2 where h: "say_hello (tee_ops D T) nh sent s1 = Some (ok, hello, s2)"
      by (auto simp: probe_turn_def split: option.splits)
    note k2 = say_hello_record [OF h]
    show ?thesis
    proof (cases ok)
      case False
      with \<open>\<not> (\<not> (now < deadline) \<or> fst (snd pr))\<close> assms(1) n x h show ?thesis by (auto simp: probe_turn_def)
    next
      case True
      with False assms(1) n x h obtain r s3 where rd: "t_read (tee_ops D T) 256 20 s2 = Some (r, s3)"
        by (auto simp: probe_turn_def split: option.splits)
      have "tee_rec s2" using k1 k2 assms(2) by simp
      note k3 = tee_keeps_record(3) [OF rd this]
      from True False assms n x h rd k1 k2 k3 show ?thesis
        by (cases r) (auto simp: probe_turn_def probe_view_def feed_append)
    qed
  qed
  then show "tee_rec s' \<and> (\<forall>r. t = Stop (Inr r) \<longrightarrow> r = snd (probe_view (tee_seen s'))) \<or> (\<exists>err. t = Stop (Inl err))"
    "t = Again y \<Longrightarrow> tee_rec s' \<and> snd y = probe_view (tee_seen s')" by blast+
qed

lemma probe_loop_view:
  fixes T :: "'a transport_ops" and D :: "'w stdio_ops"
  assumes "probe_loop (tee_ops D T) path deadline x s = Some (Inr r, s')"
    and "tee_rec s" and "snd x = probe_view (tee_seen s)"
  shows "r = snd (probe_view (tee_seen s'))"
proof -
  let ?Q = "\<lambda>T' (path :: string) (deadline :: u64) (x :: (u64 \<times> nat) \<times> parser \<times> bool \<times> bool) (s :: ('a, 'w) tee) (y :: (string + bool \<times> bool) \<times> ('a, 'w) tee). T' = tee_ops D T \<longrightarrow> tee_rec s \<longrightarrow> snd x = probe_view (tee_seen s) \<longrightarrow>
      (\<forall>r. fst y = Inr r \<longrightarrow> r = snd (probe_view (tee_seen (snd y))))"
  have "?Q (tee_ops D T) path deadline x s (Inr r, s')"
  proof (rule probe_loop.raw_induct [of ?Q, OF _ assms(1)])
    fix loop T' path deadline x s y
    assume IH: "\<And>T' path deadline x s y. loop T' path deadline x s = Some y \<Longrightarrow> ?Q T' path deadline x s y"
      and run: "(case probe_turn T' path deadline x s of None \<Rightarrow> None
        | Some (t, s) \<Rightarrow> (case t of Stop r \<Rightarrow> Some (r, s) | Again x \<Rightarrow> loop T' path deadline x s)) = Some y"
    show "?Q T' path deadline x s y"
    proof (intro impI)
      assume T': "T' = tee_ops D T" and s: "tee_rec s" "snd x = probe_view (tee_seen s)"
      from run obtain t s1 where t: "probe_turn T' path deadline x s = Some (t, s1)" by (auto split: option.splits)
      note v = probe_turn_view [OF t [unfolded T'] s]
      show "\<forall>r. fst y = Inr r \<longrightarrow> r = snd (probe_view (tee_seen (snd y)))"
      proof (cases t)
        case (Stop r)
        with run t v(1) show ?thesis by auto
      next
        case (Again x')
        with run t have "loop T' path deadline x' s1 = Some y" by simp
        from IH [OF this] T' v(2) [OF Again] show ?thesis by blast
      qed
    qed
  qed
  with assms(2,3) show ?thesis by simp
qed

lemma probe_turn_errors:
  "probe_turn T path deadline v s = Some (Stop (Inl e), s') \<Longrightarrow> e = ''write failed on '' @ path \<or> e = ''read failed on '' @ path"
  by (auto simp: probe_turn_def split: prod.splits option.splits if_splits)

lemma probe_loop_errors:
  fixes T :: "'t transport_ops"
  assumes "probe_loop T path deadline v s = Some (x, s')" and "x = Inl e"
  shows "e \<noteq> ''no HELLO_RESP from '' @ path"
proof -
  let ?Q = "\<lambda>(T :: 't transport_ops) path (deadline :: u64) (v :: (u64 \<times> nat) \<times> parser \<times> bool \<times> bool) (s :: 't)
    (y :: (string + bool \<times> bool) \<times> 't). \<forall>e. fst y = Inl e \<longrightarrow> e \<noteq> ''no HELLO_RESP from '' @ path"
  have "?Q T path deadline v s (x, s')"
  proof (rule probe_loop.raw_induct [of ?Q, OF _ assms(1)])
    fix loop and T :: "'t transport_ops" and path deadline v s y
    assume IH: "\<And>T path deadline v s y. loop T path deadline v s = Some y \<Longrightarrow> ?Q T path deadline v s y"
      and run: "(case probe_turn T path deadline v s of None \<Rightarrow> None
        | Some (t, s) \<Rightarrow> (case t of Stop r \<Rightarrow> Some (r, s) | Again v \<Rightarrow> loop T path deadline v s)) = Some y"
    from run obtain t s1 where t: "probe_turn T path deadline v s = Some (t, s1)" by (auto split: option.splits)
    show "?Q T path deadline v s y"
    proof (cases t)
      case (Stop x)
      with run t have y: "y = (x, s1)" by simp
      show ?thesis
      proof (intro allI impI)
        fix e assume "fst y = Inl e"
        with t Stop y have "e = ''write failed on '' @ path \<or> e = ''read failed on '' @ path"
          by (intro probe_turn_errors) simp
        then show "e \<noteq> ''no HELLO_RESP from '' @ path" by auto
      qed
    next
      case (Again v')
      with run t have "loop T path deadline v' s1 = Some y" by simp
      then show ?thesis by (rule IH)
    qed
  qed
  with assms(2) show ?thesis by simp
qed

text \<open>The answers of a dongle in a stream of bytes: every HELLO_RESP that the parser accepts, in order.\<close>

definition hello_resps :: "bytes \<Rightarrow> htk_hello_resp list" where
  "hello_resps bs =
     List.map_filter (\<lambda>pkt. case pkt of PHelloResp h \<Rightarrow> Some h | _ \<Rightarrow> None)
       (List.map_filter accepted (fst (cut [] bs)))"

lemma probe_answers:
  "snd (probe_view bs) = (hello_resps bs \<noteq> [],
     hello_resps bs \<noteq> [] \<and> compatible (last (hello_resps bs)) \<and> hr_device (last (hello_resps bs)) = 1)"
proof -
  let ?f = "List.map_filter (\<lambda>pkt. case pkt of PHelloResp h \<Rightarrow> Some h | _ \<Rightarrow> None)"
  have fold: "fold (deliver probe_callbacks) pkts (a, b) = (a \<or> ?f pkts \<noteq> [],
      if ?f pkts = [] then b else compatible (last (?f pkts)) \<and> hr_device (last (?f pkts)) = 1)" for pkts a b
  proof (induction pkts arbitrary: a b)
    case (Cons pkt pkts)
    then show ?case by (cases pkt) (simp_all add: probe_callbacks_def call_def map_filter_simps)
  qed (simp add: map_filter_simps)
  obtain segs rest where c: "cut [] bs = (segs, rest)" by fastforce
  from feed_delivers [OF c, of probe_callbacks "(False, False)"] show ?thesis
    by (simp add: probe_view_def fold hello_resps_def c)
qed

subsection \<open>What a write hands to the system\<close>

lemma Some_pair: "x \<noteq> None \<Longrightarrow> fst (the x) = a \<Longrightarrow> x = Some (a, snd (the x))"
  by (cases x) auto

text \<open>\<open>sent\<close> is what the device has been given; a write call takes a prefix of its argument, or fails and takes nothing.\<close>

definition write_law :: "'w posix_ops \<Rightarrow> ('w \<Rightarrow> bytes) \<Rightarrow> bool" where
  "write_law P sent \<longleftrightarrow>
     (\<forall>fd data w. case px_write P fd data w of
        (None, w') \<Rightarrow> sent w' = sent w
      | (Some n, w') \<Rightarrow> n \<le> length data \<and> sent w' = sent w @ take n data)"

definition wrote :: "('w \<Rightarrow> bytes) \<Rightarrow> bytes \<Rightarrow> 'w serial \<Rightarrow> bool \<times> 'w serial \<Rightarrow> bool" where
  "wrote sent data s y \<longleftrightarrow>
     (\<exists>n. sent (sp_os (snd y)) = sent (sp_os s) @ take n data \<and> (fst y \<longrightarrow> length data \<le> n))"

lemma serial_write_loop_wrote:
  fixes P :: "'w posix_ops"
  assumes "write_law P sent" and "serial_write_loop P data s = Some y"
  shows "wrote sent data s y"
proof -
  let ?Q = "\<lambda>P' data (s :: 'w serial) y. P' = P \<longrightarrow> wrote sent data s y"
  have "?Q P data s y"
  proof (rule serial_write_loop.raw_induct [of ?Q, OF _ assms(2)])
    fix loop px data y and s :: "'w serial"
    assume IH: "\<And>px data s y. loop px data s = Some y \<Longrightarrow> ?Q px data s y"
      and run: "(if data = [] then Some (True, s) else case px_write px (sp_fd s) data (sp_os s) of (r, w) \<Rightarrow>
        let s = s\<lparr>sp_os := w\<rparr> in case r of
          None \<Rightarrow> if px_errno px w \<in> set RETRY_ERRNOS then loop px data s else Some (False, s)
        | Some n \<Rightarrow> loop px (drop n data) s) = Some y"
    show "?Q px data s y"
    proof
      assume "px = P"
      obtain r w where c: "px_write P (sp_fd s) data (sp_os s) = (r, w)" by fastforce
      let ?s = "s\<lparr>sp_os := w\<rparr>"
      have law: "case r of None \<Rightarrow> sent w = sent (sp_os s) | Some n \<Rightarrow> n \<le> length data \<and> sent w = sent (sp_os s) @ take n data"
        using assms(1) [unfolded write_law_def, rule_format, of "sp_os s" data "sp_fd s"] c by (cases r) auto
      show "wrote sent data s y"
      proof (cases "data = []")
        case True
        with run show ?thesis by (auto simp: wrote_def)
      next
        case False
        show ?thesis
        proof (cases r)
          case None
          with run c \<open>px = P\<close> False have "loop P data ?s = Some y \<or> y = (False, ?s)"
            by (simp add: Let_def split: if_splits)
          with IH [of P data ?s y] law None show ?thesis by (auto simp: wrote_def intro: exI [of _ 0])
        next
          case (Some n)
          with run c \<open>px = P\<close> False have "loop P (drop n data) ?s = Some y" by (simp add: Let_def)
          from IH [OF this] obtain m where "sent (sp_os (snd y)) = sent w @ take m (drop n data)"
            "fst y \<longrightarrow> length data - n \<le> m" by (auto simp: wrote_def)
          with law Some show ?thesis by (auto simp: wrote_def take_add intro!: exI [of _ "n + m"])
        qed
      qed
    qed
  qed
  then show ?thesis by simp
qed

text \<open>
  A POSIX write to a device that never takes another byte does not return: the loop retries for as long as the
  call fails with \<^verbatim>\<open>EAGAIN\<close>.
\<close>

lemma posix_write_can_hang:
  fixes P :: "'w posix_ops"
  assumes "\<And>fd data w. fst (px_write P fd data w) = None" and "\<And>w. px_errno P w = 11" and "data \<noteq> []"
  shows "serial_write_loop P data s = None"
proof (rule ccontr)
  assume "serial_write_loop P data s \<noteq> None"
  then obtain y where run: "serial_write_loop P data s = Some y" by auto
  let ?Q = "\<lambda>P' data (s :: 'w serial) (y :: bool \<times> 'w serial). P' = P \<longrightarrow> data = []"
  have "?Q P data s y"
  proof (rule serial_write_loop.raw_induct [of ?Q, OF _ run])
    fix loop px data y and s :: "'w serial"
    assume IH: "\<And>px data s y. loop px data s = Some y \<Longrightarrow> ?Q px data s y"
      and run: "(if data = [] then Some (True, s) else case px_write px (sp_fd s) data (sp_os s) of (r, w) \<Rightarrow>
        let s = s\<lparr>sp_os := w\<rparr> in case r of
          None \<Rightarrow> if px_errno px w \<in> set RETRY_ERRNOS then loop px data s else Some (False, s)
        | Some n \<Rightarrow> loop px (drop n data) s) = Some y"
    obtain r w where c: "px_write P (sp_fd s) data (sp_os s) = (r, w)" by fastforce
    with assms(1) have "r = None" by (metis fst_conv)
    with run c assms(2) IH [of P data _ y] show "?Q px data s y"
      by (auto simp: Let_def RETRY_ERRNOS_def split: if_splits)
  qed
  with assms(3) show False by simp
qed

subsection \<open>Sessions on a transport\<close>

datatype pipe_op = PRead nat int | PWrite bytes | PNow

text \<open>The chunks that the reads of a session return.\<close>

fun pipe_run :: "'t transport_ops \<Rightarrow> pipe_op list \<Rightarrow> 't \<Rightarrow> (bytes list \<times> 't) option" where
  "pipe_run T [] s = Some ([], s)"
| "pipe_run T (PRead cap tmo # ops) s =
     (case t_read T cap tmo s of
        None \<Rightarrow> None
      | Some (r, s) \<Rightarrow> map_option (\<lambda>(got, s). (case r of None \<Rightarrow> got | Some bs \<Rightarrow> bs # got, s)) (pipe_run T ops s))"
| "pipe_run T (PWrite data # ops) s = (case t_write T data s of None \<Rightarrow> None | Some (ok, s) \<Rightarrow> pipe_run T ops s)"
| "pipe_run T (PNow # ops) s = (case t_now T s of (t, s) \<Rightarrow> pipe_run T ops s)"

definition reads_ok :: "pipe_op list \<Rightarrow> bool" where
  "reads_ok ops \<longleftrightarrow> list_all (\<lambda>op. case op of PRead cap tmo \<Rightarrow> 0 < cap | _ \<Rightarrow> True) ops"








text \<open>
  It returns if the device stalls for only so long: each call on some data takes a byte, fails for good, or uses up some of a
  finite patience \<open>stall\<close>, which a byte taken may renew.
\<close>

definition takes_bytes :: "'w posix_ops \<Rightarrow> ('w \<Rightarrow> nat) \<Rightarrow> bool" where
  "takes_bytes P stall \<longleftrightarrow>
     (\<forall>fd data w. data \<noteq> [] \<longrightarrow> (case px_write P fd data w of
        (None, w') \<Rightarrow> px_errno P w' \<in> set RETRY_ERRNOS \<longrightarrow> stall w' < stall w
      | (Some n, w') \<Rightarrow> n = 0 \<longrightarrow> stall w' < stall w))"

lemma serial_write_returns:
  fixes P :: "'w posix_ops" and s :: "'w serial"
  assumes "takes_bytes P stall"
  shows "serial_write_loop P data s \<noteq> None"
proof (induction "(data, s)" arbitrary: data s
    rule: wf_induct_rule [OF wf_measures [of "[\<lambda>(data, s). length data, \<lambda>(data, s). stall (sp_os s)]"]])
  case (1 data s)
  obtain r w where c: "px_write P (sp_fd s) data (sp_os s) = (r, w)" by fastforce
  show ?case
  proof (cases "data = []")
    case False
    note law = assms [unfolded takes_bytes_def, rule_format, OF False, where fd = "sp_fd s" and w = "sp_os s", unfolded c prod.case]
    show ?thesis
    proof (cases r)
      case None
      with 1 [of data "s\<lparr>sp_os := w\<rparr>"] law c False show ?thesis by (subst serial_write_loop.simps) (auto simp: Let_def)
    next
      case (Some n)
      with 1 [of "drop n data" "s\<lparr>sp_os := w\<rparr>"] law c False show ?thesis
        by (subst serial_write_loop.simps) (cases n, auto simp: Let_def)
    qed
  qed (simp add: serial_write_loop.simps)
qed

context byte_source begin

lemma run_pending:
  assumes "pipe_run T ops s = Some (got, s')" and "keep s" and "reads_ok ops"
  shows "\<exists>more. pending s @ more = concat got @ pending s'"
  using assms
proof (induction T \<equiv> T ops s arbitrary: got s' rule: pipe_run.induct)
  case (2 cap tmo ops s)
  then obtain r s1 got1 where rd: "t_read T cap tmo s = Some (r, s1)"
    and rest: "pipe_run T ops s1 = Some (got1, s')" and got: "got = (case r of None \<Rightarrow> got1 | Some bs \<Rightarrow> bs # got1)"
    by (auto split: option.splits)
  have cap: "0 < cap" and cs: "reads_ok ops" using 2(4) by (simp_all add: reads_ok_def)
  from 2(1) [OF rd refl rest read_inv [OF 2(3) cap rd] cs] obtain m1 where m1: "pending s1 @ m1 = concat got1 @ pending s'" by blast
  show ?case
  proof (cases r)
    case None
    from dead_pending [OF 2(3) cap rd [unfolded None]] m1 None got show ?thesis by auto
  next
    case (Some bs)
    from read_pending [OF 2(3) cap rd [unfolded Some]] obtain m where m: "pending s @ m = bs @ pending s1" by blast
    have "pending s @ (m @ m1) = concat got @ pending s'" using m m1 Some got by (metis append.assoc concat.simps(2) option.simps(5))
    then show ?thesis by blast
  qed
next
  case (3 data ops s)
  then obtain ok s1 where w: "t_write T data s = Some (ok, s1)" and rest: "pipe_run T ops s1 = Some (got, s')"
    by (auto split: option.splits)
  have cs: "reads_ok ops" using 3(4) by (simp add: reads_ok_def)
  from 3(1) [OF w refl rest _ cs] write_inv [OF 3(3) w] write_pending [OF 3(3) w] show ?case by auto
next
  case (4 ops s)
  then obtain t s1 where w: "t_now T s = (t, s1)" and rest: "pipe_run T ops s1 = Some (got, s')"
    by (auto split: prod.splits)
  have cs: "reads_ok ops" using 4(4) by (simp add: reads_ok_def)
  from 4(1) [OF w [symmetric] rest _ cs] now_inv [OF 4(3) w] now_pending [OF 4(3) w] show ?case by auto
qed simp

end

subsection \<open>Properties\<close>

text \<open>C34. Discovery accepts nothing but a dongle that speaks this version: if the probe of a port succeeds, then the bytes
  that were read from the port during the probe (\<open>tee_seen\<close> of a recording tee around the transport) contain an
  accepted HELLO_RESP, and the last one in them carries the protocol version of the host and device kind 1.
  If it fails with the message that there was no answer, they contain no accepted HELLO_RESP at all.\<close>

theorem probe_accepts_only_dongles:
  assumes "probe_port (tee_ops D T) path n s = Some (r, s')"
  defines "resps \<equiv> hello_resps (tee_seen s')"
  shows "(r = None \<longrightarrow> resps \<noteq> [] \<and> hr_proto_ver (last resps) = HTK_PROTO_VERSION \<and> hr_device (last resps) = 1) \<and>
    (r = Some (''no HELLO_RESP from '' @ path) \<and> fst (t_open (tee_ops D T) path s) = None \<longrightarrow> resps = [])"
proof (cases "t_open (tee_ops D T) path s")
  case (Pair err s1)
  show ?thesis
  proof (cases err)
    case (Some e)
    with Pair assms(1) have "r = Some e" "fst (t_open (tee_ops D T) path s) \<noteq> None" by (auto simp: probe_port_def)
    then show ?thesis by blast
  next
    case None
    note k1 = tee_keeps_record(4) [OF Pair [unfolded None]]
    obtain now s2 where n: "t_now (tee_ops D T) s1 = (now, s2)" by fastforce
    note k2 = tee_keeps_record(1) [OF n]
    obtain x s3 where l: "probe_loop (tee_ops D T) path (now + word_of_int n) ((0, 0), (parser_init, (False, False))) s2 = Some (x, s3)"
      using assms(1) Pair None n by (auto simp: probe_port_def split: option.splits)
    have v0: "(parser_init, (False, False)) = probe_view (tee_seen s2)"
      using k1 k2 by (simp add: probe_view_def feed_def)
    show ?thesis
    proof (cases x)
      case (Inl e)
      from Inl assms(1) Pair None n l have "r = Some e" by (simp add: probe_port_def)
      moreover have "e \<noteq> ''no HELLO_RESP from '' @ path" using l Inl by (rule probe_loop_errors)
      ultimately show ?thesis by simp
    next
      case (Inr v)
      from probe_loop_view [OF l [unfolded Inr]] k1 k2 v0 have "v = snd (probe_view (tee_seen s3))" by simp
      with Inr assms(1) Pair None n l show ?thesis
        by (auto simp: probe_port_def resps_def probe_answers tee_keeps_record(5) compatible_def kProtocolVersion_def
            split: if_splits)
    qed
  qed
qed

text \<open>The witness: a port on which a dongle has already answered.\<close>

definition answering_port :: "(mem_transport, bytes \<times> bytes) tee" where
  "answering_port =
     \<lparr>tee_inner = \<lparr>impl = Some (mem_impl_new\<lparr>mem_in := [0, 3, 4, 1, 2, 1, 3, 1, 23, 3, 183, 129, 0]\<rparr>),
        mem_clock = \<lparr>reading = (\<lambda>n. of_nat n), calls_made = 0, slept = []\<rparr>, others = (\<lambda>_ i. i)\<rparr>,
      tee_rec = False, tee_path = ''rec'', tee_os = ([], []), tee_seen = []\<rparr>"

theorem probe_accepts_only_dongles_witness:
  "\<exists>s'. probe_port (tee_ops list_stdio mem_ops) ''p'' 300 answering_port = Some (None, s') \<and>
     hr_device (last (hello_resps (tee_seen s'))) = 1"
proof -
  let ?r = "probe_port (tee_ops list_stdio mem_ops) ''p'' 300 answering_port"
  have "?r \<noteq> None" "fst (the ?r) = None" by code_simp+
  then have run: "?r = Some (None, snd (the ?r))" by (metis option.collapse prod.collapse)
  from probe_accepts_only_dongles [OF run] run show ?thesis by blast
qed

text \<open>C35. A write to the serial port is all or an error: whatever the system takes per call and however often it asks to
  try again, the device has been given a prefix of the data, in order and without gaps, and all of it if the
  write returns true.\<close>

theorem serial_write_complete:
  assumes "write_law P sent" and "serial_write P data s = Some (ok, s')"
  shows "\<exists>n. sent (sp_os s') = sent (sp_os s) @ take n data \<and> (ok \<longrightarrow> length data \<le> n)"
proof (cases "sp_fd s < 0")
  case True
  with assms(2) show ?thesis by (auto simp: serial_write_def intro: exI [of _ 0])
next
  case False
  with assms(2) have "serial_write_loop P data s = Some (ok, s')" by (simp add: serial_write_def)
  from serial_write_loop_wrote [OF assms(1) this] show ?thesis by (simp add: wrote_def)
qed

text \<open>A system whose state is what it has been given and whether it is busy: every other call has to be repeated, and it
  takes at most two bytes at a time.\<close>

definition slow_port :: "(bytes \<times> bool) posix_ops" where
  "slow_port =
     \<lparr>px_open = (\<lambda>_ w. (3, w)), px_exclusive = (\<lambda>_ w. w), px_tcgetattr = (\<lambda>_ w. (None, w)), px_cfmakeraw = (\<lambda>t. t),
      px_tcsetattr = (\<lambda>_ _ w. (True, w)), px_tcflush = (\<lambda>_ w. w), px_close = (\<lambda>_ w. w), px_poll = (\<lambda>_ _ w. ((0, 0), w)),
      px_read = (\<lambda>_ _ w. (None, w)),
      px_write = (\<lambda>_ data (got, busy). if busy then (None, (got, False)) else (Some (min 2 (length data)), (got @ take 2 data, True))),
      px_errno = (\<lambda>_. 11), px_strerror = (\<lambda>_. []), px_now = (\<lambda>w. (0, w))\<rparr>"

theorem serial_write_complete_witness:
  "fst (sp_os (snd (the (serial_write slow_port [1, 2, 3, 4, 5] \<lparr>sp_fd = 3, sp_os = ([9], True)\<rparr>)))) = [9, 1, 2, 3, 4, 5]"
proof -
  let ?w = "serial_write slow_port [1, 2, 3, 4, 5] \<lparr>sp_fd = 3, sp_os = ([9], True)\<rparr>"
  have law: "write_law slow_port fst" by (auto simp: write_law_def slow_port_def min_def)
  have "?w \<noteq> None" and ok: "fst (the ?w) = True" by code_simp+
  then have "?w = Some (True, snd (the ?w))" by (rule Some_pair)
  from serial_write_complete [OF law this] obtain n where
    n: "fst (sp_os (snd (the ?w))) = fst (sp_os \<lparr>sp_fd = 3, sp_os = ([9 :: u8], True)\<rparr>) @ take n [1, 2, 3, 4, 5]"
      "length [1, 2, 3, 4, 5 :: u8] \<le> n" by blast
  from n(1) show ?thesis by (simp only: take_all [OF n(2)] serial.simps fst_conv append_Cons append_Nil)
qed


text \<open>The witness: the capture of a replay that has been read to its end is the replayed file.\<close>

definition no_pacing :: dbl_ops where
  "no_pacing = \<lparr>d_of_u64 = (\<lambda>x. x), d_mul = (\<lambda>x y. x), d_div = (\<lambda>x y. x), d_sub = (\<lambda>x y. x), d_less = (\<lambda>x y. False),
     d_le = (\<lambda>x y. False), d_trunc = (\<lambda>x. 0)\<rparr>"

definition replayed :: "(file_transport, bytes \<times> bytes) tee" where
  "replayed =
     \<lparr>tee_inner = \<lparr>ft_f = None, ft_owns = False, ft_bps = 0, ft_loop = False, ft_start_ms = 0, ft_delivered = 0, ft_eof = False,
        ft_stdin = ([], 0), ft_disk = (\<lambda>n. if n = ''a.bin'' then Some [1, 2, 3, 0, 5] else None),
        ft_clock = \<lparr>reading = (\<lambda>n. of_nat n), calls_made = 0, slept = []\<rparr>\<rparr>,
      tee_rec = False, tee_path = ''rec'', tee_os = ([9, 9], []), tee_seen = []\<rparr>"


text \<open>Reopening truncates: when the client reconnects after an unplug, it opens the same tee again, and the record
  file is emptied: everything captured before the unplug is lost.\<close>

lemma capture_lost_on_reopen:
  "let T = tee_ops list_stdio (file_ops no_pacing); s = snd (t_open T ''a.bin'' replayed);
       s = snd (the (pipe_run T [PRead 4 20] s)); s2 = snd (t_open T ''a.bin'' (t_close T s))
   in fst (tee_os s) = [1, 2, 3, 0] \<and> fst (tee_os s2) = []"
  by code_simp

end
