(* ===== verification/Client.thy ===== *)
theory Client
  imports Transport
begin

text \<open>
  The session with a dongle, \<^verbatim>\<open>host/libheadtracker/src/client.cpp\<close> and \<^verbatim>\<open>client.hpp\<close>: opening a port, the handshake,
  the reader thread with its reconnects and watchdog, the list of trackers and the commands.

  The object is the record \<open>client\<close>. Its transport is any \<open>transport_ops\<close>. What other code decides is a component
  too: \<open>cl_quit n\<close> is what the \<open>n\<close>-th load of the flag \<^verbatim>\<open>quit_\<close> gives (another thread sets it), \<open>cl_sys\<close> is the
  state in which \<open>search\<close>, which is \<open>find_dongle\<close> on the ports of the machine, runs, and \<open>cl_user\<close> is what the application's callbacks change.
  A further option around a result stands for a call that never returns.
\<close>

subsection \<open>State\<close>

datatype conn_state = Closed | Opening | Handshaking | Ready | Incompatible | Lost

definition to_string :: "conn_state \<Rightarrow> string" where
  "to_string s =
     (case s of
        Closed \<Rightarrow> ''closed'' | Opening \<Rightarrow> ''opening'' | Handshaking \<Rightarrow> ''handshaking'' | Ready \<Rightarrow> ''ready''
      | Incompatible \<Rightarrow> ''incompatible'' | Lost \<Rightarrow> ''lost'')"

text \<open>The states can be enumerated, so that statements about all of them are evaluated; no two have the same name.\<close>

instantiation conn_state :: enum
begin

definition "enum_conn_state = [Closed, Opening, Handshaking, Ready, Incompatible, Lost]"
definition "enum_all_conn_state P \<longleftrightarrow> list_all P [Closed, Opening, Handshaking, Ready, Incompatible, Lost]"
definition "enum_ex_conn_state P \<longleftrightarrow> list_ex P [Closed, Opening, Handshaking, Ready, Incompatible, Lost]"

instance
proof
  show univ: "(UNIV :: conn_state set) = set enum_class.enum" unfolding enum_conn_state_def using conn_state.exhaust by auto
  show "distinct (enum_class.enum :: conn_state list)" by (simp add: enum_conn_state_def)
  show "enum_class.enum_all P \<longleftrightarrow> Ball (UNIV :: conn_state set) P" for P
    by (auto simp: enum_all_conn_state_def univ enum_conn_state_def)
  show "enum_class.enum_ex P \<longleftrightarrow> Bex (UNIV :: conn_state set) P" for P
    by (auto simp: enum_ex_conn_state_def univ enum_conn_state_def)
qed

end

lemma to_string_inj: "to_string s = to_string t \<Longrightarrow> s = t"
proof -
  have "\<forall>s t. to_string s = to_string t \<longrightarrow> s = t" by code_simp
  then show "to_string s = to_string t \<Longrightarrow> s = t" by blast
qed

record device_info =
  di_proto_ver :: u8
  di_fw_major :: u8
  di_fw_minor :: u8
  di_fw_patch :: u8
  di_device :: u8
  di_caps :: u16
  di_port :: string

record tracker_info =
  ti_id :: u16
  ti_age_ms :: u32
  ti_rate :: u16
  ti_seq_lost :: u32
  ti_vbat_mV :: u16
  ti_fw_major :: u8
  ti_fw_minor :: u8
  ti_fw_patch :: u8
  ti_mode :: u8
  ti_link_up :: bool
  ti_sim :: bool
  ti_last_seen_ms :: u64
  ti_orient_count :: u32

record client_options =
  auto_reconnect :: bool
  reconnect_ms :: int
  reconnect_max_ms :: int
  read_timeout_ms :: int
  no_data_watchdog_ms :: int
  tracker_expiry_ms :: int
  promote_after_orients :: u32

definition default_options :: client_options where
  "default_options = \<lparr>auto_reconnect = True, reconnect_ms = 1000, reconnect_max_ms = 5000, read_timeout_ms = 20,
     no_data_watchdog_ms = 2000, tracker_expiry_ms = 30000, promote_after_orients = 3\<rparr>"

record 'u client_callbacks =
  cb_orient :: "(htk_orient \<Rightarrow> 'u \<Rightarrow> 'u) option"
  cb_trackers :: "(tracker_info list \<Rightarrow> 'u \<Rightarrow> 'u) option"
  cb_state :: "(conn_state \<times> string \<Rightarrow> 'u \<Rightarrow> 'u) option"
  cb_log :: "(bytes \<Rightarrow> 'u \<Rightarrow> 'u) option"

record ('t, 'x, 'u) client =
  cl_transport :: 't
  cl_sys :: 'x
  cl_quit :: "nat \<Rightarrow> bool"
  cl_quit_loads :: nat
  cl_naps :: "int list"
  cl_target :: string
  cl_opts :: client_options
  cl_running :: bool
  cl_state :: conn_state
  cl_parser :: parser
  cl_device :: device_info
  cl_trackers :: "tracker_info list"
  cl_last_error :: string
  cl_stats :: parser_stats
  cl_user :: 'u

definition device_info_zero :: device_info where
  "device_info_zero = \<lparr>di_proto_ver = 0, di_fw_major = 0, di_fw_minor = 0, di_fw_patch = 0, di_device = 0, di_caps = 0,
     di_port = []\<rparr>"

definition fresh_tracker_info :: "u16 \<Rightarrow> tracker_info" where
  "fresh_tracker_info tid = \<lparr>ti_id = tid, ti_age_ms = 0, ti_rate = 0, ti_seq_lost = 0, ti_vbat_mV = 0, ti_fw_major = 0,
     ti_fw_minor = 0, ti_fw_patch = 0, ti_mode = 0, ti_link_up = False, ti_sim = False, ti_last_seen_ms = 0,
     ti_orient_count = 0\<rparr>"

definition client_new :: "'t \<Rightarrow> 'x \<Rightarrow> (nat \<Rightarrow> bool) \<Rightarrow> 'u \<Rightarrow> ('t, 'x, 'u) client" where
  "client_new t x quit u = \<lparr>cl_transport = t, cl_sys = x, cl_quit = quit, cl_quit_loads = 0, cl_naps = [], cl_target = [],
     cl_opts = default_options, cl_running = False, cl_state = Closed, cl_parser = parser_init,
     cl_device = device_info_zero, cl_trackers = [], cl_last_error = [], cl_stats = stats parser_init, cl_user = u\<rparr>"

subsection \<open>The surroundings\<close>

definition client_now :: "'t transport_ops \<Rightarrow> ('t, 'x, 'u) client \<Rightarrow> u64 \<times> ('t, 'x, 'u) client" where
  "client_now T c = (case t_now T (cl_transport c) of (t, s) \<Rightarrow> (t, c\<lparr>cl_transport := s\<rparr>))"

definition load_quit :: "('t, 'x, 'u) client \<Rightarrow> bool \<times> ('t, 'x, 'u) client" where
  "load_quit c = (cl_quit c (cl_quit_loads c), c\<lparr>cl_quit_loads := cl_quit_loads c + 1\<rparr>)"

subsection \<open>State changes and writes\<close>

definition set_state ::
  "'u client_callbacks \<Rightarrow> conn_state \<Rightarrow> string \<Rightarrow> ('t, 'x, 'u) client \<Rightarrow> ('t, 'x, 'u) client" where
  "set_state U s detail c =
     (let prev = cl_state c; c = c\<lparr>cl_state := s\<rparr>;
          c = (if detail \<noteq> [] then c\<lparr>cl_last_error := detail\<rparr> else c) in
      if prev \<noteq> s then c\<lparr>cl_user := call (cb_state U) (s, detail) (cl_user c)\<rparr> else c)"

definition write_frame :: "'t transport_ops \<Rightarrow> bytes \<Rightarrow> ('t, 'x, 'u) client \<Rightarrow> (bool \<times> ('t, 'x, 'u) client) option" where
  "write_frame T frame c =
     (if frame = [] then Some (False, c)
      else if \<not> t_is_open T (cl_transport c) then Some (False, c)
      else map_option (\<lambda>(ok, s). (ok, c\<lparr>cl_transport := s\<rparr>)) (t_write T frame (cl_transport c)))"

definition client_command :: "'t transport_ops \<Rightarrow> command \<Rightarrow> ('t, 'x, 'u) client \<Rightarrow> (bool \<times> ('t, 'x, 'u) client) option" where
  "client_command T cmd = write_frame T (encode_command cmd)"

subsection \<open>The list of trackers\<close>

text \<open>\<^verbatim>\<open>find_if\<close> by id, an element pushed at the end when there is none, and the update of the element found.\<close>

definition ensure_tracker :: "tracker_info \<Rightarrow> tracker_info list \<Rightarrow> tracker_info list" where
  "ensure_tracker fresh ts = (if list_ex (\<lambda>t. ti_id t = ti_id fresh) ts then ts else ts @ [fresh])"

fun update_tracker :: "u16 \<Rightarrow> (tracker_info \<Rightarrow> tracker_info) \<Rightarrow> tracker_info list \<Rightarrow> tracker_info list" where
  "update_tracker tid f [] = []"
| "update_tracker tid f (t # ts) = (if ti_id t = tid then f t # ts else t # update_tracker tid f ts)"

definition stat_entry :: "htk_tracker_stat \<Rightarrow> u64 \<Rightarrow> tracker_info \<Rightarrow> tracker_info" where
  "stat_entry s now t =
     (let t = t\<lparr>ti_age_ms := ts_age_ms s, ti_rate := ts_rate s, ti_seq_lost := ts_seq_lost s, ti_vbat_mV := ts_vbat_mV s,
        ti_fw_major := ts_fw_major s, ti_fw_minor := ts_fw_minor s, ti_fw_patch := ts_fw_patch s, ti_mode := ts_mode s,
        ti_link_up := (ts_flags s AND kKnownTstatFlags AND HTK_TSTAT_LINK_UP \<noteq> 0), ti_last_seen_ms := now\<rparr> in
      if ti_orient_count t < 0xFFFFFFFF then t\<lparr>ti_orient_count := 0xFFFFFFFF\<rparr> else t)"

definition orient_entry :: "bool \<Rightarrow> u64 \<Rightarrow> tracker_info \<Rightarrow> tracker_info" where
  "orient_entry sim now t =
     (let t = t\<lparr>ti_sim := sim, ti_last_seen_ms := now\<rparr> in
      if ti_orient_count t < 0xFFFFFFFF then t\<lparr>ti_orient_count := ti_orient_count t + 1\<rparr> else t)"

definition note_tracker_stat :: "'t transport_ops \<Rightarrow> htk_tracker_stat \<Rightarrow> ('t, 'x, 'u) client \<Rightarrow> ('t, 'x, 'u) client" where
  "note_tracker_stat T s c =
     (case client_now T c of (now, c) \<Rightarrow>
        c\<lparr>cl_trackers := update_tracker (ts_id s) (stat_entry s now)
            (ensure_tracker (fresh_tracker_info (ts_id s)) (cl_trackers c))\<rparr>)"

definition note_orient_id :: "'t transport_ops \<Rightarrow> u16 \<Rightarrow> bool \<Rightarrow> ('t, 'x, 'u) client \<Rightarrow> ('t, 'x, 'u) client" where
  "note_orient_id T tid sim c =
     (case client_now T c of (now, c) \<Rightarrow>
        c\<lparr>cl_trackers := update_tracker tid (orient_entry sim now)
            (ensure_tracker ((fresh_tracker_info tid)\<lparr>ti_sim := sim\<rparr>) (cl_trackers c))\<rparr>)"

definition visible_trackers :: "client_options \<Rightarrow> tracker_info list \<Rightarrow> tracker_info list" where
  "visible_trackers opts ts = filter (\<lambda>t. ti_orient_count t \<ge> promote_after_orients opts) ts"

definition client_trackers :: "('t, 'x, 'u) client \<Rightarrow> tracker_info list" where
  "client_trackers c = visible_trackers (cl_opts c) (cl_trackers c)"

text \<open>What other threads read under the lock.\<close>

definition client_last_error :: "('t, 'x, 'u) client \<Rightarrow> string" where
  "client_last_error c = cl_last_error c"

definition client_device :: "('t, 'x, 'u) client \<Rightarrow> device_info" where
  "client_device c = cl_device c"

definition client_parser_stats :: "('t, 'x, 'u) client \<Rightarrow> parser_stats" where
  "client_parser_stats c = cl_stats c"

definition expire_trackers :: "client_options \<Rightarrow> u64 \<Rightarrow> tracker_info list \<Rightarrow> tracker_info list" where
  "expire_trackers opts now ts =
     filter (\<lambda>t. \<not> now - ti_last_seen_ms t > word_of_int (tracker_expiry_ms opts)) ts"

definition expire_and_publish ::
  "'t transport_ops \<Rightarrow> 'u client_callbacks \<Rightarrow> bool \<Rightarrow> ('t, 'x, 'u) client \<Rightarrow> ('t, 'x, 'u) client" where
  "expire_and_publish T U force c =
     (case client_now T c of (now, c) \<Rightarrow>
        let before = length (cl_trackers c); c = c\<lparr>cl_trackers := expire_trackers (cl_opts c) now (cl_trackers c)\<rparr>;
            changed = (length (cl_trackers c) \<noteq> before); visible = visible_trackers (cl_opts c) (cl_trackers c) in
        if changed \<or> force then c\<lparr>cl_user := call (cb_trackers U) visible (cl_user c)\<rparr> else c)"

subsection \<open>Parser callbacks\<close>

text \<open>The local variables of \<^verbatim>\<open>handshake\<close> that its callback changes; the rest of the environment is the client.\<close>

record hello_vars =
  hv_answered :: bool
  hv_ok :: bool
  hv_resp :: htk_hello_resp

definition hello_vars_init :: hello_vars where
  "hello_vars_init = \<lparr>hv_answered = False, hv_ok = False, hv_resp = \<lparr>hr_type = 0, hr_proto_ver = 0, hr_fw_major = 0,
     hr_fw_minor = 0, hr_fw_patch = 0, hr_device = 0, hr_caps = 0\<rparr>\<rparr>"

definition client_on_orient ::
  "'t transport_ops \<Rightarrow> 'u client_callbacks \<Rightarrow> htk_orient \<Rightarrow> ('t, 'x, 'u) client \<Rightarrow> ('t, 'x, 'u) client" where
  "client_on_orient T U o' c =
     (let c = note_orient_id T (or_id o') (or_flags o' AND kKnownOrientFlags AND HTK_ORIENT_SIM \<noteq> 0) c in
      c\<lparr>cl_user := call (cb_orient U) o' (cl_user c)\<rparr>)"

definition run_callbacks ::
  "'t transport_ops \<Rightarrow> 'u client_callbacks \<Rightarrow> (('t, 'x, 'u) client \<times> hello_vars) parser_callbacks" where
  "run_callbacks T U =
     \<lparr>on_orient = Some (\<lambda>p (c, h). (client_on_orient T U p c, h)), on_status = None,
      on_tracker_stat = Some (\<lambda>t (c, h). (note_tracker_stat T t c, h)), on_raw = None, on_hello_resp = None,
      on_log = Some (\<lambda>s (c, h). (c\<lparr>cl_user := call (cb_log U) s (cl_user c)\<rparr>, h))\<rparr>"

definition handshake_callbacks ::
  "'t transport_ops \<Rightarrow> 'u client_callbacks \<Rightarrow> (('t, 'x, 'u) client \<times> hello_vars) parser_callbacks" where
  "handshake_callbacks T U =
     (run_callbacks T U)\<lparr>on_hello_resp := Some (\<lambda>h (c, _). (c, \<lparr>hv_answered = True, hv_ok = compatible h, hv_resp = h\<rparr>))\<rparr>"

definition client_feed ::
  "(('t, 'x, 'u) client \<times> hello_vars) parser_callbacks \<Rightarrow> bytes \<Rightarrow> ('t, 'x, 'u) client \<times> hello_vars \<Rightarrow>
   ('t, 'x, 'u) client \<times> hello_vars" where
  "client_feed cbs bs x =
     (case feed cbs bs (cl_parser (fst x), x) of (p, (c, h)) \<Rightarrow> (c\<lparr>cl_parser := p\<rparr>, h))"

subsection \<open>Opening and handshake\<close>

definition open_once ::
  "'t transport_ops \<Rightarrow> ('x \<Rightarrow> (string \<times> 'x) option) \<Rightarrow> ('t, 'x, 'u) client \<Rightarrow> (string option \<times> ('t, 'x, 'u) client) option" where
  "open_once T search c =
     (case (if cl_target c = [] then search (cl_sys c) else Some (cl_target c, cl_sys c)) of
        None \<Rightarrow> None
      | Some (path, x) \<Rightarrow>
          (let c = c\<lparr>cl_sys := x\<rparr> in
           if path = [] then Some (Some ''no head-tracker dongle found on any serial port'', c)
           else
             (case t_open T path (cl_transport c) of
                (Some err, s) \<Rightarrow> Some (Some err, c\<lparr>cl_transport := s\<rparr>)
              | (None, s) \<Rightarrow>
                  Some (None, c\<lparr>cl_transport := s, cl_device := device_info_zero\<lparr>di_port := path\<rparr>,
                    cl_parser := parser_reset (cl_parser c)\<rparr>))))"

text \<open>One turn of the handshake loop; its end is \<open>Inl\<close> an error or \<open>Inr\<close> the variables.\<close>

type_synonym hello_state = "(u64 \<times> nat) \<times> hello_vars"

datatype turn_end = Failed string | Answered hello_vars

definition client_hello ::
  "'t transport_ops \<Rightarrow> u64 \<times> nat \<Rightarrow> ('t, 'x, 'u) client \<Rightarrow> (bool \<times> (u64 \<times> nat) \<times> ('t, 'x, 'u) client) option" where
  "client_hello T h c = (case h of (next_hello, sent) \<Rightarrow>
     case client_now T c of (now, c) \<Rightarrow>
       if now \<ge> next_hello \<and> sent < 3 then
         (case write_frame T encode_hello c of
            None \<Rightarrow> None
          | Some (ok, c) \<Rightarrow>
              if \<not> ok then Some (False, h, c)
              else (case client_now T c of (now, c) \<Rightarrow> Some (True, (now + 100, sent + 1), c)))
       else Some (True, h, c))"

text \<open>\<^verbatim>\<open>now_ms() < deadline && !answered && !quit_\<close>, from left to right.\<close>

definition hello_goes_on :: "'t transport_ops \<Rightarrow> u64 \<Rightarrow> hello_vars \<Rightarrow> ('t, 'x, 'u) client \<Rightarrow> bool \<times> ('t, 'x, 'u) client" where
  "hello_goes_on T deadline v c =
     (case client_now T c of (now, c) \<Rightarrow>
        if \<not> now < deadline \<or> hv_answered v then (False, c)
        else (case load_quit c of (q, c) \<Rightarrow> (\<not> q, c)))"

definition handshake_turn ::
  "'t transport_ops \<Rightarrow> 'u client_callbacks \<Rightarrow> u64 \<Rightarrow> hello_state \<Rightarrow> ('t, 'x, 'u) client \<Rightarrow>
   ((turn_end + hello_state) \<times> ('t, 'x, 'u) client) option" where
  "handshake_turn T U deadline x c = (case x of (h, v) \<Rightarrow>
     case hello_goes_on T deadline v c of (go, c) \<Rightarrow>
       if \<not> go then Some (Inl (Answered v), c)
       else
         (case client_hello T h c of
            None \<Rightarrow> None
          | Some (ok, h, c) \<Rightarrow>
              if \<not> ok then Some (Inl (Failed ''could not send HELLO''), c)
              else
                (case t_read T 512 (read_timeout_ms (cl_opts c)) (cl_transport c) of
                   None \<Rightarrow> None
                 | Some (None, s) \<Rightarrow> Some (Inl (Failed ''port closed during handshake''), c\<lparr>cl_transport := s\<rparr>)
                 | Some (Some bs, s) \<Rightarrow>
                     (case client_feed (handshake_callbacks T U) bs (c\<lparr>cl_transport := s\<rparr>, v) of (c, v) \<Rightarrow>
                        Some (Inr (h, v), c)))))"

partial_function (option) handshake_loop ::
  "'t transport_ops \<Rightarrow> 'u client_callbacks \<Rightarrow> u64 \<Rightarrow> hello_state \<Rightarrow> ('t, 'x, 'u) client \<Rightarrow>
   (turn_end \<times> ('t, 'x, 'u) client) option" where
  "handshake_loop T U deadline st c =
     (case handshake_turn T U deadline st c of
        None \<Rightarrow> None
      | Some (r, c) \<Rightarrow> (case r of Inl e \<Rightarrow> Some (e, c) | Inr st \<Rightarrow> handshake_loop T U deadline st c))"

definition known_caps :: u16 where
  "known_caps = HTK_CAP_QUAT OR HTK_CAP_RAW OR HTK_CAP_SIM OR HTK_CAP_HW_FUSION OR HTK_CAP_MULTI"

definition note_device :: "htk_hello_resp \<Rightarrow> device_info \<Rightarrow> device_info" where
  "note_device r d = d\<lparr>di_proto_ver := hr_proto_ver r, di_fw_major := hr_fw_major r, di_fw_minor := hr_fw_minor r,
     di_fw_patch := hr_fw_patch r, di_device := hr_device r, di_caps := hr_caps r AND known_caps\<rparr>"

definition version_error :: "htk_hello_resp \<Rightarrow> string" where
  "version_error r = ''dongle speaks protocol v'' @ dec_string (unat (hr_proto_ver r)) @ '', this build implements v'' @
     dec_string (unat kProtocolVersion)"

definition handshake ::
  "'t transport_ops \<Rightarrow> 'u client_callbacks \<Rightarrow> ('t, 'x, 'u) client \<Rightarrow> (string option \<times> ('t, 'x, 'u) client) option" where
  "handshake T U c =
     (case client_now T c of (now, c) \<Rightarrow>
        (case handshake_loop T U (now + 500) ((0, 0), hello_vars_init) c of
           None \<Rightarrow> None
         | Some (Failed err, c) \<Rightarrow> Some (Some err, c)
         | Some (Answered v, c) \<Rightarrow>
             Some (if \<not> hv_answered v then (Some ''no HELLO_RESP (is this the right port?)'', c)
               else
                 (let c = c\<lparr>cl_device := note_device (hv_resp v) (cl_device c)\<rparr> in
                  if \<not> hv_ok v then (Some (version_error (hv_resp v)), c) else (None, c)))))"

subsection \<open>The reader thread\<close>

text \<open>The sleep between two attempts, in slices; \<open>cl_naps\<close> lists the slices slept.\<close>

function nap :: "int \<Rightarrow> int \<Rightarrow> ('t, 'x, 'u) client \<Rightarrow> ('t, 'x, 'u) client" where
  "nap backoff passed c =
     (if \<not> passed < backoff then c
      else (case load_quit c of (q, c) \<Rightarrow>
        if q then c else nap backoff (passed + 50) (c\<lparr>cl_naps := cl_naps c @ [50]\<rparr>)))"
  by pat_completeness auto
termination by (relation "measure (\<lambda>(backoff, passed, c). nat (backoff - passed))") auto

declare nap.simps [simp del]

definition stream_data ::
  "'t transport_ops \<Rightarrow> 'u client_callbacks \<Rightarrow> bytes \<Rightarrow> u64 \<Rightarrow> ('t, 'x, 'u) client \<Rightarrow> bool \<times> u64 \<times> ('t, 'x, 'u) client" where
  "stream_data T U bs last_data c =
     (if bs \<noteq> [] then
        (case client_feed (run_callbacks T U) bs (c, hello_vars_init) of (c, _) \<Rightarrow>
         case client_now T c of (now, c) \<Rightarrow> (False, now, c\<lparr>cl_stats := stats (cl_parser c)\<rparr>))
      else if no_data_watchdog_ms (cl_opts c) > 0 then
        (case client_now T c of (now, c) \<Rightarrow>
           (now - last_data > word_of_int (no_data_watchdog_ms (cl_opts c)), last_data, c))
      else (False, last_data, c))"

definition stream_sweep ::
  "'t transport_ops \<Rightarrow> 'u client_callbacks \<Rightarrow> u64 \<Rightarrow> ('t, 'x, 'u) client \<Rightarrow> u64 \<times> ('t, 'x, 'u) client" where
  "stream_sweep T U last_sweep c =
     (case client_now T c of (now, c) \<Rightarrow>
        if now - last_sweep \<ge> 1000 then
          (case client_now T c of (now, c) \<Rightarrow> (now, expire_and_publish T U True c))
        else (last_sweep, c))"

text \<open>A turn of the loop that reads from a dongle that is ready; it ends with an error, empty if the thread is to quit.\<close>

definition stream_turn ::
  "'t transport_ops \<Rightarrow> 'u client_callbacks \<Rightarrow> u64 \<times> u64 \<Rightarrow> ('t, 'x, 'u) client \<Rightarrow>
   ((string + u64 \<times> u64) \<times> ('t, 'x, 'u) client) option" where
  "stream_turn T U v c = (case v of (last_data, last_sweep) \<Rightarrow>
     case load_quit c of (q, c) \<Rightarrow>
       if q then Some (Inl [], c)
       else
         (case t_read T 512 (read_timeout_ms (cl_opts c)) (cl_transport c) of
            None \<Rightarrow> None
          | Some (None, s) \<Rightarrow> Some (Inl ''port closed'', c\<lparr>cl_transport := s\<rparr>)
          | Some (Some bs, s) \<Rightarrow>
              (case stream_data T U bs last_data (c\<lparr>cl_transport := s\<rparr>) of (dead, last_data, c) \<Rightarrow>
                 if dead then Some (Inl ''no data from the dongle'', c)
                 else (case stream_sweep T U last_sweep c of (last_sweep, c) \<Rightarrow> Some (Inr (last_data, last_sweep), c)))))"

partial_function (option) stream_loop ::
  "'t transport_ops \<Rightarrow> 'u client_callbacks \<Rightarrow> u64 \<times> u64 \<Rightarrow> ('t, 'x, 'u) client \<Rightarrow> (string \<times> ('t, 'x, 'u) client) option" where
  "stream_loop T U v c =
     (case stream_turn T U v c of
        None \<Rightarrow> None
      | Some (r, c) \<Rightarrow> (case r of Inl err \<Rightarrow> Some (err, c) | Inr v \<Rightarrow> stream_loop T U v c))"

text \<open>Everything from Ready to the close of the port.\<close>

definition stream ::
  "'t transport_ops \<Rightarrow> 'u client_callbacks \<Rightarrow> ('t, 'x, 'u) client \<Rightarrow> (string \<times> ('t, 'x, 'u) client) option" where
  "stream T U c =
     (case client_command T GetStats (set_state U Ready [] c) of
        None \<Rightarrow> None
      | Some (_, c) \<Rightarrow>
          (case client_now T c of (last_data, c) \<Rightarrow> case client_now T c of (last_sweep, c) \<Rightarrow>
             map_option (\<lambda>(err, c). (err, c\<lparr>cl_transport := t_close T (cl_transport c)\<rparr>))
               (stream_loop T U (last_data, last_sweep) c)))"

text \<open>What follows a failed attempt: \<open>None\<close> is the \<^verbatim>\<open>break\<close> out of the loop, \<open>Some b\<close> its next turn with back-off \<open>b\<close>.\<close>

definition retry :: "int \<Rightarrow> ('t, 'x, 'u) client \<Rightarrow> int option \<times> ('t, 'x, 'u) client" where
  "retry backoff c = (Some (min (backoff * 2) (reconnect_max_ms (cl_opts c))), nap backoff 0 c)"

definition run_turn ::
  "'t transport_ops \<Rightarrow> 'u client_callbacks \<Rightarrow> ('x \<Rightarrow> (string \<times> 'x) option) \<Rightarrow> int \<Rightarrow> ('t, 'x, 'u) client \<Rightarrow>
   (int option \<times> ('t, 'x, 'u) client) option" where
  "run_turn T U search backoff c =
     (case open_once T search (set_state U Opening [] c) of
        None \<Rightarrow> None
      | Some (Some err, c) \<Rightarrow>
          (let c = set_state U Lost err c in
           Some (if \<not> auto_reconnect (cl_opts c) then (None, c) else retry backoff c))
      | Some (None, c) \<Rightarrow>
          (case handshake T U (set_state U Handshaking [] c) of
             None \<Rightarrow> None
           | Some (Some err, c) \<Rightarrow>
               (let incompatible = find_sub ''protocol v'' err; c = c\<lparr>cl_transport := t_close T (cl_transport c)\<rparr>;
                    c = set_state U (if incompatible then Incompatible else Lost) err c in
                Some (if incompatible \<or> \<not> auto_reconnect (cl_opts c) then (None, c) else retry backoff c))
           | Some (None, c) \<Rightarrow>
               (case stream T U c of
                  None \<Rightarrow> None
                | Some (err, c) \<Rightarrow>
                    (case load_quit c of (q, c) \<Rightarrow>
                       let c = (if \<not> q then set_state U Lost err c else c) in
                       Some (if \<not> q \<and> \<not> auto_reconnect (cl_opts c) then None else Some (reconnect_ms (cl_opts c)), c)))))"

partial_function (option) run_loop ::
  "'t transport_ops \<Rightarrow> 'u client_callbacks \<Rightarrow> ('x \<Rightarrow> (string \<times> 'x) option) \<Rightarrow> int \<Rightarrow> ('t, 'x, 'u) client \<Rightarrow>
   ('t, 'x, 'u) client option" where
  "run_loop T U search backoff c =
     (case load_quit c of (q, c) \<Rightarrow>
        if q then Some c
        else (case run_turn T U search backoff c of
                None \<Rightarrow> None
              | Some (b, c) \<Rightarrow> (case b of None \<Rightarrow> Some c | Some backoff \<Rightarrow> run_loop T U search backoff c)))"

definition client_run ::
  "'t transport_ops \<Rightarrow> 'u client_callbacks \<Rightarrow> ('x \<Rightarrow> (string \<times> 'x) option) \<Rightarrow> ('t, 'x, 'u) client \<Rightarrow>
   ('t, 'x, 'u) client option" where
  "client_run T U search c =
     map_option (\<lambda>c. c\<lparr>cl_running := False\<rparr>) (run_loop T U search (reconnect_ms (cl_opts c)) c)"

text \<open>
  Start and stop. \<open>quit\<close> is what the loads of the flag will give from the store of false on; the thread that
  \<^verbatim>\<open>start\<close> creates is \<open>client_run\<close>, and \<open>client_stop\<close> is \<^verbatim>\<open>stop\<close> from the join of that thread on.
\<close>

definition client_start ::
  "'t \<Rightarrow> string \<Rightarrow> client_options \<Rightarrow> (nat \<Rightarrow> bool) \<Rightarrow> ('t, 'x, 'u) client \<Rightarrow> bool \<times> ('t, 'x, 'u) client" where
  "client_start t target opts quit c =
     (if cl_running c then (False, c)
      else (True, c\<lparr>cl_transport := t, cl_target := target, cl_opts := opts, cl_quit := quit, cl_quit_loads := 0,
        cl_running := True\<rparr>))"

definition client_stop :: "'t transport_ops \<Rightarrow> 'u client_callbacks \<Rightarrow> ('t, 'x, 'u) client \<Rightarrow> ('t, 'x, 'u) client" where
  "client_stop T U c =
     (let c = c\<lparr>cl_running := False\<rparr>; c = c\<lparr>cl_transport := t_close T (cl_transport c)\<rparr> in set_state U Closed [] c)"

declare handshake_loop.simps [code] stream_loop.simps [code] run_loop.simps [code]

subsection \<open>Delivery to the session\<close>

lemma deliver_run:
  "deliver (run_callbacks T U) pkt (c, h) =
    (case pkt of
       POrient p \<Rightarrow> client_on_orient T U p c
     | PTrackerStat p \<Rightarrow> note_tracker_stat T p c
     | PLog txt \<Rightarrow> c\<lparr>cl_user := call (cb_log U) txt (cl_user c)\<rparr>
     | _ \<Rightarrow> c, h)"
  by (cases pkt) (simp_all add: run_callbacks_def call_def)

lemma deliver_handshake:
  "deliver (handshake_callbacks T U) pkt (c, h) =
    (case pkt of
       PHelloResp r \<Rightarrow> (c, \<lparr>hv_answered = True, hv_ok = compatible r, hv_resp = r\<rparr>)
     | _ \<Rightarrow> deliver (run_callbacks T U) pkt (c, h))"
  by (cases pkt) (simp_all add: run_callbacks_def handshake_callbacks_def call_def)

subsection \<open>The answer to HELLO\<close>

definition hello_only :: "hello_vars parser_callbacks" where
  "hello_only = \<lparr>on_orient = None, on_status = None, on_tracker_stat = None, on_raw = None,
     on_hello_resp = Some (\<lambda>r _. \<lparr>hv_answered = True, hv_ok = compatible r, hv_resp = r\<rparr>), on_log = None\<rparr>"

lemma deliver_hello_only:
  "snd (deliver (handshake_callbacks T U) pkt e) = deliver hello_only pkt (snd e)"
  by (cases e; cases pkt)
    (simp_all add: handshake_callbacks_def run_callbacks_def hello_only_def call_def split: prod.split)

lemma client_feed_hello:
  assumes "client_feed (handshake_callbacks T U) bs (c, v) = (c', v')"
  shows "(cl_parser c', v') = feed hello_only bs (cl_parser c, v)"
  using assms feed_commutes [of snd "handshake_callbacks T U" hello_only, OF deliver_hello_only, of bs "(cl_parser c, (c, v))"]
  by (auto simp: client_feed_def split: prod.splits)

lemma hello_only_answers:
  assumes "buf p = []" and "\<not> discarding p"
  shows "snd (feed hello_only bs (p, v)) =
    (if hello_resps bs = [] then v
     else \<lparr>hv_answered = True, hv_ok = compatible (last (hello_resps bs)), hv_resp = last (hello_resps bs)\<rparr>)"
proof -
  let ?f = "List.map_filter (\<lambda>pkt. case pkt of PHelloResp h \<Rightarrow> Some h | _ \<Rightarrow> None)"
  have fold: "fold (deliver hello_only) pkts v = (if ?f pkts = [] then v
      else \<lparr>hv_answered = True, hv_ok = compatible (last (?f pkts)), hv_resp = last (?f pkts)\<rparr>)" for pkts
  proof (induction pkts arbitrary: v)
    case (Cons pkt pkts)
    then show ?case by (cases pkt) (simp_all add: hello_only_def call_def map_filter_simps)
  qed (simp add: map_filter_simps)
  obtain segs rest where c: "cut [] bs = (segs, rest)" by fastforce
  from feed_delivers_from [OF _ c, of p v hello_only] assms show ?thesis
    by (simp add: parser_view_def fold hello_resps_def c)
qed

text \<open>The clock and the callbacks do not touch the record of a tee.\<close>

definition same_record :: "(('t, 'w) tee, 'x, 'u) client \<Rightarrow> (('t, 'w) tee, 'x, 'u) client \<Rightarrow> bool" where
  "same_record c c' \<longleftrightarrow> tee_rec (cl_transport c) \<longrightarrow>
     tee_rec (cl_transport c') \<and> tee_seen (cl_transport c') = tee_seen (cl_transport c) \<and>
     cl_parser c' = cl_parser c \<and> cl_device c' = cl_device c"

lemma same_record_trans: "same_record a b \<Longrightarrow> same_record b c \<Longrightarrow> same_record a c"
  by (auto simp: same_record_def)

lemma now_record: "client_now (tee_ops D T) c = (t, c') \<Longrightarrow> same_record c c'"
  by (auto simp: client_now_def same_record_def dest: tee_keeps_record(1) split: prod.splits)

lemma deliver_record: "same_record (fst x) (fst (deliver (handshake_callbacks (tee_ops D T) U) pkt x))"
proof -
  obtain c v where x: "x = (c, v)" by fastforce
  obtain t c1 where n: "client_now (tee_ops D T) c = (t, c1)" by fastforce
  with now_record [OF n] show ?thesis
    by (cases pkt) (simp_all del: deliver.simps add: x deliver_handshake deliver_run client_on_orient_def note_orient_id_def
        note_tracker_stat_def same_record_def)
qed

lemma feed_record:
  assumes "client_feed (handshake_callbacks (tee_ops D T) U) bs (c, v) = (c', v')" and "tee_rec (cl_transport c)"
  shows "tee_rec (cl_transport c') \<and> tee_seen (cl_transport c') = tee_seen (cl_transport c) \<and> cl_device c' = cl_device c"
proof -
  have "same_record c (fst (snd (feed (handshake_callbacks (tee_ops D T) U) bs (cl_parser c, (c, v)))))"
  proof (rule feed_keeps [where keep = "\<lambda>x. same_record c (fst x)"])
    show "same_record c (fst (deliver (handshake_callbacks (tee_ops D T) U) pkt e))" if "same_record c (fst e)" for pkt e
      using that deliver_record by (rule same_record_trans)
  qed (simp add: same_record_def)
  with assms show ?thesis by (auto simp: client_feed_def same_record_def split: prod.splits)
qed

lemma hello_record: "client_hello (tee_ops D T) h c = Some (ok, h', c') \<Longrightarrow> same_record c c'"
proof -
  have w: "write_frame (tee_ops D T) f c = Some (ok, c') \<Longrightarrow> same_record c c'" for f c ok c'
    by (auto simp: write_frame_def same_record_def dest: tee_keeps_record(2) split: if_splits)
  show "client_hello (tee_ops D T) h c = Some (ok, h', c') \<Longrightarrow> same_record c c'"
    by (auto simp: client_hello_def dest!: now_record w intro: same_record_trans
      split: prod.splits if_splits option.splits)
qed

lemma goes_on_record:
  assumes "hello_goes_on (tee_ops D T) deadline v c = (go, c')"
  shows "same_record c c'" and "go \<Longrightarrow> \<not> hv_answered v"
proof -
  obtain t c1 where n: "client_now (tee_ops D T) c = (t, c1)" by fastforce
  with assms now_record [OF n] show "same_record c c'" "go \<Longrightarrow> \<not> hv_answered v"
    by (auto simp: hello_goes_on_def load_quit_def same_record_def split: if_splits)
qed

text \<open>What the variables of the handshake say of the bytes that have been read.\<close>

definition hello_view :: "parser \<Rightarrow> bytes \<Rightarrow> device_info \<Rightarrow> hello_vars \<Rightarrow> (('t, 'w) tee, 'x, 'u) client \<Rightarrow> bool" where
  "hello_view p0 d0 dev v c \<longleftrightarrow> tee_rec (cl_transport c) \<and> cl_device c = dev \<and>
     (\<exists>got. tee_seen (cl_transport c) = d0 @ got \<and> (cl_parser c, v) = feed hello_only got (p0, hello_vars_init))"

lemma hello_view_same: "hello_view p0 d0 dev v c \<Longrightarrow> same_record c c' \<Longrightarrow> hello_view p0 d0 dev v c'"
  by (auto simp: hello_view_def same_record_def)

definition hello_end :: "parser \<Rightarrow> bytes \<Rightarrow> device_info \<Rightarrow> turn_end \<Rightarrow> (('t, 'w) tee, 'x, 'u) client \<Rightarrow> bool" where
  "hello_end p0 d0 dev e c =
     (case e of
        Answered v \<Rightarrow> hello_view p0 d0 dev v c
      | Failed err \<Rightarrow> err \<in> {''could not send HELLO'', ''port closed during handshake''} \<and>
          (\<exists>v. hello_view p0 d0 dev v c \<and> \<not> hv_answered v))"

lemma handshake_turn_view:
  assumes "handshake_turn (tee_ops D T) U deadline st c = Some (r, c')" and "hello_view p0 d0 dev (snd st) c"
  shows "case r of Inl e \<Rightarrow> hello_end p0 d0 dev e c' | Inr st' \<Rightarrow> hello_view p0 d0 dev (snd st') c'"
proof -
  obtain h v go c1 where e: "st = (h, v)" "hello_goes_on (tee_ops D T) deadline v c = (go, c1)" by fastforce
  have v1: "hello_view p0 d0 dev v c1" using hello_view_same [OF assms(2) goes_on_record(1) [OF e(2)]] e(1) by simp
  show ?thesis
  proof (cases go)
    case False
    with assms(1) e v1 show ?thesis by (auto simp: handshake_turn_def hello_end_def)
  next
    case True
    note no = goes_on_record(2) [OF e(2) True]
    from assms(1) e True obtain ok h' c2 where h: "client_hello (tee_ops D T) h c1 = Some (ok, h', c2)"
      by (auto simp: handshake_turn_def split: option.splits)
    have v2: "hello_view p0 d0 dev v c2" by (rule hello_view_same [OF v1 hello_record [OF h]])
    show ?thesis
    proof (cases ok)
      case False
      with assms(1) e True h v2 no show ?thesis by (auto simp: handshake_turn_def hello_end_def)
    next
      case ok: True
      from assms(1) e True h ok obtain x s
        where rd: "t_read (tee_ops D T) 512 (read_timeout_ms (cl_opts c2)) (cl_transport c2) = Some (x, s)"
        by (auto simp: handshake_turn_def split: option.splits)
      have rec: "tee_rec (cl_transport c2)" using v2 by (simp add: hello_view_def)
      note k = tee_keeps_record(3) [OF rd rec]
      show ?thesis
      proof (cases x)
        case None
        from k None v2 have "hello_view p0 d0 dev v (c2\<lparr>cl_transport := s\<rparr>)" by (simp add: hello_view_def)
        with assms(1) e True h ok rd None no show ?thesis by (auto simp: handshake_turn_def hello_end_def)
      next
        case (Some bs)
        obtain c4 v4 where f: "client_feed (handshake_callbacks (tee_ops D T) U) bs (c2\<lparr>cl_transport := s\<rparr>, v) = (c4, v4)" by fastforce
        from v2 k Some obtain got where g: "tee_seen s = d0 @ got @ bs" "(cl_parser c2, v) = feed hello_only got (p0, hello_vars_init)"
          by (auto simp: hello_view_def)
        from client_feed_hello [OF f] g(2) have "(cl_parser c4, v4) = feed hello_only (got @ bs) (p0, hello_vars_init)"
          by (simp add: feed_append)
        with feed_record [OF f] k g v2 have "hello_view p0 d0 dev v4 c4" by (auto simp: hello_view_def)
        with assms(1) e True h ok rd Some f show ?thesis by (auto simp: handshake_turn_def)
      qed
    qed
  qed
qed

lemma handshake_loop_view:
  fixes T :: "'t transport_ops" and D :: "'w stdio_ops"
  assumes "handshake_loop (tee_ops D T) U deadline st c = Some (e, c')" and "hello_view p0 d0 dev (snd st) c"
  shows "hello_end p0 d0 dev e c'"
proof -
  let ?Q = "\<lambda>T' (U :: 'u client_callbacks) (deadline :: u64) (st :: hello_state) (c :: (('t, 'w) tee, 'x, 'u) client)
    (y :: turn_end \<times> (('t, 'w) tee, 'x, 'u) client). T' = tee_ops D T \<longrightarrow> hello_view p0 d0 dev (snd st) c \<longrightarrow> hello_end p0 d0 dev (fst y) (snd y)"
  have "?Q (tee_ops D T) U deadline st c (e, c')"
  proof (rule handshake_loop.raw_induct [of ?Q, OF _ assms(1)])
    fix loop T' and U :: "'u client_callbacks" and deadline st and c :: "(('t, 'w) tee, 'x, 'u) client" and y
    assume IH: "\<And>T' U deadline st c y. loop T' U deadline st c = Some y \<Longrightarrow> ?Q T' U deadline st c y"
      and run: "(case handshake_turn T' U deadline st c of None \<Rightarrow> None
        | Some (r, c) \<Rightarrow> (case r of Inl e \<Rightarrow> Some (e, c) | Inr st \<Rightarrow> loop T' U deadline st c)) = Some y"
    show "?Q T' U deadline st c y"
    proof (intro impI)
      assume T': "T' = tee_ops D T" and view: "hello_view p0 d0 dev (snd st) c"
      from run obtain r c1 where t: "handshake_turn (tee_ops D T) U deadline st c = Some (r, c1)" by (auto simp: T' split: option.splits)
      note k = handshake_turn_view [OF t view]
      show "hello_end p0 d0 dev (fst y) (snd y)"
      proof (cases r)
        case (Inl e)
        with run t T' k show ?thesis by auto
      next
        case (Inr st')
        with run t T' have "loop (tee_ops D T) U deadline st' c1 = Some y" by simp
        from IH [OF this] k Inr show ?thesis by simp
      qed
    qed
  qed
  with assms(2) show ?thesis by simp
qed

lemma find_version_error: "find_sub ''protocol v'' (version_error r)"
  by (simp add: version_error_def)

subsection \<open>Properties\<close>

text \<open>C14. The handshake judges the dongle by its answers: with the bytes it has read (\<open>tee_seen\<close> of a recording tee around the
  transport), it succeeds exactly if they contain an accepted HELLO_RESP and the last one has the protocol version of the
  host, and the device information is then that answer's; it fails with a version error, the one that ends the
  session as incompatible, exactly if the last answer has another version; it fails with another error
  exactly if there was no answer.\<close>

theorem handshake_judges_last_answer:
  assumes "handshake (tee_ops D T) U c = Some (r, c')" and "tee_rec (cl_transport c)"
    and "buf (cl_parser c) = []" and "\<not> discarding (cl_parser c)"
  shows "\<exists>got. tee_seen (cl_transport c') = tee_seen (cl_transport c) @ got \<and>
    (let resps = hello_resps got in
     (r = None \<longleftrightarrow> resps \<noteq> [] \<and> hr_proto_ver (last resps) = HTK_PROTO_VERSION) \<and>
     ((\<exists>err. r = Some err \<and> find_sub ''protocol v'' err) \<longleftrightarrow> resps \<noteq> [] \<and> hr_proto_ver (last resps) \<noteq> HTK_PROTO_VERSION) \<and>
     (resps \<noteq> [] \<longrightarrow> cl_device c' = note_device (last resps) (cl_device c)))"
proof -
  let ?p = "cl_parser c" and ?d = "tee_seen (cl_transport c)"
  obtain now c1 where n: "client_now (tee_ops D T) c = (now, c1)" by fastforce
  have "hello_view ?p ?d (cl_device c) hello_vars_init c"
    using assms(2) by (auto simp: hello_view_def feed_def intro: exI [of _ "[]"])
  then have v: "hello_view ?p ?d (cl_device c) (snd ((0, 0), hello_vars_init)) c1"
    using hello_view_same [OF _ now_record [OF n]] by simp
  obtain e c2 where l: "handshake_loop (tee_ops D T) U (now + 500) ((0, 0), hello_vars_init) c1 = Some (e, c2)"
    using assms(1) n by (auto simp: handshake_def split: option.splits)
  from handshake_loop_view [OF l v] have k: "hello_end ?p ?d (cl_device c) e c2" .
  have ans: "v' = (if hello_resps got = [] then hello_vars_init
     else \<lparr>hv_answered = True, hv_ok = compatible (last (hello_resps got)), hv_resp = last (hello_resps got)\<rparr>)"
    if "(q, v') = feed hello_only got (?p, hello_vars_init)" for q v' got
    using hello_only_answers [OF assms(3,4), of got hello_vars_init] that by (metis snd_conv)
  show ?thesis
  proof (cases e)
    case (Failed err)
    with k obtain got where g: "tee_seen (cl_transport c2) = ?d @ got" "hello_resps got = []"
      by (auto simp: hello_end_def hello_view_def dest!: ans split: if_splits)
    from Failed k have "\<not> find_sub ''protocol v'' err" by (auto simp: hello_end_def)
    with g Failed assms(1) n l show ?thesis by (auto simp: handshake_def)
  next
    case (Answered v')
    with k obtain got where g: "tee_seen (cl_transport c2) = ?d @ got" "cl_device c2 = cl_device c"
      "v' = (if hello_resps got = [] then hello_vars_init
        else \<lparr>hv_answered = True, hv_ok = compatible (last (hello_resps got)), hv_resp = last (hello_resps got)\<rparr>)"
      by (auto simp: hello_end_def hello_view_def dest!: ans)
    show ?thesis
    proof (cases "hello_resps got = []")
      case True
      with g Answered assms(1) n l show ?thesis by (intro exI [of _ got]) (auto simp: handshake_def hello_vars_init_def)
    next
      case False
      with g Answered assms(1) n l show ?thesis
        by (intro exI [of _ got]) (auto simp: handshake_def Let_def find_version_error compatible_def kProtocolVersion_def split: if_splits)
    qed
  qed
qed

text \<open>The witness: a dongle of protocol version 2 that streams, and answers.\<close>

definition new_dongle :: mem_transport where
  "new_dongle = \<lparr>impl = Some (mem_impl_new\<lparr>mem_opened := True,
       mem_in := htk_frame_encode (1 # replicate 25 0) 64 @ htk_frame_encode [4, 2, 1, 0, 0, 1, 23, 0] 64\<rparr>),
     mem_clock = \<lparr>reading = (\<lambda>n. of_nat n), calls_made = 0, slept = []\<rparr>, others = (\<lambda>_ i. i)\<rparr>"

definition counting :: "nat client_callbacks" where
  "counting = \<lparr>cb_orient = Some (\<lambda>_ n. n + 1), cb_trackers = None, cb_state = None, cb_log = None\<rparr>"

definition new_session :: "((mem_transport, bytes \<times> bytes) tee, unit, nat) client" where
  "new_session = client_new \<lparr>tee_inner = new_dongle, tee_rec = True, tee_path = ''rec'', tee_os = ([], []), tee_seen = []\<rparr> ()
     (\<lambda>n. False) 0"

theorem handshake_judges_last_answer_witness:
  "\<exists>c' got. handshake (tee_ops list_stdio mem_ops) counting new_session =
     Some (Some ''dongle speaks protocol v2, this build implements v1'', c') \<and>
     tee_seen (cl_transport c') = got \<and> hello_resps got \<noteq> [] \<and> hr_proto_ver (last (hello_resps got)) \<noteq> HTK_PROTO_VERSION"
proof -
  let ?r = "handshake (tee_ops list_stdio mem_ops) counting new_session"
  have "?r \<noteq> None" and err: "fst (the ?r) = Some ''dongle speaks protocol v2, this build implements v1''" by code_simp+
  then have run: "?r = Some (Some ''dongle speaks protocol v2, this build implements v1'', snd (the ?r))" by (rule Some_pair)
  have fields: "tee_rec (cl_transport new_session)" "buf (cl_parser new_session) = []" "\<not> discarding (cl_parser new_session)"
    "tee_seen (cl_transport new_session) = []"
    by (simp_all add: new_session_def client_new_def parser_init_def)
  have "find_sub ''protocol v'' ''dongle speaks protocol v2, this build implements v1''" by simp
  with handshake_judges_last_answer [OF run fields(1-3)] fields(4) run show ?thesis by (auto simp: Let_def)
qed

text \<open>Until the answer arrives the parser already delivers what the dongle streams: orientations of a dongle that is then
  refused for its version reach the application.\<close>

lemma orients_of_refused_dongle:
  "let r = the (handshake (tee_ops list_stdio mem_ops) counting new_session)
   in fst r = Some ''dongle speaks protocol v2, this build implements v1'' \<and> cl_user (snd r) = 1"
  by code_simp

end
