(* ===== verification/Session.thy ===== *)
theory Session
  imports Client
begin

text \<open>
  The life of a client over any transport: every operation leaves the state of the connection to \<open>set_state\<close>
  (\<open>calm\<close>), the states follow each other as \<open>may_follow\<close> says (\<open>moves\<close>), and the reader thread
  \<^verbatim>\<open>Client::run\<close> ends with the port closed once \<^verbatim>\<open>stop\<close> has set the flag.
\<close>

subsection \<open>What a session leaves alone\<close>

fun may_follow :: "conn_state \<Rightarrow> conn_state \<Rightarrow> bool" where
  "may_follow Closed s = (s = Opening)"
| "may_follow Opening s = (s = Handshaking \<or> s = Lost)"
| "may_follow Handshaking s = (s = Ready \<or> s = Incompatible \<or> s = Lost)"
| "may_follow Ready s = (s = Lost)"
| "may_follow Incompatible s = (s = Opening)"
| "may_follow Lost s = (s = Opening)"

fun path_ok :: "conn_state \<Rightarrow> conn_state list \<Rightarrow> conn_state \<Rightarrow> bool" where
  "path_ok s [] t = (s = t)"
| "path_ok s (r # rs) t = (may_follow s r \<and> path_ok r rs t)"

lemma path_ok_append: "path_ok s rs t \<Longrightarrow> path_ok t rs' u \<Longrightarrow> path_ok s (rs @ rs') u"
  by (induction s rs t rule: path_ok.induct) auto

text \<open>\<open>hist\<close> is the list of state changes that the application has been told of; no other callback touches it.\<close>

definition journal :: "'u client_callbacks \<Rightarrow> ('u \<Rightarrow> (conn_state \<times> string) list) \<Rightarrow> bool" where
  "journal U hist \<longleftrightarrow>
     (\<forall>e u. hist (call (cb_state U) e u) = hist u @ [e]) \<and> (\<forall>p u. hist (call (cb_orient U) p u) = hist u) \<and>
     (\<forall>ts u. hist (call (cb_trackers U) ts u) = hist u) \<and> (\<forall>txt u. hist (call (cb_log U) txt u) = hist u)"

text \<open>Every call made of the transport and of the search for a dongle returns.\<close>

definition calls_return :: "'t transport_ops \<Rightarrow> ('x \<Rightarrow> (string \<times> 'x) option) \<Rightarrow> bool" where
  "calls_return T search \<longleftrightarrow>
     (\<forall>cap tmo s. t_read T cap tmo s \<noteq> None) \<and> (\<forall>data s. t_write T data s \<noteq> None) \<and> (\<forall>x. search x \<noteq> None)"

locale session = byte_pipe T keep
  for T :: "'t transport_ops" and keep :: "'t \<Rightarrow> bool" +
  fixes U :: "'u client_callbacks" and hist :: "'u \<Rightarrow> (conn_state \<times> string) list"
  assumes journal: "journal U hist"
begin

lemma hist_state: "hist (call (cb_state U) e u) = hist u @ [e]"
  and hist_orient: "hist (call (cb_orient U) p u) = hist u"
  and hist_trackers: "hist (call (cb_trackers U) ts u) = hist u"
  and hist_log: "hist (call (cb_log U) txt u) = hist u"
  using journal unfolding journal_def by blast+

text \<open>A step that changes neither the state of the connection nor what the application knows of it.\<close>

definition calm :: "('t, 'x, 'u) client \<Rightarrow> ('t, 'x, 'u) client \<Rightarrow> bool" where
  "calm c c' \<longleftrightarrow> (keep (cl_transport c) \<longrightarrow> keep (cl_transport c')) \<and> cl_state c' = cl_state c \<and>
     cl_opts c' = cl_opts c \<and> hist (cl_user c') = hist (cl_user c) \<and> cl_quit c' = cl_quit c \<and>
     cl_quit_loads c \<le> cl_quit_loads c'"

lemma calm_refl [simp]: "calm c c" by (simp add: calm_def)

lemma calm_trans: "calm a b \<Longrightarrow> calm b c \<Longrightarrow> calm a c" by (auto simp: calm_def)

lemma now_calm: "client_now T c = (t, c') \<Longrightarrow> calm c c'"
  by (auto simp: client_now_def calm_def dest: now_inv split: prod.splits)

lemma quit_calm: "load_quit c = (q, c') \<Longrightarrow> calm c c'"
  by (auto simp: load_quit_def calm_def)

lemma write_calm: "write_frame T frame c = Some (ok, c') \<Longrightarrow> calm c c'"
  by (auto simp: write_frame_def calm_def dest: write_inv split: if_splits)

lemma read_calm: "t_read T 512 tmo (cl_transport c) = Some (r, s') \<Longrightarrow> calm c (c\<lparr>cl_transport := s'\<rparr>)"
  using read_inv [of "cl_transport c" 512] by (auto simp: calm_def)

lemma now_calm': "calm c (snd (client_now T c))"
  using now_calm [of c] by (cases "client_now T c") simp

lemma note_calm: "calm c (note_tracker_stat T p c)" "calm c (note_orient_id T tid sim c)"
  using now_calm' [of c] by (auto simp: note_tracker_stat_def note_orient_id_def calm_def split: prod.splits)

lemma on_orient_calm: "calm c (client_on_orient T U p c)"
  using note_calm(2) [of c] by (simp add: client_on_orient_def Let_def calm_def hist_orient)

lemma log_calm: "calm c (c\<lparr>cl_user := call (cb_log U) txt (cl_user c)\<rparr>)"
  by (simp add: calm_def hist_log)

lemma deliver_calm:
  "calm (fst x) (fst (deliver (run_callbacks T U) pkt x))" "calm (fst x) (fst (deliver (handshake_callbacks T U) pkt x))"
proof -
  have run: "calm c (fst (deliver (run_callbacks T U) pkt (c, h)))" for c h
    by (cases pkt) (simp_all del: deliver.simps add: deliver_run on_orient_calm note_calm log_calm)
  have hello: "calm c (fst (deliver (handshake_callbacks T U) pkt (c, h)))" for c h
    using run [of c h] by (cases pkt) (simp_all del: deliver.simps add: deliver_handshake)
  from run [of "fst x" "snd x"] show "calm (fst x) (fst (deliver (run_callbacks T U) pkt x))" by (simp only: prod.collapse)
  from hello [of "fst x" "snd x"] show "calm (fst x) (fst (deliver (handshake_callbacks T U) pkt x))"
    by (simp only: prod.collapse)
qed

lemma feed_calm:
  assumes "cbs = handshake_callbacks T U \<or> cbs = run_callbacks T U" and "client_feed cbs bs (c, v) = (c', v')"
  shows "calm c c'"
proof -
  have "calm c (fst (snd (feed cbs bs (cl_parser c, (c, v)))))"
    using assms(1) by (intro feed_keeps [where keep = "\<lambda>x. calm c (fst x)"]) (auto intro: calm_trans [OF _ deliver_calm(1)] calm_trans [OF _ deliver_calm(2)])
  with assms(2) show ?thesis by (auto simp: client_feed_def calm_def split: prod.splits)
qed

lemma expire_calm: "calm c (expire_and_publish T U force c)"
  using now_calm' [of c]
  by (auto simp: expire_and_publish_def calm_def Let_def hist_trackers split: prod.splits)

lemma hello_calm: "client_hello T h c = Some (ok, h', c') \<Longrightarrow> calm c c'"
  by (auto simp: client_hello_def dest!: now_calm write_calm intro: calm_trans
      split: prod.splits if_splits option.splits)

lemma goes_on_calm: "hello_goes_on T deadline v c = (go, c') \<Longrightarrow> calm c c'"
  by (auto simp: hello_goes_on_def dest!: now_calm quit_calm intro: calm_trans split: prod.splits if_splits)

lemma handshake_turn_calm:
  assumes "handshake_turn T U deadline st c = Some (r, c')"
  shows "calm c c'"
proof -
  obtain h v where st: "st = (h, v)" by fastforce
  obtain go c1 where g: "hello_goes_on T deadline v c = (go, c1)" by fastforce
  note k1 = goes_on_calm [OF g]
  show ?thesis
  proof (cases go)
    case False
    with assms st g k1 show ?thesis by (simp add: handshake_turn_def)
  next
    case True
    with assms st g obtain ok h' c2 where h: "client_hello T h c1 = Some (ok, h', c2)"
      by (auto simp: handshake_turn_def split: option.splits)
    note k2 = calm_trans [OF k1 hello_calm [OF h]]
    show ?thesis
    proof (cases ok)
      case False
      with assms st g h True k2 show ?thesis by (simp add: handshake_turn_def)
    next
      case ok: True
      with assms st g h True obtain x s where rd: "t_read T 512 (read_timeout_ms (cl_opts c2)) (cl_transport c2) = Some (x, s)"
        by (auto simp: handshake_turn_def split: option.splits)
      note k3 = calm_trans [OF k2 read_calm [OF rd]]
      show ?thesis
      proof (cases x)
        case None
        with assms st g h True ok rd k3 show ?thesis by (simp add: handshake_turn_def)
      next
        case (Some bs)
        obtain c4 v4 where f: "client_feed (handshake_callbacks T U) bs (c2\<lparr>cl_transport := s\<rparr>, v) = (c4, v4)" by fastforce
        with assms st g h True ok rd Some have "c' = c4" by (simp add: handshake_turn_def)
        with calm_trans [OF k3 feed_calm [OF _ f]] show ?thesis by simp
      qed
    qed
  qed
qed

lemma handshake_loop_calm:
  assumes "handshake_loop T U deadline st c = Some (e, c')"
  shows "calm c c'"
proof -
  let ?Q = "\<lambda>T' U' (deadline :: u64) (st :: hello_state) (c :: ('t, 'x, 'u) client) (y :: turn_end \<times> ('t, 'x, 'u) client).
    T' = T \<longrightarrow> U' = U \<longrightarrow> calm c (snd y)"
  have "?Q T U deadline st c (e, c')"
  proof (rule handshake_loop.raw_induct [of ?Q, OF _ assms])
    fix loop T' U' deadline st c y
    assume IH: "\<And>T' U' deadline st c y. loop T' U' deadline st c = Some y \<Longrightarrow> ?Q T' U' deadline st c y"
      and run: "(case handshake_turn T' U' deadline st c of None \<Rightarrow> None
        | Some (r, c) \<Rightarrow> (case r of Inl e \<Rightarrow> Some (e, c) | Inr st \<Rightarrow> loop T' U' deadline st c)) = Some y"
    show "?Q T' U' deadline st c y"
    proof (intro impI)
      assume eqs: "T' = T" "U' = U"
      from run obtain r c1 where t: "handshake_turn T U deadline st c = Some (r, c1)" by (auto simp: eqs split: option.splits)
      note k = handshake_turn_calm [OF t]
      show "calm c (snd y)"
      proof (cases r)
        case (Inl e)
        with run t eqs k show ?thesis by auto
      next
        case (Inr st')
        with run t eqs have "loop T U deadline st' c1 = Some y" by simp
        from calm_trans [OF k] IH [OF this] show ?thesis by blast
      qed
    qed
  qed
  then show ?thesis by simp
qed

lemma handshake_calm: "handshake T U c = Some (err, c') \<Longrightarrow> calm c c'"
proof -
  assume run: "handshake T U c = Some (err, c')"
  obtain now c1 where n: "client_now T c = (now, c1)" by fastforce
  with run obtain e c2 where l: "handshake_loop T U (now + 500) ((0, 0), hello_vars_init) c1 = Some (e, c2)"
    by (auto simp: handshake_def split: option.splits)
  note k = calm_trans [OF now_calm [OF n] handshake_loop_calm [OF l]]
  have "calm c2 (c2\<lparr>cl_device := d\<rparr>)" for d by (simp add: calm_def)
  with run n l k show ?thesis
    by (auto simp: handshake_def Let_def split: turn_end.splits if_splits intro: calm_trans)
qed

lemma data_calm:
  assumes "stream_data T U bs ld c = (dead, ld', c')"
  shows "calm c c'"
proof (cases "bs = []")
  case True
  with assms show ?thesis by (auto simp: stream_data_def dest: now_calm split: if_splits prod.splits)
next
  case False
  obtain c1 v where f: "client_feed (run_callbacks T U) bs (c, hello_vars_init) = (c1, v)" by fastforce
  obtain now c2 where n: "client_now T c1 = (now, c2)" by fastforce
  have "calm c c1" using f by (intro feed_calm) simp_all
  moreover have "calm c2 (c2\<lparr>cl_stats := st\<rparr>)" for st by (simp add: calm_def)
  ultimately show ?thesis using assms False f n now_calm [OF n] by (auto simp: stream_data_def intro: calm_trans)
qed

lemma sweep_calm: "stream_sweep T U ld c = (ld', c') \<Longrightarrow> calm c c'"
  by (auto simp: stream_sweep_def dest!: now_calm intro: calm_trans calm_trans [OF _ expire_calm]
      split: prod.splits if_splits)

lemma stream_turn_calm:
  assumes "stream_turn T U v c = Some (r, c')"
  shows "calm c c'"
proof -
  obtain ld sw where v: "v = (ld, sw)" by fastforce
  obtain q c1 where q: "load_quit c = (q, c1)" by fastforce
  note k1 = quit_calm [OF q]
  show ?thesis
  proof (cases q)
    case True
    with assms v q k1 show ?thesis by (auto simp: stream_turn_def load_quit_def)
  next
    case False
    with assms v q obtain x s where rd: "t_read T 512 (read_timeout_ms (cl_opts c1)) (cl_transport c1) = Some (x, s)"
      by (auto simp: stream_turn_def split: option.splits)
    note k2 = calm_trans [OF k1 read_calm [OF rd]]
    show ?thesis
    proof (cases x)
      case None
      with assms v q False rd k2 show ?thesis by (auto simp: stream_turn_def)
    next
      case (Some bs)
      obtain dead ld' c2 where d: "stream_data T U bs ld (c1\<lparr>cl_transport := s\<rparr>) = (dead, ld', c2)" by (metis prod_cases3)
      note k3 = calm_trans [OF k2 data_calm [OF d]]
      obtain sw' c3 where w: "stream_sweep T U sw c2 = (sw', c3)" by fastforce
      from assms v q False rd Some d w k3 calm_trans [OF k3 sweep_calm [OF w]] show ?thesis
        by (auto simp: stream_turn_def split: if_splits)
    qed
  qed
qed

lemma stream_loop_calm:
  assumes "stream_loop T U v c = Some (err, c')"
  shows "calm c c'"
proof -
  let ?Q = "\<lambda>T' U' (v :: u64 \<times> u64) (c :: ('t, 'x, 'u) client) (y :: string \<times> ('t, 'x, 'u) client).
    T' = T \<longrightarrow> U' = U \<longrightarrow> calm c (snd y)"
  have "?Q T U v c (err, c')"
  proof (rule stream_loop.raw_induct [of ?Q, OF _ assms])
    fix loop T' U' v c y
    assume IH: "\<And>T' U' v c y. loop T' U' v c = Some y \<Longrightarrow> ?Q T' U' v c y"
      and run: "(case stream_turn T' U' v c of None \<Rightarrow> None
        | Some (r, c) \<Rightarrow> (case r of Inl err \<Rightarrow> Some (err, c) | Inr v \<Rightarrow> loop T' U' v c)) = Some y"
    show "?Q T' U' v c y"
    proof (intro impI)
      assume eqs: "T' = T" "U' = U"
      from run obtain r c1 where t: "stream_turn T U v c = Some (r, c1)" by (auto simp: eqs split: option.splits)
      note k = stream_turn_calm [OF t]
      show "calm c (snd y)"
      proof (cases r)
        case (Inl e)
        with run t eqs k show ?thesis by auto
      next
        case (Inr v')
        with run t eqs have "loop T U v' c1 = Some y" by simp
        from IH [OF this] calm_trans [of c c1] k show ?thesis by blast
      qed
    qed
  qed
  then show ?thesis by simp
qed

lemma nap_calm: "calm c (nap backoff passed c) \<and> cl_transport (nap backoff passed c) = cl_transport c"
proof (induction backoff passed c rule: nap.induct)
  case (1 backoff passed c)
  obtain q c1 where q: "load_quit c = (q, c1)" by fastforce
  have k: "calm c1 (c1\<lparr>cl_naps := l\<rparr>)" for l by (simp add: calm_def)
  have t: "cl_transport c1 = cl_transport c" using q by (auto simp: load_quit_def)
  show ?case
  proof (cases "passed < backoff \<and> \<not> q")
    case False
    with q quit_calm [OF q] t show ?thesis by (auto simp: nap.simps [of backoff passed c])
  next
    case True
    with q 1 [OF _ q [symmetric]] have "calm (c1\<lparr>cl_naps := cl_naps c1 @ [50]\<rparr>) (nap backoff passed c)"
      "cl_transport (nap backoff passed c) = cl_transport c1"
      by (simp_all add: nap.simps [of backoff passed c])
    with t show ?thesis using calm_trans [OF calm_trans [OF quit_calm [OF q] k]] by simp
  qed
qed

text \<open>What the application is told is the path that the state takes.\<close>

definition moves :: "('t, 'x, 'u) client \<Rightarrow> ('t, 'x, 'u) client \<Rightarrow> bool" where
  "moves c c' \<longleftrightarrow> (\<exists>path. hist (cl_user c') = hist (cl_user c) @ path \<and> path_ok (cl_state c) (map fst path) (cl_state c')) \<and>
     cl_quit c' = cl_quit c \<and> cl_quit_loads c \<le> cl_quit_loads c'"

lemma calm_moves: "calm a b \<Longrightarrow> moves a b"
  by (auto simp: calm_def moves_def)

lemma moves_trans: "moves a b \<Longrightarrow> moves b c \<Longrightarrow> moves a c"
proof -
  assume "moves a b" "moves b c"
  then obtain p q where "hist (cl_user b) = hist (cl_user a) @ p" "path_ok (cl_state a) (map fst p) (cl_state b)"
    "hist (cl_user c) = hist (cl_user b) @ q" "path_ok (cl_state b) (map fst q) (cl_state c)"
    "cl_quit b = cl_quit a" "cl_quit c = cl_quit b" "cl_quit_loads a \<le> cl_quit_loads b" "cl_quit_loads b \<le> cl_quit_loads c"
    by (auto simp: moves_def)
  then show ?thesis unfolding moves_def by (intro conjI exI [of _ "p @ q"]) (simp_all add: path_ok_append)
qed

lemma set_state_moves: "may_follow (cl_state c) s \<Longrightarrow> moves c (set_state U s d c)"
  by (cases "cl_state c = s") (auto simp: set_state_def moves_def Let_def hist_state intro!: exI [of _ "[(s, d)]"])

lemma set_state_same [simp]:
  "cl_state (set_state U s d c) = s" "cl_transport (set_state U s d c) = cl_transport c"
  "cl_opts (set_state U s d c) = cl_opts c" "cl_quit (set_state U s d c) = cl_quit c"
  "cl_quit_loads (set_state U s d c) = cl_quit_loads c"
  by (auto simp: set_state_def Let_def)

text \<open>The port is closed and the quit flag, once set, stays set.\<close>

definition at_rest :: "('t, 'x, 'u) client \<Rightarrow> bool" where
  "at_rest c \<longleftrightarrow> keep (cl_transport c) \<and> \<not> t_is_open T (cl_transport c) \<and>
     (\<forall>n m. n \<le> m \<longrightarrow> cl_quit c n \<longrightarrow> cl_quit c m)"

lemma at_rest_calm: "at_rest c \<Longrightarrow> calm c c' \<Longrightarrow> cl_transport c' = cl_transport c \<Longrightarrow> at_rest c'"
  by (simp add: at_rest_def calm_def)

lemma at_rest_set_state [simp]: "at_rest (set_state U s d c) = at_rest c"
  by (simp add: at_rest_def)

lemma calm_keeps: "calm c c' \<Longrightarrow> keep (cl_transport c) \<Longrightarrow> keep (cl_transport c')"
  and calm_quit: "calm c c' \<Longrightarrow> cl_quit c' = cl_quit c"
  and calm_state: "calm c c' \<Longrightarrow> cl_state c' = cl_state c"
  by (simp_all add: calm_def)

lemma open_once_effect:
  assumes "open_once T search c = Some (err, c')" and "at_rest c"
  shows "calm c c' \<and> (if err = None then keep (cl_transport c') else at_rest c')"
  using assms open_inv [of "cl_transport c"]
  by (auto simp: open_once_def at_rest_def calm_def Let_def split: option.splits prod.splits if_splits)

lemma retry_effect: "retry backoff c = (b, c') \<Longrightarrow> b \<noteq> None \<and> calm c c' \<and> (at_rest c \<longrightarrow> at_rest c')"
  using nap_calm [of c backoff 0] at_rest_calm [of c c'] by (auto simp: retry_def)

lemma stream_effect:
  assumes "stream T U c = Some (err, c')" and "cl_state c = Handshaking" and "keep (cl_transport c)"
  shows "moves c c' \<and> cl_state c' = Ready \<and> cl_quit c' = cl_quit c \<and> keep (cl_transport c') \<and> \<not> t_is_open T (cl_transport c')"
proof -
  let ?c0 = "set_state U Ready [] c"
  from assms(1) obtain ok c1 where w: "client_command T GetStats ?c0 = Some (ok, c1)"
    by (auto simp: stream_def split: option.splits)
  obtain t2 c2 where n2: "client_now T c1 = (t2, c2)" by fastforce
  obtain t3 c3 where n3: "client_now T c2 = (t3, c3)" by fastforce
  from assms(1) w n2 n3 obtain c4 where l: "stream_loop T U (t2, t3) c3 = Some (err, c4)"
    and c': "c' = c4\<lparr>cl_transport := t_close T (cl_transport c4)\<rparr>" by (auto simp: stream_def)
  from write_calm [OF w [unfolded client_command_def]] now_calm [OF n2] now_calm [OF n3] stream_loop_calm [OF l]
  have k: "calm ?c0 c4" by (blast intro: calm_trans)
  have kc: "keep (cl_transport c4)" using calm_keeps [OF k] assms(3) by simp
  have "calm c4 c'" unfolding c' using close_inv [OF kc] by (simp add: calm_def)
  then have k': "calm ?c0 c'" using k by (rule calm_trans [rotated])
  have "moves c ?c0" using assms(2) by (intro set_state_moves) simp
  from moves_trans [OF this calm_moves [OF k']] k' close_inv [OF kc] show ?thesis
    by (simp add: c' calm_quit calm_state)
qed

text \<open>A turn of the loop from a state in which no port is open.\<close>

definition turn_ok :: "('t, 'x, 'u) client \<Rightarrow> int option \<Rightarrow> ('t, 'x, 'u) client \<Rightarrow> bool" where
  "turn_ok c b c' \<longleftrightarrow> moves c c' \<and> at_rest c' \<and>
     (cl_state c' = Lost \<or> cl_state c' = Incompatible \<and> b = None \<or> cl_state c' = Ready \<and> b \<noteq> None \<and> cl_quit c' (cl_quit_loads c'))"

lemma turn_ok_end:
  assumes "moves c c1" and "at_rest c1" and "cl_state c1 = Lost \<or> cl_state c1 = Incompatible \<and> stops"
    and "(if stops \<or> \<not> auto_reconnect opts then (None, c1) else retry backoff c1) = (b, c')"
  shows "turn_ok c b c'"
proof (cases "stops \<or> \<not> auto_reconnect opts")
  case True
  with assms show ?thesis by (auto simp: turn_ok_def)
next
  case False
  with assms(4) have "retry backoff c1 = (b, c')" by simp
  from retry_effect [OF this] assms False show ?thesis
    by (auto simp: turn_ok_def calm_state intro: moves_trans [OF _ calm_moves])
qed

lemma turn_ok_streamed:
  assumes "moves c c4" and "at_rest c4" and "cl_state c4 = Ready" and "load_quit c4 = (q, c5)"
    and "c' = (if \<not> q then set_state U Lost err c5 else c5)" and "q \<Longrightarrow> b \<noteq> None"
  shows "turn_ok c b c'"
proof -
  note calm5 = quit_calm [OF assms(4)]
  have rest5: "at_rest c5" using at_rest_calm [OF assms(2) calm5] assms(4) by (auto simp: load_quit_def)
  have m5: "moves c c5" using moves_trans [OF assms(1) calm_moves [OF calm5]] .
  show ?thesis
  proof (cases q)
    case True
    with assms(4) have "cl_quit c4 (cl_quit_loads c4)" by (simp add: load_quit_def)
    with assms(2) have "cl_quit c4 (Suc (cl_quit_loads c4))" unfolding at_rest_def by (meson le_SucI order_refl)
    with assms(4) have "cl_quit c5 (cl_quit_loads c5)" by (auto simp: load_quit_def)
    with True assms(3,5,6) rest5 m5 calm5 show ?thesis by (simp add: turn_ok_def calm_state)
  next
    case False
    have "moves c5 (set_state U Lost err c5)" using assms(3) calm_state [OF calm5] by (simp add: set_state_moves)
    with False assms(5) rest5 moves_trans [OF m5 this] show ?thesis by (simp add: turn_ok_def)
  qed
qed

lemma run_turn_effect:
  assumes "run_turn T U search backoff c = Some (b, c')" and "at_rest c"
    and "cl_state c \<in> {Closed, Lost, Incompatible}"
  shows "turn_ok c b c'"
proof -
  let ?c0 = "set_state U Opening [] c"
  have m0: "moves c ?c0" using assms(3) by (intro set_state_moves) auto
  obtain e1 c1 where o: "open_once T search ?c0 = Some (e1, c1)"
    using assms(1) by (auto simp: run_turn_def split: option.splits)
  note k1 = open_once_effect [OF o, unfolded at_rest_set_state, OF assms(2)]
  note m1 = moves_trans [OF m0 calm_moves [OF k1 [THEN conjunct1]]]
  have s1: "cl_state c1 = Opening" using k1 calm_state [of ?c0 c1] by simp
  show ?thesis
  proof (cases e1)
    case (Some err)
    let ?c2 = "set_state U Lost err c1"
    from assms(1) o Some have r: "(if False \<or> \<not> auto_reconnect (cl_opts ?c2) then (None, ?c2) else retry backoff ?c2) = (b, c')"
      by (simp add: run_turn_def Let_def)
    have "moves c1 ?c2" using s1 by (intro set_state_moves) simp
    from turn_ok_end [OF moves_trans [OF m1 this] _ _ r] k1 Some show ?thesis by simp
  next
    case None
    let ?c2 = "set_state U Handshaking [] c1"
    have m2: "moves c ?c2" using s1 by (intro moves_trans [OF m1 set_state_moves]) simp
    obtain e2 c3 where h: "handshake T U ?c2 = Some (e2, c3)"
      using assms(1) o None by (auto simp: run_turn_def split: option.splits)
    note k3 = handshake_calm [OF h]
    note m3 = moves_trans [OF m2 calm_moves [OF k3]]
    have keep3: "keep (cl_transport c3)" and q3: "cl_quit c3 = cl_quit c" and s3: "cl_state c3 = Handshaking"
      using calm_keeps [OF k3] calm_quit [OF k3] calm_state [OF k3] k1 None calm_quit [of ?c0 c1] by simp_all
    show ?thesis
    proof (cases e2)
      case (Some err)
      let ?i = "find_sub ''protocol v'' err" and ?c4 = "c3\<lparr>cl_transport := t_close T (cl_transport c3)\<rparr>"
      let ?c5 = "set_state U (if ?i then Incompatible else Lost) err ?c4"
      from assms(1) o None h Some
      have r: "(if ?i \<or> \<not> auto_reconnect (cl_opts ?c5) then (None, ?c5) else retry backoff ?c5) = (b, c')"
        by (simp add: run_turn_def Let_def)
      have "calm c3 ?c4" using close_inv [OF keep3] by (simp add: calm_def)
      moreover have "moves ?c4 ?c5" using s3 by (intro set_state_moves) simp
      ultimately have m5: "moves c ?c5" using m3 calm_moves moves_trans by blast
      have "at_rest ?c5" using assms(2) close_inv [OF keep3] q3 by (simp add: at_rest_def)
      from turn_ok_end [OF m5 this _ r] show ?thesis by simp
    next
      case ready: None
      obtain err c4 where w: "stream T U c3 = Some (err, c4)"
        using assms(1) o None h ready by (auto simp: run_turn_def split: option.splits)
      note k4 = stream_effect [OF w s3 keep3]
      have m4: "moves c c4" using moves_trans [OF m3] k4 by blast
      have r4: "at_rest c4" using k4 q3 assms(2) by (simp add: at_rest_def)
      obtain q c5 where q: "load_quit c4 = (q, c5)" by fastforce
      from assms(1) o None h ready w q have "c' = (if \<not> q then set_state U Lost err c5 else c5)" "q \<Longrightarrow> b \<noteq> None"
        by (auto simp: run_turn_def Let_def)
      with turn_ok_streamed [OF m4 r4 _ q] k4 show ?thesis by blast
    qed
  qed
qed

definition run_end :: "('t, 'x, 'u) client \<Rightarrow> ('t, 'x, 'u) client \<Rightarrow> bool" where
  "run_end c c' \<longleftrightarrow> moves c c' \<and> at_rest c' \<and> (cl_state c' = Ready \<longrightarrow> (\<exists>n < cl_quit_loads c'. cl_quit c' n))"

lemma run_loop_end:
  assumes "run_loop T U search backoff c = Some c'" and "at_rest c"
    and "cl_state c \<in> {Closed, Lost, Incompatible} \<or> cl_state c = Ready \<and> cl_quit c (cl_quit_loads c)"
  shows "run_end c c'"
proof -
  let ?Q = "\<lambda>T' U' (search :: 'x \<Rightarrow> (string \<times> 'x) option) (backoff :: int) (c :: ('t, 'x, 'u) client) (c' :: ('t, 'x, 'u) client).
    T' = T \<longrightarrow> U' = U \<longrightarrow> at_rest c \<longrightarrow>
    cl_state c \<in> {Closed, Lost, Incompatible} \<or> cl_state c = Ready \<and> cl_quit c (cl_quit_loads c) \<longrightarrow> run_end c c'"
  have "?Q T U search backoff c c'"
  proof (rule run_loop.raw_induct [of ?Q, OF _ assms(1)])
    fix loop T' U' search backoff c c'
    assume IH: "\<And>T' U' search backoff c c'. loop T' U' search backoff c = Some c' \<Longrightarrow> ?Q T' U' search backoff c c'"
      and run: "(case load_quit c of (q, c) \<Rightarrow> if q then Some c else (case run_turn T' U' search backoff c of
          None \<Rightarrow> None
        | Some (b, c) \<Rightarrow> (case b of None \<Rightarrow> Some c | Some backoff \<Rightarrow> loop T' U' search backoff c))) = Some c'"
    show "?Q T' U' search backoff c c'"
    proof (intro impI)
      assume eqs: "T' = T" "U' = U" and rest: "at_rest c"
        and idle: "cl_state c \<in> {Closed, Lost, Incompatible} \<or> cl_state c = Ready \<and> cl_quit c (cl_quit_loads c)"
      obtain q c1 where q: "load_quit c = (q, c1)" by fastforce
      have c1: "calm c c1" "at_rest c1" "cl_state c1 = cl_state c"
        using quit_calm [OF q] at_rest_calm [OF rest quit_calm [OF q]] q by (auto simp: load_quit_def)
      show "run_end c c'"
      proof (cases q)
        case True
        with run q have "c' = c1" by simp
        with c1 calm_moves [OF c1(1)] True q show ?thesis by (auto simp: run_end_def load_quit_def)
      next
        case False
        with q idle have idle1: "cl_state c1 \<in> {Closed, Lost, Incompatible}" by (auto simp: load_quit_def)
        from run q False obtain b c2 where t: "run_turn T U search backoff c1 = Some (b, c2)"
          by (auto simp: eqs split: option.splits)
        note k2 = run_turn_effect [OF t c1(2) idle1, unfolded turn_ok_def]
        have m2: "moves c c2" using moves_trans [OF calm_moves [OF c1(1)]] k2 by blast
        show ?thesis
        proof (cases b)
          case None
          with run q False t have "c' = c2" by (simp add: eqs)
          with k2 None m2 show ?thesis by (auto simp: run_end_def)
        next
          case (Some backoff')
          with run q False t have "loop T U search backoff' c2 = Some c'" by (simp add: eqs)
          from IH [OF this] k2 Some have "run_end c2 c'" by auto
          then show ?thesis using moves_trans [OF m2] by (auto simp: run_end_def)
        qed
      qed
    qed
  qed
  with assms(2,3) show ?thesis by simp
qed

text \<open>Once the flag is set, every loop comes to its end: each turn loads it.\<close>

definition quits_by :: "nat \<Rightarrow> ('t, 'x, 'u) client \<Rightarrow> bool" where
  "quits_by n c \<longleftrightarrow> (\<forall>m \<ge> n. cl_quit c m)"

lemma quits_by_calm: "quits_by n c \<Longrightarrow> calm c c' \<Longrightarrow> quits_by n c'"
  by (simp add: quits_by_def calm_def)

lemma quits_by_load: "quits_by n c \<Longrightarrow> load_quit c = (False, c') \<Longrightarrow> cl_quit_loads c < n \<and> cl_quit_loads c' = Suc (cl_quit_loads c)"
  by (auto simp: quits_by_def load_quit_def) (meson not_le)

lemma write_returns: "write_frame T frame c = None \<Longrightarrow> \<not> calls_return T search"
  unfolding write_frame_def calls_return_def by (auto simp del: not_None_eq split: if_splits)

lemma hello_returns: "calls_return T search \<Longrightarrow> client_hello T h c \<noteq> None"
  by (auto simp: client_hello_def dest: write_returns split: prod.splits option.splits)

lemma goes_on_loads: "hello_goes_on T deadline v c = (True, c') \<Longrightarrow> quits_by n c \<Longrightarrow> cl_quit_loads c < n \<and> cl_quit_loads c < cl_quit_loads c'"
  by (auto simp: hello_goes_on_def load_quit_def client_now_def quits_by_def not_le [symmetric] split: prod.splits if_splits)

lemma handshake_turn_returns:
  assumes "calls_return T search"
  shows "handshake_turn T U deadline st c \<noteq> None"
proof -
  obtain h v go c1 where e: "st = (h, v)" "hello_goes_on T deadline v c = (go, c1)" by fastforce
  obtain ok h' c2 where h: "client_hello T h c1 = Some (ok, h', c2)" using hello_returns [OF assms, of h c1] by auto
  obtain r s where "t_read T 512 (read_timeout_ms (cl_opts c2)) (cl_transport c2) = Some (r, s)"
    using assms by (force simp: calls_return_def)
  with e h show ?thesis by (auto simp: handshake_turn_def split: option.splits prod.splits if_splits)
qed

lemma handshake_turn_loads:
  assumes "handshake_turn T U deadline st c = Some (Inr st', c')" and "quits_by n c"
  shows "cl_quit_loads c < n \<and> cl_quit_loads c < cl_quit_loads c'"
proof -
  obtain h v go c1 where e: "st = (h, v)" "hello_goes_on T deadline v c = (go, c1)" by fastforce
  with assms(1) have go: "go" by (auto simp: handshake_turn_def split: if_splits)
  with assms(1) e obtain h' c2 where h: "client_hello T h c1 = Some (True, h', c2)"
    by (auto simp: handshake_turn_def split: option.splits if_splits)
  with assms(1) e go obtain bs s where rd: "t_read T 512 (read_timeout_ms (cl_opts c2)) (cl_transport c2) = Some (Some bs, s)"
    by (auto simp: handshake_turn_def split: option.splits)
  obtain v' where f: "client_feed (handshake_callbacks T U) bs (c2\<lparr>cl_transport := s\<rparr>, v) = (c', v')"
    using assms(1) e go h rd by (auto simp: handshake_turn_def split: prod.splits)
  have "calm c1 c'" using hello_calm [OF h] read_calm [OF rd] feed_calm [OF _ f] by (blast intro: calm_trans)
  then have "cl_quit_loads c1 \<le> cl_quit_loads c'" by (simp add: calm_def)
  moreover have "cl_quit_loads c < n \<and> cl_quit_loads c < cl_quit_loads c1"
    using goes_on_loads e(2) go assms(2) by simp
  ultimately show ?thesis by simp
qed

lemma handshake_loop_returns:
  assumes "calls_return T search" and "quits_by n c"
  shows "handshake_loop T U deadline st c \<noteq> None"
  using assms(2)
proof (induction "n - cl_quit_loads c" arbitrary: st c rule: less_induct)
  case less
  obtain r c1 where t: "handshake_turn T U deadline st c = Some (r, c1)"
    using handshake_turn_returns [OF assms(1), of deadline st c] by auto
  show ?case
  proof (cases r)
    case (Inl e)
    with t show ?thesis by (subst handshake_loop.simps) simp
  next
    case (Inr st')
    from handshake_turn_loads [OF t [unfolded Inr] less.prems] have "n - cl_quit_loads c1 < n - cl_quit_loads c" by linarith
    from less.hyps [OF this quits_by_calm [OF less.prems handshake_turn_calm [OF t]], of st'] t Inr show ?thesis
      by (subst handshake_loop.simps) simp
  qed
qed

lemma stream_turn_returns:
  assumes "calls_return T search"
  shows "stream_turn T U v c \<noteq> None"
proof -
  obtain ld sw q c1 where e: "v = (ld, sw)" "load_quit c = (q, c1)" by fastforce
  obtain r s where "t_read T 512 (read_timeout_ms (cl_opts c1)) (cl_transport c1) = Some (r, s)"
    using assms by (force simp: calls_return_def)
  with e show ?thesis by (auto simp: stream_turn_def split: option.splits prod.splits if_splits)
qed

lemma stream_turn_loads:
  assumes "stream_turn T U v c = Some (Inr v', c')" and "quits_by n c"
  shows "cl_quit_loads c < n \<and> cl_quit_loads c < cl_quit_loads c'"
proof -
  obtain ld sw q c1 where e: "v = (ld, sw)" "load_quit c = (q, c1)" by fastforce
  with assms(1) have q: "\<not> q" by (auto simp: stream_turn_def)
  with assms(1) e obtain bs s where rd: "t_read T 512 (read_timeout_ms (cl_opts c1)) (cl_transport c1) = Some (Some bs, s)"
    by (auto simp: stream_turn_def split: option.splits)
  obtain dead ld' c2 where d: "stream_data T U bs ld (c1\<lparr>cl_transport := s\<rparr>) = (dead, ld', c2)" by (metis prod_cases3)
  obtain sw' c3 where w: "stream_sweep T U sw c2 = (sw', c3)" by fastforce
  have "c' = c3" using assms(1) e q rd d w by (auto simp: stream_turn_def split: if_splits)
  then have "calm c1 c'" using read_calm [OF rd] data_calm [OF d] sweep_calm [OF w] by (blast intro: calm_trans)
  then have "cl_quit_loads c1 \<le> cl_quit_loads c'" by (simp add: calm_def)
  with quits_by_load [OF assms(2)] e(2) q show ?thesis by fastforce
qed

lemma stream_loop_returns:
  assumes "calls_return T search" and "quits_by n c"
  shows "stream_loop T U v c \<noteq> None"
  using assms(2)
proof (induction "n - cl_quit_loads c" arbitrary: v c rule: less_induct)
  case less
  obtain r c1 where t: "stream_turn T U v c = Some (r, c1)" using stream_turn_returns [OF assms(1), of v c] by auto
  show ?case
  proof (cases r)
    case (Inl e)
    with t show ?thesis by (subst stream_loop.simps) simp
  next
    case (Inr v')
    from stream_turn_loads [OF t [unfolded Inr] less.prems] have "n - cl_quit_loads c1 < n - cl_quit_loads c" by linarith
    from less.hyps [OF this quits_by_calm [OF less.prems stream_turn_calm [OF t]], of v'] t Inr show ?thesis
      by (subst stream_loop.simps) simp
  qed
qed

lemma run_turn_returns:
  assumes "calls_return T search" and "quits_by n c" and "at_rest c"
  shows "run_turn T U search backoff c \<noteq> None"
proof -
  let ?c0 = "set_state U Opening [] c"
  have "search (cl_sys ?c0) \<noteq> None" using assms(1) by (simp add: calls_return_def)
  then have "(if cl_target ?c0 = [] then search (cl_sys ?c0) else Some (cl_target ?c0, cl_sys ?c0)) \<noteq> None" by simp
  then have "open_once T search ?c0 \<noteq> None"
    by (auto simp only: open_once_def Let_def split: option.splits prod.splits if_splits)
  then obtain e1 c1 where o: "open_once T search ?c0 = Some (e1, c1)" by auto
  note k1 = open_once_effect [OF o, unfolded at_rest_set_state, OF assms(3)]
  have q1: "quits_by n c1" using k1 quits_by_calm [of n ?c0 c1] assms(2) by (simp add: quits_by_def)
  show ?thesis
  proof (cases e1)
    case (Some err)
    with o show ?thesis by (simp add: run_turn_def Let_def)
  next
    case None
    let ?c2 = "set_state U Handshaking [] c1"
    have q2: "quits_by n ?c2" using q1 by (simp add: quits_by_def)
    obtain now c3 where n: "client_now T ?c2 = (now, c3)" by fastforce
    obtain r c3' where "handshake_loop T U (now + 500) ((0, 0), hello_vars_init) c3 = Some (r, c3')"
      using handshake_loop_returns [OF assms(1) quits_by_calm [OF q2 now_calm [OF n]], of "now + 500" "((0, 0), hello_vars_init)"]
      by auto
    with n have "handshake T U ?c2 \<noteq> None" by (cases r) (simp_all add: handshake_def)
    then obtain e2 c4 where h: "handshake T U ?c2 = Some (e2, c4)" by auto
    note k4 = handshake_calm [OF h]
    show ?thesis
    proof (cases e2)
      case (Some err)
      with o None h show ?thesis by (simp add: run_turn_def Let_def)
    next
      case ready: None
      let ?c5 = "set_state U Ready [] c4"
      have q5: "quits_by n ?c5" using quits_by_calm [OF q2 k4] by (simp add: quits_by_def)
      obtain ok c6 where w: "client_command T GetStats ?c5 = Some (ok, c6)"
        using write_returns [of "encode_command GetStats" ?c5 search] assms(1) by (force simp: client_command_def)
      obtain t7 c7 t8 c8 where n: "client_now T c6 = (t7, c7)" "client_now T c7 = (t8, c8)" by fastforce
      have "quits_by n c8" using q5 write_calm [OF w [unfolded client_command_def]] now_calm [OF n(1)] now_calm [OF n(2)]
        by (blast intro: quits_by_calm)
      from stream_loop_returns [OF assms(1) this, of "(t7, t8)"] w n have "stream T U c4 \<noteq> None" by (auto simp: stream_def)
      with o None h ready show ?thesis by (auto simp: run_turn_def Let_def split: option.splits prod.splits)
    qed
  qed
qed

lemma run_loop_returns:
  assumes "calls_return T search" and "quits_by n c" and "at_rest c"
    and "cl_state c \<in> {Closed, Lost, Incompatible} \<or> cl_state c = Ready \<and> cl_quit c (cl_quit_loads c)"
  shows "run_loop T U search backoff c \<noteq> None"
  using assms(2-)
proof (induction "n - cl_quit_loads c" arbitrary: backoff c rule: less_induct)
  case less
  obtain q c1 where q: "load_quit c = (q, c1)" by fastforce
  have c1: "calm c c1" "at_rest c1" "cl_state c1 = cl_state c"
    using quit_calm [OF q] at_rest_calm [OF less.prems(2) quit_calm [OF q]] q by (auto simp: load_quit_def)
  show ?case
  proof (cases q)
    case True
    with q show ?thesis by (subst run_loop.simps) simp
  next
    case False
    with q less.prems(3) have idle: "cl_state c1 \<in> {Closed, Lost, Incompatible}" by (auto simp: load_quit_def)
    note q1 = quits_by_calm [OF less.prems(1) c1(1)]
    obtain b c2 where t: "run_turn T U search backoff c1 = Some (b, c2)"
      using run_turn_returns [OF assms(1) q1 c1(2), of backoff] by auto
    note k2 = run_turn_effect [OF t c1(2) idle, unfolded turn_ok_def]
    show ?thesis
    proof (cases b)
      case None
      with q False t show ?thesis by (subst run_loop.simps) simp
    next
      case (Some backoff')
      have k: "quits_by n c2 \<and> cl_quit_loads c1 \<le> cl_quit_loads c2" using q1 k2 by (simp add: quits_by_def moves_def)
      with quits_by_load [OF less.prems(1)] q False have "n - cl_quit_loads c2 < n - cl_quit_loads c" by fastforce
      from less.hyps [OF this, of backoff'] k k2 Some q False t show ?thesis
        by (subst run_loop.simps) auto
    qed
  qed
qed

lemma session_end:
  assumes "calls_return T search" and "keep (cl_transport c)" and "\<not> t_is_open T (cl_transport c)"
    and "cl_state c \<in> {Closed, Lost, Incompatible}"
    and "\<forall>n m. n \<le> m \<longrightarrow> cl_quit c n \<longrightarrow> cl_quit c m" and "cl_quit c k"
  shows "\<exists>c' path. client_run T U search c = Some c' \<and> \<not> cl_running c' \<and> \<not> t_is_open T (cl_transport c') \<and>
    hist (cl_user c') = hist (cl_user c) @ path \<and> path_ok (cl_state c) (map fst path) (cl_state c') \<and>
    (cl_state c' = Ready \<longrightarrow> (\<exists>n < cl_quit_loads c'. cl_quit c n))"
proof -
  have rest: "at_rest c" using assms(2,3,5) by (simp add: at_rest_def)
  have quits: "quits_by k c" using assms(5,6) by (auto simp: quits_by_def)
  obtain c1 where run: "run_loop T U search (reconnect_ms (cl_opts c)) c = Some c1"
    using run_loop_returns [OF assms(1) quits rest] assms(4) by blast
  from run_loop_end [OF run rest] assms(4) have e: "run_end c c1" by blast
  then obtain path where "hist (cl_user c1) = hist (cl_user c) @ path" "path_ok (cl_state c) (map fst path) (cl_state c1)"
    by (auto simp: run_end_def moves_def)
  with e run show ?thesis
    by (intro exI [of _ "c1\<lparr>cl_running := False\<rparr>"] exI [of _ path])
      (auto simp: client_run_def run_end_def at_rest_def moves_def)
qed

end

subsection \<open>Properties\<close>

text \<open>C7. Stopping a session works, over any transport of which every read, every write and every search for a dongle returns: from the
  moment the quit flag is set the reader thread comes to its end, whatever it was doing. The replay of a file and the Windows port are
  such transports; the POSIX serial port is one only while the device goes on taking bytes, for its write loop retries
  without a limit (\<open>posix_write_can_hang\<close>; C40 is the property for it). Whenever the thread ends, the port is closed,
  the client is not running, and the application has been told of every state, in an order that the
  connection can go through. The state is left at Ready only if the flag was seen set.\<close>

theorem client_session_ends:
  assumes "byte_pipe T keep" and "journal U hist" and "calls_return T search"
    and "keep (cl_transport c)" and "\<not> t_is_open T (cl_transport c)" and "cl_state c \<in> {Closed, Lost, Incompatible}"
    and "\<forall>n m. n \<le> m \<longrightarrow> cl_quit c n \<longrightarrow> cl_quit c m" and "cl_quit c k"
  shows "\<exists>c' path. client_run T U search c = Some c' \<and> \<not> cl_running c' \<and> \<not> t_is_open T (cl_transport c') \<and>
    hist (cl_user c') = hist (cl_user c) @ path \<and> path_ok (cl_state c) (map fst path) (cl_state c') \<and>
    (cl_state c' = Ready \<longrightarrow> (\<exists>n < cl_quit_loads c'. cl_quit c n))"
  using assms by (intro session.session_end [where keep = keep]) (simp_all add: session_def session_axioms_def)

text \<open>The witness: the replay of a capture that begins with the answer of a dongle; the application keeps a list of the
  states it is told of.\<close>

definition recording :: "(conn_state \<times> string) list client_callbacks" where
  "recording = \<lparr>cb_orient = None, cb_trackers = None, cb_state = Some (\<lambda>e l. l @ [e]), cb_log = None\<rparr>"

interpretation replay_session: session "file_ops D" file_inv recording "\<lambda>l. l" for D
  by unfold_locales (simp add: journal_def recording_def call_def)

definition captured :: file_transport where
  "captured = (tee_inner replayed)\<lparr>ft_disk := (\<lambda>n. if n = ''a.bin'' then Some [0, 3, 4, 1, 2, 1, 3, 1, 23, 3, 183, 129, 0] else None)\<rparr>"

definition replaying :: "(file_transport, unit, (conn_state \<times> string) list) client" where
  "replaying = snd (client_start captured ''a.bin'' (default_options\<lparr>auto_reconnect := False\<rparr>) (\<lambda>n. n \<ge> 100)
     (client_new captured () (\<lambda>n. False) []))"

theorem client_session_ends_witness:
  "\<exists>c'. client_run (file_ops no_pacing) recording (\<lambda>w. Some ([], w)) replaying = Some c' \<and> \<not> cl_running c' \<and>
     map fst (cl_user c') = [Opening, Handshaking, Ready, Lost]"
proof -
  let ?run = "client_run (file_ops no_pacing) recording (\<lambda>w. Some ([], w)) replaying"
  have fields: "cl_transport replaying = captured" "cl_state replaying = Closed" "cl_quit replaying = (\<lambda>n. n \<ge> 100)"
    by (simp_all add: replaying_def client_start_def client_new_def)
  have r: "calls_return (file_ops no_pacing) (\<lambda>w. Some ([], w))"
    by (simp add: calls_return_def file_ops_def file_read_def file_write_def Let_def split: option.split prod.split)
  have k: "file_inv captured" "\<not> t_is_open (file_ops no_pacing) captured"
    by (simp_all add: captured_def replayed_def file_inv_def file_ops_def file_is_open_def)
  obtain c' where c': "?run = Some c'" "\<not> cl_running c'"
    using client_session_ends [OF replay.byte_pipe_axioms replay_session.journal r, where c = replaying and k = 100] fields k by auto
  have "map_option (\<lambda>c. map fst (cl_user c)) ?run = Some [Opening, Handshaking, Ready, Lost]" by code_simp
  with c' show ?thesis by simp
qed

text \<open>The serial ports: the Windows one returns from every call, the POSIX one if the device stalls for only so long.\<close>

lemma win_calls_return: "\<forall>x. search x \<noteq> None \<Longrightarrow> calls_return (win_ops P) search"
  by (simp add: calls_return_def win_ops_def win_read_def win_write_def)






end
