(* ===== verification/Client_List.thy ===== *)
theory Client_List
  imports Client
begin

text \<open>
  The list of trackers of a client: it refines one machine for each id, and what becomes visible of it is decided by
  the corroboration gate of \<^verbatim>\<open>client.cpp\<close>. An entry is found by \<open>lookup_tracker\<close>; \<open>id_step\<close> is
  the machine, \<open>evidence\<close> what the gate has seen.
\<close>

subsection \<open>The list of trackers as independent machines\<close>

definition lookup_tracker :: "u16 \<Rightarrow> tracker_info list \<Rightarrow> tracker_info option" where
  "lookup_tracker i ts = List.find (\<lambda>t. ti_id t = i) ts"

definition ids_distinct :: "tracker_info list \<Rightarrow> bool" where
  "ids_distinct ts \<longleftrightarrow> distinct (map ti_id ts)"

lemma lookup_simps [simp]:
  "lookup_tracker i [] = None"
  "lookup_tracker i (t # ts) = (if ti_id t = i then Some t else lookup_tracker i ts)"
  by (simp_all add: lookup_tracker_def)

lemma lookup_None: "lookup_tracker i ts = None \<longleftrightarrow> i \<notin> ti_id ` set ts"
  by (induction ts) auto

lemma lookup_id: "lookup_tracker i ts = Some t \<Longrightarrow> ti_id t = i \<and> t \<in> set ts"
  by (induction ts) (auto split: if_splits)

lemma lookup_append: "lookup_tracker i (ts @ us) = (case lookup_tracker i ts of None \<Rightarrow> lookup_tracker i us | Some t \<Rightarrow> Some t)"
  by (induction ts) auto

lemma lookup_ensure:
  "lookup_tracker i (ensure_tracker fr ts) =
    (if i = ti_id fr then Some (case lookup_tracker i ts of None \<Rightarrow> fr | Some t \<Rightarrow> t) else lookup_tracker i ts)"
  using lookup_None [of "ti_id fr" ts]
  by (auto simp: ensure_tracker_def list_ex_iff lookup_append image_iff split: option.splits)

lemma lookup_update:
  "(\<And>t. ti_id (f t) = ti_id t) \<Longrightarrow> lookup_tracker i (update_tracker tid f ts) =
    (if i = tid then map_option f (lookup_tracker i ts) else lookup_tracker i ts)"
  by (induction ts) auto

lemma ids_update: "(\<And>t. ti_id (f t) = ti_id t) \<Longrightarrow> map ti_id (update_tracker tid f ts) = map ti_id ts"
  by (induction ts) auto

lemma ids_ensure: "ids_distinct ts \<Longrightarrow> ids_distinct (ensure_tracker fr ts)"
  by (auto simp: ids_distinct_def ensure_tracker_def list_ex_iff)

lemma ids_filter: "ids_distinct ts \<Longrightarrow> ids_distinct (filter p ts)"
  by (simp add: ids_distinct_def distinct_map_filter)

lemma lookup_filter:
  "ids_distinct ts \<Longrightarrow> lookup_tracker i (filter p ts) = (case lookup_tracker i ts of None \<Rightarrow> None | Some t \<Rightarrow> if p t then Some t else None)"
proof (induction ts)
  case (Cons t ts)
  then have "lookup_tracker (ti_id t) ts = None" by (simp add: lookup_None ids_distinct_def)
  with Cons show ?case by (auto simp: ids_distinct_def split: option.splits)
qed simp

lemma entry_ids [simp]: "ti_id (stat_entry s now t) = ti_id t" "ti_id (orient_entry sim now t) = ti_id t"
  by (simp_all add: stat_entry_def orient_entry_def Let_def)

text \<open>What happens to the list: a TRACKER_STAT, an ORIENT, the sweep once a second; in the log, with the time that it read.\<close>

datatype list_event = SeenStat htk_tracker_stat | SeenOrient u16 bool | Sweep bool

definition list_step :: "'t transport_ops \<Rightarrow> 'u client_callbacks \<Rightarrow> list_event \<Rightarrow> ('t, 'x, 'u) client \<Rightarrow> ('t, 'x, 'u) client" where
  "list_step T U e c =
     (case e of
        SeenStat s \<Rightarrow> note_tracker_stat T s c
      | SeenOrient tid sim \<Rightarrow> note_orient_id T tid sim c
      | Sweep force \<Rightarrow> expire_and_publish T U force c)"

fun list_run ::
  "'t transport_ops \<Rightarrow> 'u client_callbacks \<Rightarrow> list_event list \<Rightarrow> ('t, 'x, 'u) client \<Rightarrow>
   (list_event \<times> u64) list \<times> ('t, 'x, 'u) client" where
  "list_run T U [] c = ([], c)"
| "list_run T U (e # es) c =
     (case list_run T U es (list_step T U e c) of (log, c') \<Rightarrow> ((e, fst (client_now T c)) # log, c'))"

text \<open>One id on its own: nothing that happens to another one matters.\<close>

definition id_step :: "client_options \<Rightarrow> u16 \<Rightarrow> list_event \<times> u64 \<Rightarrow> tracker_info option \<Rightarrow> tracker_info option" where
  "id_step opts i x t = (case x of (e, now) \<Rightarrow>
     let known = (case t of None \<Rightarrow> fresh_tracker_info i | Some t \<Rightarrow> t) in
     case e of
       SeenStat s \<Rightarrow> if ts_id s = i then Some (stat_entry s now known) else t
     | SeenOrient tid sim \<Rightarrow> if tid = i then Some (orient_entry sim now known) else t
     | Sweep force \<Rightarrow>
         (case t of
            None \<Rightarrow> None
          | Some t \<Rightarrow> if now - ti_last_seen_ms t > word_of_int (tracker_expiry_ms opts) then None else Some t))"

lemma orient_fresh_sim: "orient_entry sim now (t\<lparr>ti_sim := sim\<rparr>) = orient_entry sim now t"
  by (simp add: orient_entry_def)

lemma fresh_id [simp]: "ti_id (fresh_tracker_info i) = i"
  by (simp add: fresh_tracker_info_def)

lemma list_step_id:
  assumes "ids_distinct (cl_trackers c)"
  shows "ids_distinct (cl_trackers (list_step T U e c)) \<and>
    lookup_tracker i (cl_trackers (list_step T U e c)) = id_step (cl_opts c) i (e, fst (client_now T c)) (lookup_tracker i (cl_trackers c)) \<and>
    cl_opts (list_step T U e c) = cl_opts c"
proof -
  obtain now s where t: "t_now T (cl_transport c) = (now, s)" by fastforce
  show ?thesis
  proof (cases e)
    case (SeenStat st)
    with t assms show ?thesis
      by (auto simp: list_step_def note_tracker_stat_def client_now_def lookup_update lookup_ensure id_step_def
          ids_distinct_def ids_update ids_ensure [unfolded ids_distinct_def] split: option.splits)
  next
    case (SeenOrient tid sim)
    with t assms show ?thesis
      by (auto simp: list_step_def note_orient_id_def client_now_def lookup_update lookup_ensure id_step_def orient_fresh_sim
          ids_distinct_def ids_update ids_ensure [unfolded ids_distinct_def] split: option.splits)
  next
    case (Sweep force)
    with t assms show ?thesis
      by (auto simp: list_step_def expire_and_publish_def client_now_def expire_trackers_def lookup_filter ids_filter id_step_def
          Let_def split: option.splits)
  qed
qed

lemma list_run_ids:
  assumes "ids_distinct (cl_trackers c)" and "list_run T U es c = (log, c')"
  shows "map fst log = es \<and> ids_distinct (cl_trackers c') \<and> cl_opts c' = cl_opts c \<and>
    lookup_tracker i (cl_trackers c') = fold (id_step (cl_opts c) i) log (lookup_tracker i (cl_trackers c))"
  using assms
proof (induction es arbitrary: c log)
  case (Cons e es)
  obtain log' where r: "list_run T U es (list_step T U e c) = (log', c')" "log = (e, fst (client_now T c)) # log'"
    using Cons.prems(2) by (auto split: prod.splits)
  from list_step_id [OF Cons.prems(1), of T U e i] Cons.IH [OF _ r(1)] r(2) show ?case by simp
qed simp

definition new_client :: "(mem_transport, unit, nat) client" where
  "new_client = client_new new_dongle () (\<lambda>n. False) 0"

subsection \<open>Properties\<close>

text \<open>C15. The list of trackers refines one machine for each id: whatever TRACKER_STATs, ORIENTs and sweeps happen in whatever
  order and at whatever times, no id is listed twice, and the entry of every id is what this id's own machine makes of
  the log of these events; so no tracker's entry depends on another's. What a sweep publishes is at once what
  \<^verbatim>\<open>trackers()\<close> returns.\<close>

theorem trackers_independent:
  assumes "ids_distinct (cl_trackers c)" and "list_run T U es c = (log, c')"
  shows "map fst log = es \<and> ids_distinct (cl_trackers c') \<and>
    lookup_tracker i (cl_trackers c') = fold (id_step (cl_opts c) i) log (lookup_tracker i (cl_trackers c)) \<and>
    cl_user (expire_and_publish T U True c') = call (cb_trackers U) (client_trackers (expire_and_publish T U True c')) (cl_user c')"
proof -
  have "cl_user (expire_and_publish T U True c') = call (cb_trackers U) (client_trackers (expire_and_publish T U True c')) (cl_user c')"
    by (auto simp: expire_and_publish_def client_trackers_def client_now_def Let_def split: prod.splits)
  with list_run_ids [OF assms, of i] show ?thesis by simp
qed

theorem trackers_independent_witness:
  "let r = list_run mem_ops counting [SeenOrient 7 False, SeenOrient 9 True, SeenOrient 7 False] new_client
   in map_option ti_orient_count (lookup_tracker 7 (cl_trackers (snd r))) = Some 2"
proof -
  let ?es = "[SeenOrient 7 False, SeenOrient 9 True, SeenOrient 7 False]"
  obtain log c' where run: "list_run mem_ops counting ?es new_client = (log, c')" by fastforce
  have start: "ids_distinct (cl_trackers new_client)" "lookup_tracker 7 (cl_trackers new_client) = None"
    by (simp_all add: new_client_def client_new_def ids_distinct_def)
  have "log = [(SeenOrient 7 False, 0), (SeenOrient 9 True, 1), (SeenOrient 7 False, 2)]"
  proof -
    have "fst (list_run mem_ops counting ?es new_client) = [(SeenOrient 7 False, 0), (SeenOrient 9 True, 1), (SeenOrient 7 False, 2)]"
      by code_simp
    with run show ?thesis by simp
  qed
  moreover from trackers_independent [OF start(1) run, of 7] start(2)
  have "lookup_tracker 7 (cl_trackers c') = fold (id_step (cl_opts new_client) 7) log None" by simp
  ultimately show ?thesis using run by (simp add: id_step_def orient_entry_def fresh_tracker_info_def)
qed

text \<open>What is known of an id after a series of events: ORIENTs counted up to the maximum, which a TRACKER_STAT reaches at once.\<close>

definition orients_of :: "u16 \<Rightarrow> list_event list \<Rightarrow> nat" where
  "orients_of i es = length (filter (\<lambda>e. case e of SeenOrient tid sim \<Rightarrow> tid = i | _ \<Rightarrow> False) es)"

definition stat_for :: "u16 \<Rightarrow> list_event list \<Rightarrow> bool" where
  "stat_for i es \<longleftrightarrow> list_ex (\<lambda>e. case e of SeenStat s \<Rightarrow> ts_id s = i | _ \<Rightarrow> False) es"

definition evidence :: "u16 \<Rightarrow> list_event list \<Rightarrow> nat" where
  "evidence i es = (if stat_for i es then 0xFFFFFFFF else min 0xFFFFFFFF (orients_of i es))"

lemma evidence_snoc:
  "evidence i (es @ [e]) =
    (case e of
       SeenStat s \<Rightarrow> if ts_id s = i then 0xFFFFFFFF else evidence i es
     | SeenOrient tid sim \<Rightarrow> if tid = i then min 0xFFFFFFFF (evidence i es + 1) else evidence i es
     | Sweep force \<Rightarrow> evidence i es)"
  by (auto simp: evidence_def orients_of_def stat_for_def split: list_event.splits)

lemma word_unat_max: "unat (x :: u32) \<le> 0xFFFFFFFF"
proof -
  have "unat x < 2 ^ LENGTH(32)" by (rule unsigned_less)
  then show ?thesis by simp
qed

lemma orient_count_step:
  "unat (ti_orient_count (orient_entry sim now t)) = min 0xFFFFFFFF (unat (ti_orient_count t) + 1)"
  "unat (ti_orient_count (stat_entry s now t)) = 0xFFFFFFFF"
proof -
  have "unat (c + 1) = unat c + 1" if "c < 0xFFFFFFFF" for c :: u32
    using that by (simp add: word_less_nat_alt unat_word_ariths)
  moreover have "unat c = 0xFFFFFFFF" if "\<not> c < 0xFFFFFFFF" for c :: u32
    using that word_unat_max [of c] by (simp add: word_less_nat_alt)
  ultimately show "unat (ti_orient_count (orient_entry sim now t)) = min 0xFFFFFFFF (unat (ti_orient_count t) + 1)"
    "unat (ti_orient_count (stat_entry s now t)) = 0xFFFFFFFF"
    by (auto simp: orient_entry_def stat_entry_def Let_def word_less_nat_alt)
qed

text \<open>
  What counts for an id: the events that have named it since a sweep last found it silent for longer than the expiry
  time, with the time of the newest; \<open>None\<close> if there is none.
\<close>

definition heard_step :: "client_options \<Rightarrow> u16 \<Rightarrow> list_event \<times> u64 \<Rightarrow> (u64 \<times> list_event list) option \<Rightarrow> (u64 \<times> list_event list) option" where
  "heard_step opts i x h = (case x of (e, now) \<Rightarrow>
     let more = Some (now, (case h of None \<Rightarrow> [] | Some (seen, es) \<Rightarrow> es) @ [e]) in
     case e of
       SeenStat s \<Rightarrow> if ts_id s = i then more else h
     | SeenOrient tid sim \<Rightarrow> if tid = i then more else h
     | Sweep force \<Rightarrow>
         (case h of
            None \<Rightarrow> None
          | Some (seen, es) \<Rightarrow> if now - seen > word_of_int (tracker_expiry_ms opts) then None else h))"

definition heard :: "client_options \<Rightarrow> u16 \<Rightarrow> (list_event \<times> u64) list \<Rightarrow> (u64 \<times> list_event list) option" where
  "heard opts i log = fold (heard_step opts i) log None"

text \<open>The entry of an id and what counts for it go together.\<close>

definition entry_heard :: "u16 \<Rightarrow> tracker_info option \<Rightarrow> (u64 \<times> list_event list) option \<Rightarrow> bool" where
  "entry_heard i m h \<longleftrightarrow>
     (case (m, h) of
        (None, None) \<Rightarrow> True
      | (Some t, Some (seen, es)) \<Rightarrow>
          ti_last_seen_ms t = seen \<and> unat (ti_orient_count t) = evidence i es \<and> (stat_for i es \<or> 0 < orients_of i es)
      | _ \<Rightarrow> False)"

lemma for_id_snoc:
  "stat_for i (es @ [e]) = (stat_for i es \<or> (case e of SeenStat s \<Rightarrow> ts_id s = i | _ \<Rightarrow> False))"
  "orients_of i (es @ [e]) = orients_of i es + (case e of SeenOrient tid sim \<Rightarrow> of_bool (tid = i) | _ \<Rightarrow> 0)"
  by (auto simp: stat_for_def orients_of_def split: list_event.split)

lemma entry_times [simp]:
  "ti_last_seen_ms (stat_entry s now t) = now" "ti_last_seen_ms (orient_entry sim now t) = now"
  "ti_orient_count (fresh_tracker_info i) = 0"
  by (simp_all add: stat_entry_def orient_entry_def fresh_tracker_info_def Let_def)

lemma evidence_Nil: "evidence i [] = 0"
  by (simp add: evidence_def stat_for_def orients_of_def)

lemma entry_heard_step:
  assumes "entry_heard i m h"
  shows "entry_heard i (id_step opts i x m) (heard_step opts i x h)"
proof -
  obtain e now where x: "x = (e, now)" by fastforce
  from assms consider (none) "m = None" "h = None"
    | (some) t seen es where "m = Some t" "h = Some (seen, es)" "ti_last_seen_ms t = seen"
        "unat (ti_orient_count t) = evidence i es" "stat_for i es \<or> 0 < orients_of i es"
    by (auto simp: entry_heard_def split: option.splits)
  then show ?thesis
  proof cases
    case none
    with evidence_snoc [of i "[]" e] for_id_snoc [of i "[]" e] show ?thesis
      by (cases e) (auto simp: x entry_heard_def id_step_def heard_step_def orient_count_step evidence_Nil)
  next
    case some
    with evidence_snoc [of i es e] for_id_snoc [of i es e] show ?thesis
      by (cases e) (auto simp: x entry_heard_def id_step_def heard_step_def orient_count_step)
  qed
qed

lemma entry_heard_run: "entry_heard i m h \<Longrightarrow> entry_heard i (fold (id_step opts i) log m) (fold (heard_step opts i) log h)"
  by (induction log arbitrary: m h) (simp_all add: entry_heard_step)

text \<open>As long as every sweep comes in time, everything counts.\<close>

lemma heard_all:
  assumes "heard opts i log = Some (seen, es)"
  shows "heard opts i (log @ [(Sweep force, now)]) = (if now - seen > word_of_int (tracker_expiry_ms opts) then None else Some (seen, es))"
    and "heard opts i (log @ [(SeenOrient i sim, now)]) = Some (now, es @ [SeenOrient i sim])"
  using assms by (simp_all add: heard_def heard_step_def)

lemma visible_lookup:
  "ids_distinct (cl_trackers c) \<Longrightarrow> i \<in> ti_id ` set (client_trackers c) \<longleftrightarrow>
    (\<exists>t. lookup_tracker i (cl_trackers c) = Some t \<and> promote_after_orients (cl_opts c) \<le> ti_orient_count t)"
  using lookup_None [of i "client_trackers c"] lookup_filter [of "cl_trackers c" i]
  by (auto simp: client_trackers_def visible_trackers_def split: option.splits if_splits)

text \<open>C37. The corroboration gate: at any time, whatever TRACKER_STATs, ORIENTs and sweeps there have been, an id is on the
  list that the application gets exactly if, since a sweep last found it silent for longer than the expiry time, a TRACKER_STAT for it
  has arrived or at least \<open>promote_after_orients\<close> ORIENTs (and at least one). So a sweep that comes in time takes nothing away, one
  that comes too late makes the id begin anew, and no number of ORIENTs is too large for the counter.\<close>

theorem tracker_promotion:
  assumes "ids_distinct (cl_trackers c)" and "lookup_tracker i (cl_trackers c) = None" and "list_run T U es c = (log, c')"
  shows "i \<in> ti_id ` set (client_trackers c') \<longleftrightarrow>
    (\<exists>seen hs. heard (cl_opts c) i log = Some (seen, hs) \<and>
      (stat_for i hs \<or> unat (promote_after_orients (cl_opts c)) \<le> orients_of i hs))"
proof -
  let ?p = "promote_after_orients (cl_opts c)" and ?m = "lookup_tracker i (cl_trackers c')"
  note r = list_run_ids [OF assms(1,3), of i]
  have "entry_heard i None None" by (simp add: entry_heard_def)
  from entry_heard_run [OF this, of "cl_opts c" log] r assms(2) have "entry_heard i ?m (heard (cl_opts c) i log)"
    by (simp add: heard_def)
  moreover have "unat ?p \<le> 0xFFFFFFFF" using word_unat_max [of ?p] by simp
  ultimately show ?thesis using visible_lookup [of c' i] r
    by (auto simp: entry_heard_def evidence_def word_le_nat_alt split: option.splits if_splits)
qed

text \<open>The witness: a sweep between the ORIENTs, in time.\<close>

theorem tracker_promotion_witness:
  "let ids = ti_id ` set (client_trackers (snd (list_run mem_ops counting [SeenOrient 9 False, SeenOrient 7 False, Sweep True, SeenOrient 7 True, SeenOrient 7 False] new_client)))
   in 7 \<in> ids \<and> 9 \<notin> ids"
proof -
  let ?es = "[SeenOrient 9 False, SeenOrient 7 False, Sweep True, SeenOrient 7 True, SeenOrient 7 False]"
  obtain log c' where run: "list_run mem_ops counting ?es new_client = (log, c')" by fastforce
  have start: "ids_distinct (cl_trackers new_client)" "lookup_tracker i (cl_trackers new_client) = None" for i
    by (simp_all add: new_client_def client_new_def ids_distinct_def)
  have opts: "promote_after_orients (cl_opts new_client) = 3" by (simp add: new_client_def client_new_def default_options_def)
  have "fst (list_run mem_ops counting ?es new_client) = zip ?es [0, 1, 2, 3, 4]" by code_simp
  with run have log: "log = zip ?es [0, 1, 2, 3, 4]" by simp
  have "heard (cl_opts new_client) 7 log = Some (4, [SeenOrient 7 False, SeenOrient 7 True, SeenOrient 7 False])"
    "heard (cl_opts new_client) 9 log = Some (0, [SeenOrient 9 False])"
    unfolding log by code_simp+
  with tracker_promotion [OF start run, of 7] tracker_promotion [OF start run, of 9] run opts show ?thesis
    by (simp add: Let_def stat_for_def orients_of_def)
qed

end
