(* ===== verification/Orientation.thy ===== *)
theory Orientation
  imports Fusion
begin

text \<open>
  The orientation arithmetic of the host library, \<^verbatim>\<open>host/libheadtracker/src/orientation.cpp\<close> and
  \<^verbatim>\<open>orientation.hpp\<close>: quaternions, the twist metric \<^verbatim>\<open>heading_angle\<close>, and the \<^verbatim>\<open>Recenterer\<close>.

  As in \<open>Floats\<close>, a \<^verbatim>\<open>float\<close> is its bit pattern and the arithmetic is a parameter, here with the two inverse
  functions that only the host uses. Where the name of a host function is also one of the firmware, it
  has the prefix \<open>host_\<close>. A loop that does not end is \<open>None\<close>.
\<close>

record host_floats = float_ops +
  f_acos :: "f32 \<Rightarrow> f32"
  f_asin :: "f32 \<Rightarrow> f32"

subsection \<open>Quaternions\<close>

definition quat_identity :: quat where
  "quat_identity = (0x3F800000, 0, 0, 0)"

fun multiply :: "host_floats \<Rightarrow> quat \<Rightarrow> quat \<Rightarrow> quat" where
  "multiply F (aw, ax, ay, az) (bw, bx, b_y, bz) =
     (let p = f_add F; m = f_sub F; t = f_mul F in
      (m (m (m (t aw bw) (t ax bx)) (t ay b_y)) (t az bz),
       m (p (p (t aw bx) (t ax bw)) (t ay bz)) (t az b_y),
       p (p (m (t aw b_y) (t ax bz)) (t ay bw)) (t az bx),
       p (m (p (t aw bz) (t ax b_y)) (t ay bx)) (t az bw)))"

fun conjugate :: "quat \<Rightarrow> quat" where
  "conjugate (w, x, y, z) = (w, f_neg x, f_neg y, f_neg z)"

text \<open>The test that both guards share: finite, and above \<^verbatim>\<open>1e-12f\<close>.\<close>

definition usable :: "f32 \<Rightarrow> bool" where
  "usable n2 \<longleftrightarrow> f_num n2 \<and> f_less 0x2B8CBCCC n2"

fun normalized :: "host_floats \<Rightarrow> quat \<Rightarrow> quat" where
  "normalized F (w, x, y, z) =
     (let n2 = f_add F (f_add F (f_add F (f_mul F w w) (f_mul F x x)) (f_mul F y y)) (f_mul F z z);
          inv_n = f_div F 0x3F800000 (f_sqrt F n2) in
      if \<not> usable n2 then quat_identity
      else (f_mul F w inv_n, f_mul F x inv_n, f_mul F y inv_n, f_mul F z inv_n))"

definition quat_of :: "host_floats \<Rightarrow> htk_orient \<Rightarrow> quat" where
  "quat_of F p = normalized F (or_q_w p, or_q_x p, or_q_y p, or_q_z p)"

fun heading :: "host_floats \<Rightarrow> quat \<Rightarrow> quat" where
  "heading F (w, x, y, z) =
     (let n2 = f_add F (f_mul F w w) (f_mul F z z); inv_n = f_div F 0x3F800000 (f_sqrt F n2) in
      if \<not> usable n2 then quat_identity else (f_mul F w inv_n, 0, 0, f_mul F z inv_n))"

partial_function (option) host_wrap_down :: "host_floats \<Rightarrow> f32 \<Rightarrow> f32 option" where
  "host_wrap_down F a = (if f_less kPi a then host_wrap_down F (f_sub F a kTwoPi) else Some a)"

partial_function (option) host_wrap_up :: "host_floats \<Rightarrow> f32 \<Rightarrow> f32 option" where
  "host_wrap_up F a = (if f_less a (f_neg kPi) then host_wrap_up F (f_add F a kTwoPi) else Some a)"

declare host_wrap_down.simps [code] host_wrap_up.simps [code]

definition host_wrap_pi :: "host_floats \<Rightarrow> f32 \<Rightarrow> f32 option" where
  "host_wrap_pi F a = (if \<not> f_num a then Some 0 else Option.bind (host_wrap_down F a) (host_wrap_up F))"

text \<open>A finite number so large that subtracting a turn rounds back to it is never wrapped: the loop does not end. 1e10 is one.\<close>

lemma host_wrap_pi_hangs:
  assumes "f_less kPi a" and "f_sub F a kTwoPi = a" and "f_num a"
  shows "host_wrap_pi F a = None"
proof -
  let ?Q = "\<lambda>(G :: host_floats) x (y :: f32). G = F \<longrightarrow> x \<noteq> a"
  have "?Q F x y" if "host_wrap_down F x = Some y" for x y
    by (rule host_wrap_down.raw_induct [of ?Q, OF _ that]) (use assms in \<open>auto split: if_splits\<close>)
  then have "host_wrap_down F a = None" by (cases "host_wrap_down F a") auto
  with assms(3) show ?thesis by (simp add: host_wrap_pi_def)
qed

lemma wrap_of_1e10: "f_sub ieee_ops 0x501502F9 kTwoPi = 0x501502F9" "f_less kPi 0x501502F9" "f_num 0x501502F9"
  by code_simp+

fun host_heading_angle :: "host_floats \<Rightarrow> quat \<Rightarrow> f32 option" where
  "host_heading_angle F (w, x, y, z) =
     (if \<not> usable (f_add F (f_mul F w w) (f_mul F z z)) then Some 0
      else host_wrap_pi F (f_mul F 0x40000000 (f_atan2 F z w)))"

definition yaw_quat :: "host_floats \<Rightarrow> f32 \<Rightarrow> quat" where
  "yaw_quat F a = (f_cos F (f_mul F a 0x3F000000), 0, 0, f_sin F (f_mul F a 0x3F000000))"

fun host_gravity_body :: "host_floats \<Rightarrow> quat \<Rightarrow> vec3" where
  "host_gravity_body F (w, x, y, z) =
     (f_neg (f_mul F 0x40000000 (f_sub F (f_mul F x z) (f_mul F w y))),
      f_neg (f_mul F 0x40000000 (f_add F (f_mul F y z) (f_mul F w x))),
      f_neg (f_sub F 0x3F800000 (f_mul F 0x40000000 (f_add F (f_mul F x x) (f_mul F y y)))))"

fun shortest_arc_to_down :: "host_floats \<Rightarrow> vec3 \<Rightarrow> quat" where
  "shortest_arc_to_down F (x, y, z) =
     (let n2 = f_add F (f_add F (f_mul F x x) (f_mul F y y)) (f_mul F z z); inv_n = f_div F 0x3F800000 (f_sqrt F n2);
          ux = f_mul F x inv_n; uy = f_mul F y inv_n; uz = f_mul F z inv_n in
      if \<not> usable n2 then quat_identity
      else if f_less (f_sub F 0x3F800000 uz) 0x358637BD then (0, 0x3F800000, 0, 0)
      else normalized F (f_sub F 0x3F800000 uz, f_neg uy, ux, 0))"

text \<open>\<^verbatim>\<open>to_euler\<close>: yaw, pitch and roll.\<close>

fun to_euler :: "host_floats \<Rightarrow> quat \<Rightarrow> f32 \<times> f32 \<times> f32" where
  "to_euler F (w, x, y, z) =
     (let p = f_add F; m = f_sub F; t = f_mul F; two = 0x40000000; one = 0x3F800000;
          yaw = f_atan2 F (t two (p (t w z) (t x y))) (m one (t two (p (t y y) (t z z))));
          sp = t two (m (t w y) (t x z));
          sp = (if f_less one sp then one else if f_less sp (f_neg one) then f_neg one else sp) in
      (yaw, f_asin F sp, f_atan2 F (t two (p (t w x) (t y z))) (m one (t two (p (t x x) (t y y))))))"

subsection \<open>The Recenterer\<close>

record recenterer =
  bore_inv :: quat
  yaw_inv :: quat

definition recenterer_reset :: recenterer where
  "recenterer_reset = \<lparr>bore_inv = quat_identity, yaw_inv = quat_identity\<rparr>"

definition boresight :: "host_floats \<Rightarrow> quat \<Rightarrow> recenterer \<Rightarrow> recenterer" where
  "boresight F current r =
     (let q_ref = normalized F current; h = heading F q_ref in
      r\<lparr>bore_inv := multiply F (conjugate q_ref) h, yaw_inv := conjugate h\<rparr>)"

definition rc_apply :: "host_floats \<Rightarrow> quat \<Rightarrow> recenterer \<Rightarrow> quat" where
  "rc_apply F raw r = normalized F (multiply F (yaw_inv r) (multiply F raw (bore_inv r)))"

definition recenter :: "host_floats \<Rightarrow> quat \<Rightarrow> recenterer \<Rightarrow> recenterer" where
  "recenter F current r =
     (let corrected = rc_apply F (normalized F current) r in
      r\<lparr>yaw_inv := multiply F (conjugate (heading F corrected)) (yaw_inv r)\<rparr>)"

definition yaw_angle :: "host_floats \<Rightarrow> recenterer \<Rightarrow> f32 option" where
  "yaw_angle F r = host_heading_angle F (yaw_inv r)"

definition set_yaw_angle :: "host_floats \<Rightarrow> f32 \<Rightarrow> recenterer \<Rightarrow> recenterer" where
  "set_yaw_angle F a r = r\<lparr>yaw_inv := yaw_quat F a\<rparr>"

definition set_tilt :: "host_floats \<Rightarrow> quat \<Rightarrow> quat \<Rightarrow> recenterer \<Rightarrow> (f32 \<times> recenterer) option" where
  "set_tilt F bore_inv_new current r =
     (let q_c = normalized F current in
      case host_heading_angle F (multiply F q_c (bore_inv r)) of
        None \<Rightarrow> None
      | Some phi_old \<Rightarrow>
          (case host_heading_angle F (multiply F q_c bore_inv_new) of
             None \<Rightarrow> None
           | Some phi_new \<Rightarrow>
               (case host_wrap_pi F (f_sub F phi_new phi_old) of
                  None \<Rightarrow> None
                | Some delta \<Rightarrow>
                    (let r = r\<lparr>bore_inv := bore_inv_new\<rparr> in
                     case yaw_angle F r of
                       None \<Rightarrow> None
                     | Some psi \<Rightarrow>
                         map_option (\<lambda>a. (delta, set_yaw_angle F a r)) (host_wrap_pi F (f_sub F psi delta))))))"

end
