(* ===== verification/Stabilizer.thy ===== *)
theory Stabilizer
  imports Orientation "HOL-Library.Monad_Syntax"
begin

text \<open>
  The reference automation of the host library, \<^verbatim>\<open>host/libheadtracker/src/stabilizer.cpp\<close> and
  \<^verbatim>\<open>stabilizer.hpp\<close>: wear detection, auto-level, auto-center, taps, requests from other threads. \<open>stab_update\<close> is
  \<^verbatim>\<open>Stabilizer::update\<close>, in the stages that the comments of the code name. A stage that can meet a
  \<^verbatim>\<open>wrap_pi\<close> that does not end is an option.

  The seqlock through which other threads read the status is the subject of \<open>Seqlock\<close>; here \<open>publish\<close> is
  one step.
\<close>

subsection \<open>Configuration, status, state\<close>

record level_config =
  al_enabled :: bool
  al_tau_s :: f32
  al_warmup_s :: f32
  al_max_slew_deg_s :: f32
  al_max_tilt_deg :: f32
  al_reject_rate_deg_s :: f32

record center_config =
  ac_enabled :: bool
  ac_tau_mean_s :: f32
  ac_tau_center_s :: f32
  ac_max_slew_deg_s :: f32
  ac_min_resultant :: f32

record wear_config =
  wc_window_s :: f32
  wc_alive_min_deg :: f32
  wc_worn_hold_s :: f32
  wc_off_hold_s :: f32

record tap_config =
  tc_tap_recenters :: bool
  tc_refractory_s :: f32
  tc_min_worn_s :: f32
  tc_settle_max_deg_s :: f32
  tc_settle_timeout_s :: f32

record stabilizer_config =
  sc_level :: level_config
  sc_center :: center_config
  sc_wear :: wear_config
  sc_tap :: tap_config

definition stabilizer_config_default :: stabilizer_config where
  "stabilizer_config_default =
     \<lparr>sc_level = \<lparr>al_enabled = True, al_tau_s = 0x42F00000, al_warmup_s = 0x41A00000, al_max_slew_deg_s = 0x3E4CCCCD,
        al_max_tilt_deg = 0x42340000, al_reject_rate_deg_s = 0x42700000\<rparr>,
      sc_center = \<lparr>ac_enabled = False, ac_tau_mean_s = 0x41C80000, ac_tau_center_s = 0x42B40000,
        ac_max_slew_deg_s = 0x3E4CCCCD, ac_min_resultant = 0x3F000000\<rparr>,
      sc_wear = \<lparr>wc_window_s = 0x40800000, wc_alive_min_deg = 0x3CA3D70A, wc_worn_hold_s = 0x40400000,
        wc_off_hold_s = 0x41200000\<rparr>,
      sc_tap = \<lparr>tc_tap_recenters = True, tc_refractory_s = 0x3F800000, tc_min_worn_s = 0x40000000,
        tc_settle_max_deg_s = 0x41F00000, tc_settle_timeout_s = 0x3F800000\<rparr>\<rparr>"

record stabilizer_status =
  ss_q_out :: quat
  ss_mount_tilt :: quat
  ss_tilt_deg :: f32
  ss_level_confidence :: f32
  ss_yaw_offset_deg :: f32
  ss_worn :: bool
  ss_rest :: bool
  ss_bias_ok :: bool
  ss_level_ready :: bool
  ss_taps :: u32
  ss_level_updates :: u32
  ss_dropped_nonfinite :: u32

definition status_initial :: stabilizer_status where
  "status_initial =
     \<lparr>ss_q_out = quat_identity, ss_mount_tilt = quat_identity, ss_tilt_deg = 0, ss_level_confidence = 0,
      ss_yaw_offset_deg = 0, ss_worn = False, ss_rest = False, ss_bias_ok = False, ss_level_ready = False, ss_taps = 0,
      ss_level_updates = 0, ss_dropped_nonfinite = 0\<rparr>"

record stabilizer =
  sz_cfg :: stabilizer_config
  sz_ref :: recenterer
  sz_have_t :: bool
  sz_last_t_us :: u32
  sz_have_prev_q :: bool
  sz_prev_q :: quat
  sz_tap_prev :: bool
  sz_tap_seeded :: bool
  sz_tap_refractory_left :: f32
  sz_g_ema :: vec3
  sz_g_ema_init :: bool
  sz_dev2_ema :: f32
  sz_worn_time :: f32
  sz_still_time :: f32
  sz_worn :: bool
  sz_worn_stable_s :: f32
  sz_tap_settle_left :: f32
  sz_u_acc :: vec3
  sz_u_init :: bool
  sz_worn_total_s :: f32
  sz_level_ready :: bool
  sz_level_updates :: u32
  sz_z_re :: f32
  sz_z_im :: f32
  sz_center_warm_s :: f32
  sz_taps :: u32
  sz_dropped :: u32
  sz_requests :: u32
  sz_seq :: u32
  sz_snap :: stabilizer_status

definition stabilizer_new :: "stabilizer_config \<Rightarrow> stabilizer" where
  "stabilizer_new cfg =
     \<lparr>sz_cfg = cfg, sz_ref = recenterer_reset, sz_have_t = False, sz_last_t_us = 0, sz_have_prev_q = False,
      sz_prev_q = quat_identity, sz_tap_prev = False, sz_tap_seeded = False, sz_tap_refractory_left = 0,
      sz_g_ema = (0, 0, 0), sz_g_ema_init = False, sz_dev2_ema = 0, sz_worn_time = 0, sz_still_time = 0,
      sz_worn = False, sz_worn_stable_s = 0, sz_tap_settle_left = 0xBF800000, sz_u_acc = (0, 0, 0), sz_u_init = False,
      sz_worn_total_s = 0, sz_level_ready = False, sz_level_updates = 0, sz_z_re = 0, sz_z_im = 0, sz_center_warm_s = 0,
      sz_taps = 0, sz_dropped = 0, sz_requests = 0, sz_seq = 0, sz_snap = status_initial\<rparr>"

definition kReqRecenter :: u32 where [code_defs]: "kReqRecenter = 1"
definition kReqBoresight :: u32 where [code_defs]: "kReqBoresight = 2"
definition kReqClear :: u32 where [code_defs]: "kReqClear = 4"
definition kRad2Deg :: f32 where "kRad2Deg = 0x42652EE0" \<comment> \<open>180.0 / kPi\<close>

text \<open>\<^verbatim>\<open>request_recenter\<close>, \<^verbatim>\<open>request_boresight\<close> and \<^verbatim>\<open>request_clear\<close>, by their bit.\<close>

definition stab_request :: "u32 \<Rightarrow> stabilizer \<Rightarrow> stabilizer" where
  "stab_request req s = s\<lparr>sz_requests := sz_requests s OR req\<rparr>"

definition stab_configure :: "stabilizer_config \<Rightarrow> stabilizer \<Rightarrow> stabilizer" where
  "stab_configure cfg s = s\<lparr>sz_cfg := cfg\<rparr>"

subsection \<open>Helpers\<close>

fun vec_norm :: "host_floats \<Rightarrow> vec3 \<Rightarrow> f32" where
  "vec_norm F (x, y, z) = f_sqrt F (f_add F (f_add F (f_mul F x x) (f_mul F y y)) (f_mul F z z))"

fun vec_angle :: "host_floats \<Rightarrow> vec3 \<Rightarrow> vec3 \<Rightarrow> f32" where
  "vec_angle F (ax, ay, az) (bx, b_y, bz) =
     (let na = vec_norm F (ax, ay, az); nb = vec_norm F (bx, b_y, bz); t = f_mul F; m = f_sub F; p = f_add F in
      if f_less na 0x3089705F \<or> f_less nb 0x3089705F then 0
      else
        (let dot = f_div F (p (p (t ax bx) (t ay b_y)) (t az bz)) (t na nb);
             cx = m (t ay bz) (t az b_y); cy = m (t az bx) (t ax bz); cz = m (t ax b_y) (t ay bx);
             cross = f_div F (vec_norm F (cx, cy, cz)) (t na nb) in
         f_atan2 F cross dot))"

fun quat_angle :: "host_floats \<Rightarrow> quat \<Rightarrow> f32" where
  "quat_angle F (w, x, y, z) =
     (let w = f_abs w; w = (if f_less 0x3F800000 w then 0x3F800000 else w) in f_mul F 0x40000000 (f_acos F w))"

fun quat_dot :: "host_floats \<Rightarrow> quat \<Rightarrow> quat \<Rightarrow> f32" where
  "quat_dot F (aw, ax, ay, az) (w, x, y, z) =
     f_add F (f_add F (f_add F (f_mul F aw w) (f_mul F ax x)) (f_mul F ay y)) (f_mul F az z)"

fun quat_neg :: "quat \<Rightarrow> quat" where
  "quat_neg (w, x, y, z) = (f_neg w, f_neg x, f_neg y, f_neg z)"

fun quat_lerp :: "host_floats \<Rightarrow> quat \<Rightarrow> quat \<Rightarrow> f32 \<Rightarrow> quat" where
  "quat_lerp F (aw, ax, ay, az) (w, x, y, z) t =
     (let l = (\<lambda>a b. f_add F a (f_mul F (f_sub F b a) t)) in (l aw w, l ax x, l ay y, l az z))"

definition quat_step :: "host_floats \<Rightarrow> quat \<Rightarrow> quat \<Rightarrow> f32 \<Rightarrow> quat" where
  "quat_step F a b max_angle =
     (let to = (if f_less (quat_dot F a b) 0 then quat_neg b else b);
          ang = quat_angle F (multiply F (conjugate a) to) in
      if f_le ang max_angle then to
      else normalized F (quat_lerp F a to (f_div F max_angle ang)))"

text \<open>\<^verbatim>\<open>e += a * (v - e)\<close>, for a number and for a vector.\<close>

definition ema :: "host_floats \<Rightarrow> f32 \<Rightarrow> f32 \<Rightarrow> f32 \<Rightarrow> f32" where
  "ema F a v e = f_add F e (f_mul F a (f_sub F v e))"

fun ema3 :: "host_floats \<Rightarrow> f32 \<Rightarrow> vec3 \<Rightarrow> vec3 \<Rightarrow> vec3" where
  "ema3 F a (x, y, z) (ex, ey, ez) = (ema F a x ex, ema F a y ey, ema F a z ez)"

definition reseed_center :: "host_floats \<Rightarrow> f32 \<Rightarrow> stabilizer \<Rightarrow> stabilizer" where
  "reseed_center F phi s = s\<lparr>sz_z_re := f_cos F phi, sz_z_im := f_sin F phi\<rparr>"

text \<open>\<^verbatim>\<open>reseed_center(heading_angle(multiply(q_raw, ref_.tilt())))\<close>.\<close>

definition reseed_at :: "host_floats \<Rightarrow> quat \<Rightarrow> stabilizer \<Rightarrow> stabilizer option" where
  "reseed_at F q s = do {
     phi \<leftarrow> host_heading_angle F (multiply F q (bore_inv (sz_ref s)));
     Some (reseed_center F phi s) }"

definition publish :: "stabilizer_status \<Rightarrow> stabilizer \<Rightarrow> stabilizer" where
  "publish st s = s\<lparr>sz_seq := sz_seq s + 2, sz_snap := st\<rparr>"

subsection \<open>The stages of an update\<close>

definition stab_dt :: "host_floats \<Rightarrow> u32 \<Rightarrow> stabilizer \<Rightarrow> f32 \<times> stabilizer" where
  "stab_dt F t_us s =
     (let dt = (if sz_have_t s
                then (let dt = f_mul F (f_of_u32 F (t_us - sz_last_t_us s)) 0x358637BD in
                      if \<not> f_le 0 dt \<or> f_less 0x3DCCCCCD dt then 0 else dt)
                else 0) in
      (dt, s\<lparr>sz_last_t_us := t_us, sz_have_t := True\<rparr>))"

text \<open>The first sample seeds the edge detector; then the refractory time runs down.\<close>

definition tap_prepare :: "host_floats \<Rightarrow> f32 \<Rightarrow> bool \<Rightarrow> stabilizer \<Rightarrow> stabilizer" where
  "tap_prepare F dt tap_now s =
     (let s = (if \<not> sz_tap_seeded s then s\<lparr>sz_tap_prev := tap_now, sz_tap_seeded := True\<rparr> else s) in
      if f_less 0 (sz_tap_refractory_left s)
      then s\<lparr>sz_tap_refractory_left := f_sub F (sz_tap_refractory_left s) dt\<rparr> else s)"

text \<open>The tap edge; \<open>on_tap\<close> is the callback, which may change what it owns (\<open>'u\<close>) and make requests.\<close>

definition tap_edge :: "('u \<Rightarrow> u32 \<times> 'u) option \<Rightarrow> stabilizer \<times> 'u \<Rightarrow> stabilizer \<times> 'u" where
  "tap_edge on_tap x = (case x of (s, u) \<Rightarrow>
     let cfg = sc_tap (sz_cfg s);
         s = s\<lparr>sz_taps := sz_taps s + 1, sz_tap_refractory_left := tc_refractory_s cfg\<rparr>;
         s = (if tc_tap_recenters cfg \<and> sz_worn s \<and> f_le (tc_min_worn_s cfg) (sz_worn_stable_s s)
              then s\<lparr>sz_tap_settle_left := tc_settle_timeout_s cfg\<rparr> else s) in
     case on_tap of
       None \<Rightarrow> (s, u)
     | Some f \<Rightarrow> (case f u of (bits, u) \<Rightarrow> (stab_request bits s, u)))"

definition stab_tap ::
  "host_floats \<Rightarrow> ('u \<Rightarrow> u32 \<times> 'u) option \<Rightarrow> f32 \<Rightarrow> bool \<Rightarrow> stabilizer \<times> 'u \<Rightarrow> stabilizer \<times> 'u" where
  "stab_tap F on_tap dt tap_now x = (case x of (s, u) \<Rightarrow>
     let s = tap_prepare F dt tap_now s in
     apfst (\<lambda>s. s\<lparr>sz_tap_prev := tap_now\<rparr>)
       (if tap_now \<and> \<not> sz_tap_prev s \<and> f_le (sz_tap_refractory_left s) 0 then tap_edge on_tap (s, u) else (s, u)))"

definition stab_requests :: "host_floats \<Rightarrow> quat \<Rightarrow> stabilizer \<Rightarrow> stabilizer option" where
  "stab_requests F q s = (let req = sz_requests s; s = s\<lparr>sz_requests := 0\<rparr> in do {
     s \<leftarrow> (if req AND kReqClear \<noteq> 0 then reseed_at F q (s\<lparr>sz_ref := recenterer_reset\<rparr>) else Some s);
     s \<leftarrow> (if req AND kReqBoresight \<noteq> 0
          then reseed_at F q (s\<lparr>sz_ref := boresight F q (sz_ref s), sz_u_init := False\<rparr>) else Some s);
     (if req AND kReqRecenter \<noteq> 0 then reseed_at F q (s\<lparr>sz_ref := recenter F q (sz_ref s)\<rparr>) else Some s) })"

text \<open>Wear detection: alive for long enough is worn, still for long enough or one large step is not.\<close>

definition wear_hold :: "host_floats \<Rightarrow> bool \<Rightarrow> f32 \<Rightarrow> stabilizer \<Rightarrow> stabilizer" where
  "wear_hold F alive dt s =
     (let cfg = sc_wear (sz_cfg s) in
      if alive then
        (let s = s\<lparr>sz_worn_time := f_add F (sz_worn_time s) dt, sz_still_time := 0\<rparr> in
         if f_le (wc_worn_hold_s cfg) (sz_worn_time s) then s\<lparr>sz_worn := True\<rparr> else s)
      else
        (let s = s\<lparr>sz_still_time := f_add F (sz_still_time s) dt, sz_worn_time := 0\<rparr> in
         if f_le (wc_off_hold_s cfg) (sz_still_time s) then s\<lparr>sz_worn := False\<rparr> else s))"

definition stab_wear :: "host_floats \<Rightarrow> vec3 \<Rightarrow> f32 \<Rightarrow> stabilizer \<Rightarrow> stabilizer" where
  "stab_wear F g_s dt s =
     (if \<not> f_less 0 dt then s
      else
        (let cfg = sc_wear (sz_cfg s); a_g = f_div F dt (f_add F 0x3F000000 dt);
             s = (if \<not> sz_g_ema_init s then s\<lparr>sz_g_ema := g_s, sz_g_ema_init := True\<rparr>
                  else s\<lparr>sz_g_ema := ema3 F a_g g_s (sz_g_ema s)\<rparr>);
             dev = vec_angle F g_s (sz_g_ema s);
             s = (if f_less (f_mul F 0x41A00000 kDeg2Rad) dev
                  then s\<lparr>sz_worn := False, sz_worn_time := 0, sz_still_time := 0\<rparr> else s);
             a_w = f_div F dt (f_add F (wc_window_s cfg) dt);
             s = s\<lparr>sz_dev2_ema := ema F a_w (f_mul F dev dev) (sz_dev2_ema s)\<rparr>;
             alive = f_less (f_mul F (wc_alive_min_deg cfg) kDeg2Rad) (f_sqrt F (sz_dev2_ema s));
             s = wear_hold F alive dt s in
         s\<lparr>sz_worn_stable_s := (if sz_worn s then f_add F (sz_worn_stable_s s) dt else 0)\<rparr>))"

definition stab_rate :: "host_floats \<Rightarrow> quat \<Rightarrow> f32 \<Rightarrow> stabilizer \<Rightarrow> f32 \<times> stabilizer" where
  "stab_rate F q dt s =
     ((if sz_have_prev_q s \<and> f_less 0 dt then f_div F (quat_angle F (multiply F (conjugate (sz_prev_q s)) q)) dt else 0),
      s\<lparr>sz_prev_q := q, sz_have_prev_q := True\<rparr>)"

definition stab_settle :: "host_floats \<Rightarrow> quat \<Rightarrow> f32 \<Rightarrow> f32 \<Rightarrow> stabilizer \<Rightarrow> stabilizer option" where
  "stab_settle F q rate dt s =
     (if \<not> f_le 0 (sz_tap_settle_left s) then Some s
      else
        (let s = s\<lparr>sz_tap_settle_left := f_sub F (sz_tap_settle_left s) dt\<rparr> in
         if f_less rate (f_mul F (tc_settle_max_deg_s (sc_tap (sz_cfg s))) kDeg2Rad) \<or> f_le (sz_tap_settle_left s) 0
         then do {
           s \<leftarrow> reseed_at F q (s\<lparr>sz_ref := recenter F q (sz_ref s)\<rparr>);
           Some (s\<lparr>sz_tap_settle_left := 0xBF800000\<rparr>) }
         else Some s))"

definition level_step :: "host_floats \<Rightarrow> quat \<Rightarrow> f32 \<Rightarrow> stabilizer \<Rightarrow> stabilizer option" where
  "level_step F q dt s =
     (let cfg = sc_level (sz_cfg s); target = conjugate (shortest_arc_to_down F (sz_u_acc s)); tilt = quat_angle F target in
      if \<not> f_less tilt (f_mul F (al_max_tilt_deg cfg) kDeg2Rad) then Some s
      else
        (let cur = bore_inv (sz_ref s); step = f_mul F (f_mul F (al_max_slew_deg_s cfg) kDeg2Rad) dt;
             next_q = quat_step F cur target step; moved = quat_angle F (multiply F (conjugate cur) next_q) in
         if \<not> f_less 0x33D6BF95 moved then Some s
         else do {
           (delta, r) \<leftarrow> set_tilt F next_q q (sz_ref s);
           (let c = f_cos F delta; sn = f_sin F delta; zr = sz_z_re s; zi = sz_z_im s in
            Some (s\<lparr>sz_ref := r, sz_z_re := f_sub F (f_mul F zr c) (f_mul F zi sn),
              sz_z_im := f_add F (f_mul F zr sn) (f_mul F zi c), sz_level_updates := sz_level_updates s + 1,
              sz_level_ready := True\<rparr>)) }))"

definition level_gather :: "host_floats \<Rightarrow> vec3 \<Rightarrow> f32 \<Rightarrow> stabilizer \<Rightarrow> stabilizer" where
  "level_gather F g_s dt s =
     (let a_u = f_div F dt (f_add F (al_tau_s (sc_level (sz_cfg s))) dt);
          s = (if \<not> sz_u_init s then s\<lparr>sz_u_acc := g_s, sz_u_init := True\<rparr>
               else s\<lparr>sz_u_acc := ema3 F a_u g_s (sz_u_acc s)\<rparr>) in
      s\<lparr>sz_worn_total_s := f_add F (sz_worn_total_s s) dt\<rparr>)"

definition stab_level :: "host_floats \<Rightarrow> quat \<Rightarrow> vec3 \<Rightarrow> f32 \<Rightarrow> f32 \<Rightarrow> stabilizer \<Rightarrow> stabilizer option" where
  "stab_level F q g_s rate dt s =
     (let cfg = sc_level (sz_cfg s) in
      if \<not> (al_enabled cfg \<and> sz_worn s \<and> f_less 0 dt \<and> f_less rate (f_mul F (al_reject_rate_deg_s cfg) kDeg2Rad)) then Some s
      else
        (let s = level_gather F g_s dt s in
         if f_le (al_warmup_s cfg) (sz_worn_total_s s) \<and> f_less 0x3F000000 (vec_norm F (sz_u_acc s))
         then level_step F q dt s else Some s))"

text \<open>The correction of the yaw: limited to \<open>cap\<close> on either side.\<close>

definition center_clamp :: "f32 \<Rightarrow> f32 \<Rightarrow> f32" where
  "center_clamp cap step = (if f_less cap step then cap else if f_less step (f_neg cap) then f_neg cap else step)"

definition center_cap :: "host_floats \<Rightarrow> f32 \<Rightarrow> stabilizer \<Rightarrow> f32" where
  "center_cap F dt s = f_mul F (f_mul F (ac_max_slew_deg_s (sc_center (sz_cfg s))) kDeg2Rad) dt"

definition center_step :: "host_floats \<Rightarrow> f32 \<Rightarrow> stabilizer \<Rightarrow> stabilizer option" where
  "center_step F dt s = do {
     let m = f_atan2 F (sz_z_im s) (sz_z_re s);
     yaw \<leftarrow> yaw_angle F (sz_ref s);
     err \<leftarrow> host_wrap_pi F (f_sub F (f_neg m) yaw);
     let step = f_div F (f_mul F err dt) (ac_tau_center_s (sc_center (sz_cfg s)));
     yaw \<leftarrow> yaw_angle F (sz_ref s);
     a \<leftarrow> host_wrap_pi F (f_add F yaw (center_clamp (center_cap F dt s) step));
     Some (s\<lparr>sz_ref := set_yaw_angle F a (sz_ref s)\<rparr>) }"

definition center_gather :: "host_floats \<Rightarrow> f32 \<Rightarrow> f32 \<Rightarrow> stabilizer \<Rightarrow> stabilizer" where
  "center_gather F phi dt s =
     (let a_m = f_div F dt (f_add F (ac_tau_mean_s (sc_center (sz_cfg s))) dt) in
      s\<lparr>sz_z_re := ema F a_m (f_cos F phi) (sz_z_re s), sz_z_im := ema F a_m (f_sin F phi) (sz_z_im s),
        sz_center_warm_s := f_add F (sz_center_warm_s s) dt\<rparr>)"

definition stab_center :: "host_floats \<Rightarrow> quat \<Rightarrow> f32 \<Rightarrow> stabilizer \<Rightarrow> stabilizer option" where
  "stab_center F q dt s =
     (if \<not> f_less 0 dt then Some s
      else (let cfg = sc_center (sz_cfg s) in do {
        phi \<leftarrow> host_heading_angle F (multiply F q (bore_inv (sz_ref s)));
        let s = center_gather F phi dt s;
        (if ac_enabled cfg \<and> sz_worn s \<and> f_le (ac_tau_mean_s cfg) (sz_center_warm_s s) \<and>
           f_less (ac_min_resultant cfg)
             (f_sqrt F (f_add F (f_mul F (sz_z_re s) (sz_z_re s)) (f_mul F (sz_z_im s) (sz_z_im s))))
         then center_step F dt s else Some s) }))"

definition stab_status :: "host_floats \<Rightarrow> quat \<Rightarrow> u8 \<Rightarrow> stabilizer \<Rightarrow> stabilizer_status option" where
  "stab_status F q_out flags s = do {
     yaw \<leftarrow> yaw_angle F (sz_ref s);
     Some \<lparr>ss_q_out = q_out, ss_mount_tilt = bore_inv (sz_ref s),
       ss_tilt_deg = f_mul F (quat_angle F (bore_inv (sz_ref s))) kRad2Deg,
       ss_level_confidence = (if sz_u_init s then vec_norm F (sz_u_acc s) else 0),
       ss_yaw_offset_deg = f_mul F yaw kRad2Deg, ss_worn = sz_worn s, ss_rest = (flags AND HTK_ORIENT_REST \<noteq> 0),
       ss_bias_ok = (flags AND HTK_ORIENT_BIAS_OK \<noteq> 0), ss_level_ready = sz_level_ready s, ss_taps = sz_taps s,
       ss_level_updates = sz_level_updates s, ss_dropped_nonfinite = sz_dropped s\<rparr> }"

definition stab_output :: "host_floats \<Rightarrow> quat \<Rightarrow> u8 \<Rightarrow> stabilizer \<Rightarrow> (quat \<times> stabilizer) option" where
  "stab_output F q flags s = do {
     let q_out = rc_apply F q (sz_ref s);
     st \<leftarrow> stab_status F q_out flags s;
     Some (q_out, publish st s) }"

definition poisoned :: "htk_orient \<Rightarrow> bool" where
  "poisoned p \<longleftrightarrow> \<not> (f_num (or_q_w p) \<and> f_num (or_q_x p) \<and> f_num (or_q_y p) \<and> f_num (or_q_z p))"

definition stab_update ::
  "host_floats \<Rightarrow> ('u \<Rightarrow> u32 \<times> 'u) option \<Rightarrow> htk_orient \<Rightarrow> stabilizer \<times> 'u \<Rightarrow> (quat \<times> stabilizer \<times> 'u) option" where
  "stab_update F on_tap p x = (case x of (s, u) \<Rightarrow>
     if poisoned p then
       (let s = s\<lparr>sz_dropped := sz_dropped s + 1\<rparr> in Some (ss_q_out (sz_snap s), s, u))
     else do {
       let q = quat_of F p;
       let (dt, s) = stab_dt F (or_t_us p) s;
       let (s, u) = stab_tap F on_tap dt (or_flags p AND HTK_ORIENT_TAP \<noteq> 0) (s, u);
       s \<leftarrow> stab_requests F q s;
       let g_s = host_gravity_body F q;
       let s = stab_wear F g_s dt s;
       let (rate, s) = stab_rate F q dt s;
       s \<leftarrow> stab_settle F q rate dt s;
       s \<leftarrow> stab_level F q g_s rate dt s;
       s \<leftarrow> stab_center F q dt s;
       (q_out, s) \<leftarrow> stab_output F q (or_flags p) s;
       Some (q_out, s, u) })"

subsection \<open>What each stage leaves alone\<close>

text \<open>The parts of the state that decide whether the reference may move.\<close>

definition same_gate :: "stabilizer \<Rightarrow> stabilizer \<Rightarrow> bool" where
  "same_gate s s' \<longleftrightarrow> sz_ref s' = sz_ref s \<and> sz_worn s' = sz_worn s \<and> sz_tap_settle_left s' = sz_tap_settle_left s \<and>
     sz_requests s' = sz_requests s \<and> sz_level_updates s' = sz_level_updates s"

lemma same_gate_trans: "same_gate a b \<Longrightarrow> same_gate b c \<Longrightarrow> same_gate a c"
  by (simp add: same_gate_def)

lemma dt_gate: "stab_dt F t s = (dt, s') \<Longrightarrow> same_gate s s'"
  by (auto simp: stab_dt_def same_gate_def Let_def)

lemma rate_gate: "stab_rate F q dt s = (rate, s') \<Longrightarrow> same_gate s s'"
  by (auto simp: stab_rate_def same_gate_def)

text \<open>A callback that makes no request.\<close>

definition silent :: "('u \<Rightarrow> u32 \<times> 'u) option \<Rightarrow> bool" where
  "silent on_tap \<longleftrightarrow> (case on_tap of None \<Rightarrow> True | Some f \<Rightarrow> \<forall>u. fst (f u) = 0)"

lemma tap_gate:
  assumes "stab_tap F on_tap dt tap (s, u) = (s', u')" and "\<not> sz_worn s" and "silent on_tap"
  shows "same_gate s s'"
proof -
  let ?t = "tap_prepare F dt tap s"
  have t: "same_gate s ?t" by (simp add: tap_prepare_def same_gate_def Let_def)
  have "same_gate ?t e" if "tap_edge on_tap (?t, u) = (e, v)" for e v
    using that t assms(2,3) by (auto simp: tap_edge_def same_gate_def stab_request_def silent_def Let_def
        split: option.splits prod.splits if_splits) (metis fst_conv or.right_neutral)+
  with assms(1) t show ?thesis
    by (auto simp: stab_tap_def same_gate_def Let_def apfst_def map_prod_def split: prod.splits if_splits)
qed

lemma requests_gate: "stab_requests F q s = Some s' \<Longrightarrow> sz_requests s = 0 \<Longrightarrow> same_gate s s'"
  by (auto simp: stab_requests_def same_gate_def Let_def)

lemma wear_gate: "sz_worn (stab_wear F g dt s) = sz_worn s \<Longrightarrow> same_gate s (stab_wear F g dt s)"
  by (auto simp: stab_wear_def wear_hold_def same_gate_def Let_def)

text \<open>A tap-recenter waits for the head to settle.\<close>

definition tap_pending :: "stabilizer \<Rightarrow> bool" where
  "tap_pending s \<longleftrightarrow> f_le 0 (sz_tap_settle_left s)"

text \<open>What a sample does to the reference while nothing but a waiting tap-recenter may move it.\<close>

definition settled_by :: "host_floats \<Rightarrow> quat \<Rightarrow> stabilizer \<Rightarrow> stabilizer \<Rightarrow> bool" where
  "settled_by F q s s' \<longleftrightarrow> sz_requests s' = sz_requests s \<and> sz_level_updates s' = sz_level_updates s \<and>
     (if sz_ref s' = sz_ref s then tap_pending s' \<longrightarrow> tap_pending s
      else tap_pending s \<and> \<not> tap_pending s' \<and> sz_ref s' = recenter F q (sz_ref s))"

lemma settled_by_gate: "same_gate s s' \<Longrightarrow> settled_by F q s s'"
  by (simp add: same_gate_def settled_by_def tap_pending_def)

lemma gate_settled_by: "same_gate a b \<Longrightarrow> settled_by F q b c \<Longrightarrow> same_gate c d \<Longrightarrow> settled_by F q a d"
  by (auto simp: same_gate_def settled_by_def tap_pending_def split: if_splits)

lemma no_tap_waits: "\<not> f_le 0 0xBF800000"
  by code_simp

lemma reseed_fields:
  "reseed_at F q s = Some s' \<Longrightarrow> sz_ref s' = sz_ref s \<and> sz_worn s' = sz_worn s \<and> sz_requests s' = sz_requests s \<and>
    sz_level_updates s' = sz_level_updates s"
  by (auto simp: reseed_at_def reseed_center_def bind_eq_Some_conv)

lemma settle_gate:
  assumes "stab_settle F q rate dt s = Some s'"
  shows "sz_worn s' = sz_worn s \<and> settled_by F q s s'"
proof (cases "tap_pending s")
  case True
  with assms show ?thesis
    by (auto simp: stab_settle_def settled_by_def tap_pending_def no_tap_waits Let_def bind_eq_Some_conv
        dest!: reseed_fields split: if_split_asm)
next
  case False
  with assms show ?thesis by (simp add: stab_settle_def settled_by_def tap_pending_def)
qed

lemma level_step_keeps: "level_step F q dt s = Some s' \<Longrightarrow> sz_worn s' = sz_worn s"
  unfolding level_step_def Let_def by (auto simp: bind_eq_Some_conv split: if_split_asm)

lemma level_gather_keeps: "sz_worn (level_gather F g dt s) = sz_worn s"
  by (simp add: level_gather_def Let_def)

lemma level_gate:
  assumes "stab_level F q g rate dt s = Some s'"
  shows "sz_worn s' = sz_worn s \<and> (\<not> sz_worn s \<longrightarrow> same_gate s s')"
proof (cases "sz_worn s")
  case True
  with assms show ?thesis
    by (auto simp: stab_level_def Let_def level_gather_keeps dest!: level_step_keeps split: if_split_asm)
next
  case False
  with assms show ?thesis by (simp add: stab_level_def same_gate_def Let_def)
qed

lemma center_gather_gate: "same_gate s (center_gather F phi dt s)"
  by (simp add: center_gather_def same_gate_def Let_def)

lemma center_step_keeps: "center_step F dt s = Some s' \<Longrightarrow> sz_worn s' = sz_worn s"
  unfolding center_step_def Let_def by (auto simp: bind_eq_Some_conv)

lemma center_gate:
  assumes "stab_center F q dt s = Some s'"
  shows "sz_worn s' = sz_worn s \<and> (\<not> sz_worn s \<longrightarrow> same_gate s s')"
proof (cases "f_less 0 dt")
  case False
  with assms show ?thesis by (simp add: stab_center_def same_gate_def)
next
  case True
  with assms obtain phi where "s' = center_gather F phi dt s \<or> sz_worn (center_gather F phi dt s) \<and>
      center_step F dt (center_gather F phi dt s) = Some s'"
    unfolding stab_center_def Let_def by (auto simp: bind_eq_Some_conv split: if_split_asm)
  then show ?thesis using center_gather_gate [of s F phi dt] center_step_keeps [of F dt _ s']
    by (auto simp: same_gate_def)
qed

lemma output_gate: "stab_output F q flags s = Some (q_out, s') \<Longrightarrow> same_gate s s' \<and> ss_q_out (sz_snap s') = q_out"
  by (auto simp: stab_output_def stab_status_def publish_def same_gate_def Let_def bind_eq_Some_conv)

text \<open>The stages of an update that is not cut short.\<close>

lemma stab_update_stages:
  assumes "stab_update F on_tap p (s, u) = Some (q_out, s', u')" and "\<not> poisoned p"
  obtains dt s1 s2 s3 rate s5 s6 s7 s8 where
    "stab_dt F (or_t_us p) s = (dt, s1)"
    "stab_tap F on_tap dt (or_flags p AND HTK_ORIENT_TAP \<noteq> 0) (s1, u) = (s2, u')"
    "stab_requests F (quat_of F p) s2 = Some s3"
    "stab_rate F (quat_of F p) dt (stab_wear F (host_gravity_body F (quat_of F p)) dt s3) = (rate, s5)"
    "stab_settle F (quat_of F p) rate dt s5 = Some s6"
    "stab_level F (quat_of F p) (host_gravity_body F (quat_of F p)) rate dt s6 = Some s7"
    "stab_center F (quat_of F p) dt s7 = Some s8"
    "stab_output F (quat_of F p) (or_flags p) s8 = Some (q_out, s')"
proof -
  let ?q = "quat_of F p" and ?tap = "or_flags p AND HTK_ORIENT_TAP \<noteq> 0"
  obtain dt s1 where 1: "stab_dt F (or_t_us p) s = (dt, s1)" by fastforce
  obtain s2 v where 2: "stab_tap F on_tap dt ?tap (s1, u) = (s2, v)" by fastforce
  let ?g = "host_gravity_body F ?q"
  from assms 1 2 obtain s3 where 3: "stab_requests F ?q s2 = Some s3"
    by (auto simp: stab_update_def Let_def bind_eq_Some_conv)
  obtain rate s5 where 4: "stab_rate F ?q dt (stab_wear F ?g dt s3) = (rate, s5)" by fastforce
  note run = assms(1) [unfolded stab_update_def prod.case Let_def if_not_P [OF assms(2)] 1 2 3 4 Option.bind.simps]
  show ?thesis using run that [OF 1 _ 3 4] 2 by (auto simp: bind_eq_Some_conv)
qed

lemma update_gate:
  assumes "stab_update F on_tap p (s, u) = Some (q_out, s', u')" and "silent on_tap"
    and "sz_requests s = 0" and "\<not> sz_worn s" and "\<not> sz_worn s'"
  shows "if poisoned p then same_gate s s' else settled_by F (quat_of F p) s s'"
proof (cases "poisoned p")
  case True
  with assms(1) show ?thesis by (auto simp: stab_update_def same_gate_def)
next
  case False
  show ?thesis
  proof (rule stab_update_stages [OF assms(1) False])
    fix dt s1 s2 s3 rate s5 s6 s7 s8
    let ?w = "stab_wear F (host_gravity_body F (quat_of F p)) dt s3"
    assume st: "stab_dt F (or_t_us p) s = (dt, s1)"
      "stab_tap F on_tap dt (or_flags p AND HTK_ORIENT_TAP \<noteq> 0) (s1, u) = (s2, u')"
      "stab_requests F (quat_of F p) s2 = Some s3"
      "stab_rate F (quat_of F p) dt ?w = (rate, s5)"
      "stab_settle F (quat_of F p) rate dt s5 = Some s6"
      "stab_level F (quat_of F p) (host_gravity_body F (quat_of F p)) rate dt s6 = Some s7"
      "stab_center F (quat_of F p) dt s7 = Some s8"
      "stab_output F (quat_of F p) (or_flags p) s8 = Some (q_out, s')"
    have g1: "same_gate s s1" by (rule dt_gate [OF st(1)])
    have "same_gate s1 s2" using g1 assms(4) by (intro tap_gate [OF st(2) _ assms(2)]) (simp add: same_gate_def)
    with g1 have g2: "same_gate s s2" by (rule same_gate_trans)
    have "same_gate s2 s3" using g2 assms(3) by (intro requests_gate [OF st(3)]) (simp add: same_gate_def)
    with g2 have g3: "same_gate s s3" by (rule same_gate_trans)
    note ends = settle_gate [OF st(5)] level_gate [OF st(6)] center_gate [OF st(7)] output_gate [OF st(8)] rate_gate [OF st(4)]
    have w: "\<not> sz_worn ?w" "\<not> sz_worn s5" "\<not> sz_worn s6" "\<not> sz_worn s7" using ends assms(5) by (auto simp: same_gate_def)
    have "same_gate s3 ?w" using w g3 assms(4) by (intro wear_gate) (simp add: same_gate_def)
    with g3 have "same_gate s ?w" by (rule same_gate_trans)
    then have g5: "same_gate s s5" using ends(5) by (rule same_gate_trans)
    have "same_gate s6 s'" using w ends by (meson same_gate_trans)
    with g5 ends(1) False show ?thesis by (auto intro: gate_settled_by)
  qed
qed

subsection \<open>Properties\<close>

text \<open>Samples \<open>ps\<close> come in, the settings may be changed, and nobody asks for anything, while the unit is not worn.\<close>

inductive unworn_run ::
  "host_floats \<Rightarrow> ('u \<Rightarrow> u32 \<times> 'u) option \<Rightarrow> stabilizer \<times> 'u \<Rightarrow> htk_orient list \<Rightarrow> stabilizer \<times> 'u \<Rightarrow> bool"
  for F on_tap x0 where
  here: "unworn_run F on_tap x0 [] x0"
| step: "unworn_run F on_tap x0 ps (s, u) \<Longrightarrow> stab_update F on_tap p (s, u) = Some (q, s', u') \<Longrightarrow> \<not> sz_worn s' \<Longrightarrow>
    unworn_run F on_tap x0 (ps @ [p]) (s', u')"
| settings: "unworn_run F on_tap x0 ps (s, u) \<Longrightarrow> unworn_run F on_tap x0 ps (stab_configure cfg s, u)"

lemma unworn_run_keeps:
  assumes "unworn_run F on_tap (s0, u0) ps (s, u)" and "silent on_tap" and "\<not> sz_worn s0" and "sz_requests s0 = 0"
  shows "\<not> sz_worn s \<and> sz_requests s = 0 \<and> sz_level_updates s = sz_level_updates s0 \<and>
    (if sz_ref s = sz_ref s0 then tap_pending s \<longrightarrow> tap_pending s0
     else tap_pending s0 \<and> \<not> tap_pending s \<and> (\<exists>p \<in> set ps. \<not> poisoned p \<and> sz_ref s = recenter F (quat_of F p) (sz_ref s0)))"
  using assms(1)
proof (induction ps "(s, u)" arbitrary: s u rule: unworn_run.induct)
  case here
  then show ?case using assms(3,4) by simp
next
  case (step ps s u p q s' u')
  have "if poisoned p then same_gate s s' else settled_by F (quat_of F p) s s'"
    using step by (intro update_gate [OF step(3) assms(2)]) auto
  then have m: "sz_requests s' = sz_requests s" "sz_level_updates s' = sz_level_updates s"
    "if sz_ref s' = sz_ref s then tap_pending s' \<longrightarrow> tap_pending s
     else tap_pending s \<and> \<not> tap_pending s' \<and> \<not> poisoned p \<and> sz_ref s' = recenter F (quat_of F p) (sz_ref s)"
    by (auto simp: same_gate_def settled_by_def tap_pending_def split: if_splits)
  from step(2,4) m show ?case by (cases "sz_ref s = sz_ref s0"; cases "sz_ref s' = sz_ref s") auto
next
  case (settings ps s u cfg)
  then show ?case by (auto simp: stab_configure_def tap_pending_def split: if_splits)
qed

text \<open>C23. A unit that is not worn keeps its frame: from any state in which it is not worn and no request waits, whatever samples arrive,
  poisoned ones and taps included, and whatever is configured, as long as it is not found worn and nobody requests anything,
  auto-level does nothing and the reference does not move; so headphones on a desk cannot corrupt the frame. There is one exception, and no
  other: if a tap-recenter was already accepted and still waits for the head to settle when the unit is taken off, it is carried out
  all the same, at most once and with one of these samples; from the start (\<open>stabilizer_new\<close>) there is none. A sample with a number that is not
  finite changes nothing but its counter, and the last good output is given again.\<close>

theorem reference_needs_wearer:
  assumes "silent on_tap" and "unworn_run F on_tap (s0, u0) ps (s, u)" and "\<not> sz_worn s0" and "sz_requests s0 = 0"
  shows "sz_level_updates s = sz_level_updates s0 \<and>
    (if tap_pending s0 then sz_ref s \<in> insert (sz_ref s0) ((\<lambda>p. recenter F (quat_of F p) (sz_ref s0)) ` {p \<in> set ps. \<not> poisoned p})
     else sz_ref s = sz_ref s0 \<and> \<not> tap_pending s) \<and> \<not> tap_pending (stabilizer_new cfg) \<and>
    (\<forall>p. poisoned p \<longrightarrow> stab_update F on_tap p (s, u) =
      Some (ss_q_out (sz_snap s), s\<lparr>sz_dropped := sz_dropped s + 1\<rparr>, u))"
proof -
  note run = unworn_run_keeps [OF assms(2,1,3,4)]
  have "\<not> tap_pending (stabilizer_new cfg)" by (simp add: tap_pending_def stabilizer_new_def no_tap_waits)
  moreover have "stab_update F on_tap p (s, u) = Some (ss_q_out (sz_snap s), s\<lparr>sz_dropped := sz_dropped s + 1\<rparr>, u)"
    if "poisoned p" for p using that by (simp add: stab_update_def)
  ultimately show ?thesis using run by (cases "sz_ref s = sz_ref s0") auto
qed

text \<open>A witness takes a degenerate arithmetic: a good sample with a tap in it, then a poisoned one.\<close>

definition toy_host :: host_floats where
  "toy_host = float_ops.extend toy_ops (host_floats.fields (\<lambda>x. x) (\<lambda>x. x))"

definition good_sample :: htk_orient where
  "good_sample = \<lparr>or_type = HTK_PKT_ORIENT, or_id = 1, or_seq = 0, or_t_us = 5, or_q_w = 0x3F800000, or_q_x = 0, or_q_y = 0, or_q_z = 0, or_flags = 0\<rparr>"

lemma reference_needs_wearer_witness:
  "\<exists>s. unworn_run toy_host None (stabilizer_new stabilizer_config_default, ()) [good_sample, good_sample\<lparr>or_flags := HTK_ORIENT_TAP\<rparr>] (s, ()) \<and> sz_taps s = 1 \<and>
     sz_ref s = recenterer_reset \<and>
     stab_update toy_host None (good_sample\<lparr>or_q_w := 0x7FC00000\<rparr>) (s, ()) =
       Some (ss_q_out (sz_snap s), s\<lparr>sz_dropped := sz_dropped s + 1\<rparr>, ())"
proof -
  let ?x0 = "stabilizer_new stabilizer_config_default" and ?tapped = "good_sample\<lparr>or_flags := HTK_ORIENT_TAP\<rparr>"
  let ?up = "\<lambda>p s. the (stab_update toy_host None p (s, ()))" and ?st = "\<lambda>r :: quat \<times> stabilizer \<times> unit. fst (snd r)"
  let ?s1 = "?st (?up good_sample ?x0)" and ?s2 = "?st (?up ?tapped (?st (?up good_sample ?x0)))"
  have e: "stab_update toy_host None good_sample (?x0, ()) \<noteq> None"
    "stab_update toy_host None ?tapped (?s1, ()) \<noteq> None" "\<not> sz_worn ?s1" "\<not> sz_worn ?s2" "sz_taps ?s2 = 1"
    "poisoned (good_sample\<lparr>or_q_w := 0x7FC00000\<rparr>)" by code_simp+
  have up: "stab_update F None p (s, ()) = Some (fst (the r), ?st (the r), ())" if "r \<noteq> None" "r = stab_update F None p (s, ())"
    for F p s r using that by auto
  have run: "unworn_run toy_host None (?x0, ()) [good_sample, ?tapped] (?s2, ())"
    using unworn_run.step [OF unworn_run.step [OF unworn_run.here up [OF e(1) refl] e(3)] up [OF e(2) refl] e(4)] by simp
  have off: "silent (None :: (unit \<Rightarrow> u32 \<times> unit) option)" "\<not> sz_worn ?x0" "sz_requests ?x0 = 0" "sz_ref ?x0 = recenterer_reset"
    "\<not> tap_pending ?x0" by (simp_all add: silent_def stabilizer_new_def tap_pending_def no_tap_waits)
  note kept = reference_needs_wearer [OF off(1) run off(2,3), of stabilizer_config_default, unfolded off(4) if_not_P [OF off(5)]]
  show ?thesis using kept e(5,6) by (intro exI [of _ ?s2] conjI run) blast+
qed

text \<open>The exception is real: a unit that was taken off with a tap-recenter waiting gets a new front from the sample of the desk.\<close>

lemma waiting_tap_recenters_unworn:
  "let s = (stabilizer_new stabilizer_config_default)\<lparr>sz_tap_settle_left := 0x3F800000\<rparr>;
       s' = fst (snd (the (stab_update toy_host None (good_sample\<lparr>or_q_w := 0, or_q_z := 0x3F800000\<rparr>) (s, ()))))
   in \<not> sz_worn s \<and> sz_requests s = 0 \<and> \<not> sz_worn s' \<and> sz_ref s' \<noteq> sz_ref s"
  by code_simp

text \<open>Auto-center only acts on a worn unit, only turns the yaw, and by a correction clamped to the slew limit for the time step.\<close>

theorem center_moves_slowly:
  assumes "stab_center F q dt s = Some s'"
  shows "sz_ref s' = sz_ref s \<or>
    ac_enabled (sc_center (sz_cfg s)) \<and> sz_worn s \<and>
    (\<exists>y d a. yaw_angle F (sz_ref s) = Some y \<and> host_wrap_pi F (f_add F y d) = Some a \<and>
       sz_ref s' = (sz_ref s)\<lparr>yaw_inv := yaw_quat F a\<rparr> \<and>
       (f_le 0 (center_cap F dt s) \<longrightarrow> f_nan d \<or> f_le (f_neg (center_cap F dt s)) d \<and> f_le d (center_cap F dt s)))"
proof (cases "f_less 0 dt")
  case False
  with assms show ?thesis by (simp add: stab_center_def)
next
  case True
  have g: "sz_ref (center_gather F phi dt s) = sz_ref s" "sz_worn (center_gather F phi dt s) = sz_worn s"
    "center_cap F dt (center_gather F phi dt s) = center_cap F dt s" for phi
    by (simp_all add: center_gather_def center_cap_def Let_def)
  from True assms obtain phi where c: "s' = center_gather F phi dt s \<or> ac_enabled (sc_center (sz_cfg s)) \<and> sz_worn s \<and>
      center_step F dt (center_gather F phi dt s) = Some s'"
    unfolding stab_center_def Let_def by (auto simp: bind_eq_Some_conv g split: if_split_asm)
  have clamp: "f_le 0 cap \<Longrightarrow> f_nan (center_clamp cap e) \<or> f_le (f_neg cap) (center_clamp cap e) \<and> f_le (center_clamp cap e) cap" for cap e
    by (auto simp: center_clamp_def f_le_def f_less_def)
  have step: "\<exists>y e a. yaw_angle F (sz_ref t) = Some y \<and> host_wrap_pi F (f_add F y (center_clamp (center_cap F dt t) e)) = Some a \<and>
      sz_ref t' = (sz_ref t)\<lparr>yaw_inv := yaw_quat F a\<rparr>" if "center_step F dt t = Some t'" for t t'
    using that by (simp add: center_step_def Let_def bind_eq_Some_conv set_yaw_angle_def) force
  from c show ?thesis
  proof (elim disjE conjE)
    assume w: "ac_enabled (sc_center (sz_cfg s))" "sz_worn s" and "center_step F dt (center_gather F phi dt s) = Some s'"
    from step [OF this(3)] obtain y a e where "yaw_angle F (sz_ref s) = Some y"
      "host_wrap_pi F (f_add F y (center_clamp (center_cap F dt s) e)) = Some a"
      "sz_ref s' = (sz_ref s)\<lparr>yaw_inv := yaw_quat F a\<rparr>" by (auto simp: g)
    with w clamp [of "center_cap F dt s" e] show ?thesis by blast
  qed (simp add: g)
qed

lemma center_moves_slowly_witness:
  "\<exists>s s'. ac_enabled (sc_center (sz_cfg s)) \<and> stab_center toy_host quat_identity 0x3F800000 s = Some s' \<and>
     sz_ref s' \<noteq> sz_ref s \<and> (\<exists>a. sz_ref s' = (sz_ref s)\<lparr>yaw_inv := yaw_quat toy_host a\<rparr>)"
proof -
  let ?cfg = "stabilizer_config_default\<lparr>sc_center := (sc_center stabilizer_config_default)\<lparr>ac_enabled := True\<rparr>\<rparr>"
  let ?s = "(stabilizer_new ?cfg)\<lparr>sz_worn := True, sz_center_warm_s := 0x42C80000, sz_z_re := 0x3F800000, sz_z_im := 0x3F800000\<rparr>"
  let ?run = "stab_center toy_host quat_identity 0x3F800000 ?s"
  have e: "?run \<noteq> None" "sz_ref (the ?run) \<noteq> sz_ref ?s" "ac_enabled (sc_center (sz_cfg ?s))" by code_simp+
  then have r: "?run = Some (the ?run)" by simp
  from center_moves_slowly [OF r] e show ?thesis by (intro exI [of _ ?s] exI [of _ "the ?run"] conjI r) blast+
qed

end
