(* ===== verification/Seqlock.thy ===== *)
theory Seqlock
  imports Stabilizer
begin

text \<open>
  The status of the stabilizer as other threads see it: \<^verbatim>\<open>Stabilizer::publish\<close> and \<^verbatim>\<open>Stabilizer::status\<close>,
  \<^verbatim>\<open>host/libheadtracker/src/stabilizer.cpp\<close>, a sequence lock.

  Every access of the two threads to \<^verbatim>\<open>seq_\<close> and to each number of \<^verbatim>\<open>snap_\<close> takes effect in a step of its own. The
  steps of a thread need not come in the order of the program: a step may be taken before an earlier access of the
  same thread has been, unless the memory orders of the code forbid it. A release store waits for everything before it, and
  nothing waits for a plain access or passes an acquire load from after it. So the store of the odd number, although it is a
  release store, does not hold back the copy that follows it, and the second load of \<^verbatim>\<open>seq_\<close>, although it is an acquire
  load, does not wait for the copy before it. \<open>fences\<close> says where the program has a fence in addition; the
  code has none. Successive publications do not overlap here: a second one begins when the last store of the first has
  taken effect.
\<close>

unbundle bit_operations_syntax

subsection \<open>The structure as memory\<close>

text \<open>\<^verbatim>\<open>snap_\<close> is copied number by number: \<open>status_words\<close> are the numbers of a status, \<open>of_words\<close> puts them together.\<close>

definition quat_words :: "quat \<Rightarrow> u32 list" where
  "quat_words q = (case q of (w, x, y, z) \<Rightarrow> [w, x, y, z])"

definition status_words :: "stabilizer_status \<Rightarrow> nat \<Rightarrow> u32" where
  "status_words s k =
     (quat_words (ss_q_out s) @ quat_words (ss_mount_tilt s) @
      [ss_tilt_deg s, ss_level_confidence s, ss_yaw_offset_deg s, of_bool (ss_worn s), of_bool (ss_rest s),
       of_bool (ss_bias_ok s), of_bool (ss_level_ready s), ss_taps s, ss_level_updates s, ss_dropped_nonfinite s]) ! k"

definition of_words :: "(nat \<Rightarrow> u32) \<Rightarrow> stabilizer_status" where
  "of_words m = \<lparr>ss_q_out = (m 0, m 1, m 2, m 3), ss_mount_tilt = (m 4, m 5, m 6, m 7), ss_tilt_deg = m 8,
     ss_level_confidence = m 9, ss_yaw_offset_deg = m 10, ss_worn = (m 11 \<noteq> 0), ss_rest = (m 12 \<noteq> 0), ss_bias_ok = (m 13 \<noteq> 0),
     ss_level_ready = (m 14 \<noteq> 0), ss_taps = m 15, ss_level_updates = m 16, ss_dropped_nonfinite = m 17\<rparr>"

definition WORDS :: "nat list" where
  "WORDS = [0, 1, 2, 3, 4, 5, 6, 7, 8, 9, 10, 11, 12, 13, 14, 15, 16, 17]"

lemma of_words_eq: "\<forall>k \<in> set WORDS. m k = status_words s k \<Longrightarrow> of_words m = s"
  by (cases s) (simp add: WORDS_def of_words_def status_words_def quat_words_def split: prod.splits)

subsection \<open>The writer and the reader\<close>

text \<open>
  \<open>Publishing v st opened left\<close>: \<^verbatim>\<open>publish(st)\<close> has loaded \<open>v\<close>; \<open>opened\<close> says whether the store of \<open>v + 1\<close> has taken effect,
  \<open>left\<close> are the numbers whose store has not. \<open>Reading a left acc again\<close>: \<^verbatim>\<open>status()\<close> has loaded \<open>a\<close>, the
  numbers in \<open>left\<close> are not loaded yet, \<open>again\<close> is what the second load of \<^verbatim>\<open>seq_\<close> gave, when it has taken effect.
\<close>

datatype writer = Idle | Publishing u32 stabilizer_status bool "nat list"
datatype reader = Looking | Reading u32 "nat list" "nat \<Rightarrow> u32" "u32 option" | Returned stabilizer_status

text \<open>Is there a fence between the first store and the copy of \<^verbatim>\<open>publish\<close>, and between the copy and the second load of \<^verbatim>\<open>status\<close>?\<close>

record fences =
  write_fence :: bool
  read_fence :: bool

definition code_fences :: fences where
  "code_fences = \<lparr>write_fence = False, read_fence = False\<rparr>"

text \<open>
  For the specification, \<open>lk_log\<close> is what has been published, the newest first, \<open>lk_last\<close> the newest when the second load
  took effect, and \<open>lk_stores\<close> counts the stores of \<^verbatim>\<open>seq_\<close>, \<open>lk_since\<close> those since the first load.
\<close>

record seqlock =
  lk_seq :: u32
  lk_snap :: "nat \<Rightarrow> u32"
  lk_writer :: writer
  lk_reader :: reader
  lk_log :: "stabilizer_status list"
  lk_last :: stabilizer_status
  lk_stores :: nat
  lk_since :: nat

definition seqlock_new :: seqlock where
  "seqlock_new = \<lparr>lk_seq = 0, lk_snap = status_words status_initial, lk_writer = Idle, lk_reader = Looking,
     lk_log = [status_initial], lk_last = status_initial, lk_stores = 0, lk_since = 0\<rparr>"

definition store_seq :: "u32 \<Rightarrow> seqlock \<Rightarrow> seqlock" where
  "store_seq v s = s\<lparr>lk_seq := v, lk_stores := lk_stores s + 1, lk_since := lk_since s + 1\<rparr>"

datatype write_turn = Publish stabilizer_status | StoreOdd | StoreWord nat | StoreEven
datatype read_turn = LoadSeq | LoadWord nat | LoadSeqAgain | Compare

text \<open>One access of \<^verbatim>\<open>publish\<close>; a turn that the orders do not allow at this point does nothing.\<close>

definition write_step :: "fences \<Rightarrow> write_turn \<Rightarrow> seqlock \<Rightarrow> seqlock" where
  "write_step f t s =
     (case lk_writer s of
        Idle \<Rightarrow> (case t of Publish st \<Rightarrow> s\<lparr>lk_writer := Publishing (lk_seq s) st False WORDS\<rparr> | _ \<Rightarrow> s)
      | Publishing v st opened left \<Rightarrow>
          (case t of
             Publish _ \<Rightarrow> s
           | StoreOdd \<Rightarrow> if opened then s else (store_seq (v + 1) s)\<lparr>lk_writer := Publishing v st True left\<rparr>
           | StoreWord k \<Rightarrow>
               if k \<in> set left \<and> (opened \<or> \<not> write_fence f)
               then s\<lparr>lk_snap := (lk_snap s)(k := status_words st k), lk_writer := Publishing v st opened (removeAll k left)\<rparr>
               else s
           | StoreEven \<Rightarrow>
               if opened \<and> left = [] then (store_seq (v + 2) s)\<lparr>lk_writer := Idle, lk_log := st # lk_log s\<rparr> else s))"

text \<open>One access of \<^verbatim>\<open>status\<close>, or the comparison at the end of its loop.\<close>

definition read_step :: "fences \<Rightarrow> read_turn \<Rightarrow> seqlock \<Rightarrow> seqlock" where
  "read_step f t s =
     (case lk_reader s of
        Reading a left acc again \<Rightarrow>
          (case t of
             LoadSeq \<Rightarrow> s
           | LoadWord k \<Rightarrow>
               if k \<in> set left then s\<lparr>lk_reader := Reading a (removeAll k left) (acc(k := lk_snap s k)) again\<rparr> else s
           | LoadSeqAgain \<Rightarrow>
               if again = None \<and> (left = [] \<or> \<not> read_fence f)
               then s\<lparr>lk_reader := Reading a left acc (Some (lk_seq s)), lk_last := hd (lk_log s)\<rparr> else s
           | Compare \<Rightarrow>
               if left = [] \<and> again \<noteq> None
               then s\<lparr>lk_reader := (if again = Some a then Returned (of_words acc) else Looking)\<rparr> else s)
      | _ \<Rightarrow>
          (if t \<noteq> LoadSeq then s
           else if lk_seq s AND 1 \<noteq> 0 then s\<lparr>lk_reader := Looking\<rparr>
           else s\<lparr>lk_reader := Reading (lk_seq s) WORDS (\<lambda>k. 0) None, lk_since := 0\<rparr>))"

datatype lock_turn = Write write_turn | Read read_turn

definition lock_run :: "fences \<Rightarrow> lock_turn list \<Rightarrow> seqlock \<Rightarrow> seqlock" where
  "lock_run f ts s = fold (\<lambda>t. case t of Write w \<Rightarrow> write_step f w | Read r \<Rightarrow> read_step f r) ts s"

subsection \<open>With both fences\<close>

definition holds :: "(nat \<Rightarrow> u32) \<Rightarrow> stabilizer_status \<Rightarrow> nat set \<Rightarrow> bool" where
  "holds m st ks \<longleftrightarrow> (\<forall>k \<in> ks. m k = status_words st k)"

lemma holds_store: "holds m st (ks - ls) \<Longrightarrow> holds (m(k := status_words st k)) st (ks - (ls - {k}))"
  by (auto simp: holds_def)

lemma holds_simps [simp]: "holds m st {}" "holds (status_words st) st ks"
  by (simp_all add: holds_def)

lemma holds_whole: "holds m st (set WORDS) \<Longrightarrow> of_words m = st"
  by (rule of_words_eq) (simp add: holds_def)

definition writer_inv :: "seqlock \<Rightarrow> bool" where
  "writer_inv s \<longleftrightarrow>
     (case lk_writer s of
        Idle \<Rightarrow> even (lk_seq s) \<and> holds (lk_snap s) (hd (lk_log s)) (set WORDS)
      | Publishing v st opened left \<Rightarrow> even v \<and>
          (if opened then lk_seq s = v + 1 \<and> holds (lk_snap s) st (set WORDS - set left)
           else lk_seq s = v \<and> left = WORDS \<and> holds (lk_snap s) (hd (lk_log s)) (set WORDS)))"

definition few_stores :: "seqlock \<Rightarrow> bool" where
  "few_stores s \<longleftrightarrow> lk_stores s < 2 ^ 32"

definition reader_inv :: "seqlock \<Rightarrow> bool" where
  "reader_inv s \<longleftrightarrow> lk_since s \<le> lk_stores s \<and>
     (case lk_reader s of
        Looking \<Rightarrow> True
      | Reading a left acc None \<Rightarrow> even a \<and> lk_seq s = a + of_nat (lk_since s) \<and>
          (lk_since s = 0 \<longrightarrow> (\<forall>k \<in> set WORDS - set left. acc k = lk_snap s k))
      | Reading a left acc (Some b) \<Rightarrow> left = [] \<and>
          (a = b \<and> few_stores s \<longrightarrow> of_words acc = lk_last s)
      | Returned r \<Rightarrow> few_stores s \<longrightarrow> r = lk_last s)"

lemma odd_and_1: "(v :: u32) AND 1 \<noteq> 0 \<longleftrightarrow> odd v"
  by (simp add: and_one_eq odd_iff_mod_2_eq_one even_iff_mod_2_eq_zero)

lemma writer_write:
  assumes "writer_inv s" and "write_fence f"
  shows "writer_inv (write_step f t s)"
proof (cases "lk_writer s")
  case Idle
  with assms show ?thesis by (cases t) (simp_all add: writer_inv_def write_step_def)
next
  case (Publishing v st opened left)
  show ?thesis
  proof (cases t)
    case (StoreWord k)
    with Publishing assms show ?thesis by (simp add: writer_inv_def write_step_def holds_store)
  next
    case StoreOdd
    with Publishing assms show ?thesis by (simp add: writer_inv_def write_step_def store_seq_def)
  next
    case StoreEven
    with Publishing assms show ?thesis by (auto simp: writer_inv_def write_step_def store_seq_def)
  next
    case (Publish st')
    with Publishing assms show ?thesis by (simp add: write_step_def)
  qed
qed

lemma read_keeps: "lk_writer (read_step f t s) = lk_writer s" "lk_seq (read_step f t s) = lk_seq s"
  "lk_snap (read_step f t s) = lk_snap s" "lk_log (read_step f t s) = lk_log s"
  by (cases "lk_reader s"; cases t; simp add: read_step_def)+

lemma writer_read: "writer_inv s \<Longrightarrow> writer_inv (read_step f t s)"
  by (cases "lk_writer s") (simp_all add: writer_inv_def read_keeps)

text \<open>While the number is the one that the reader has loaded, the copy of the writer has not begun.\<close>

lemma words_still:
  assumes "writer_inv s" and "write_fence f" and "even (lk_seq s)"
  shows "lk_snap (write_step f t s) = lk_snap s"
proof (cases "lk_writer s")
  case (Publishing v st opened left)
  with assms(1,3) have "\<not> opened" by (auto simp: writer_inv_def)
  with Publishing assms(2) show ?thesis by (cases t) (simp_all add: write_step_def store_seq_def)
qed (cases t; simp add: write_step_def)

lemma write_counts:
  "lk_reader (write_step f t s) = lk_reader s" "lk_last (write_step f t s) = lk_last s"
  "(lk_stores (write_step f t s) = lk_stores s \<and> lk_since (write_step f t s) = lk_since s \<and> lk_seq (write_step f t s) = lk_seq s) \<or>
   (lk_stores (write_step f t s) = lk_stores s + 1 \<and> lk_since (write_step f t s) = lk_since s + 1 \<and>
    (writer_inv s \<longrightarrow> lk_seq (write_step f t s) = lk_seq s + 1))"
  by (cases "lk_writer s"; cases t; simp add: write_step_def store_seq_def writer_inv_def)+

lemma few_write: "few_stores (write_step f t s) \<Longrightarrow> few_stores s"
  using write_counts(3) [of f t s] by (auto simp: few_stores_def)

lemma reader_write:
  assumes "writer_inv s" and "reader_inv s" and "write_fence f"
  shows "reader_inv (write_step f t s)"
proof -
  let ?s = "write_step f t s"
  note c = write_counts [of f t s]
  have le: "lk_since ?s \<le> lk_stores ?s" using c(3) assms(2) by (auto simp: reader_inv_def)
  show ?thesis
  proof (cases "lk_reader s")
    case (Reading a left acc again)
    show ?thesis
    proof (cases again)
      case None
      with assms(2) Reading have r: "even a" "lk_seq s = a + of_nat (lk_since s)"
        "lk_since s = 0 \<Longrightarrow> \<forall>k \<in> set WORDS - set left. acc k = lk_snap s k" by (simp_all add: reader_inv_def)
      have "lk_seq ?s = a + of_nat (lk_since ?s)"
        using c(3) assms(1) r(2) by (elim disjE) (simp_all add: ac_simps)
      moreover have "\<forall>k \<in> set WORDS - set left. acc k = lk_snap ?s k" if "lk_since ?s = 0"
      proof -
        have "lk_since s = 0" using that c(3) by auto
        with r words_still [OF assms(1,3), of t] show ?thesis by simp
      qed
      ultimately show ?thesis using Reading None r(1) c(1) le by (simp add: reader_inv_def)
    next
      case (Some b)
      with Reading assms(2) c(1,2) le few_write [of f t s] show ?thesis by (simp add: reader_inv_def)
    qed
  qed (use assms(2) c(1,2) le few_write [of f t s] in \<open>simp_all add: reader_inv_def\<close>)
qed

text \<open>The number that was loaded twice has not been stored in between.\<close>

lemma since_zero:
  assumes "(a :: u32) + of_nat n = a" and "n < 2 ^ 32"
  shows "n = 0"
proof -
  from assms(1) have "of_nat n = (0 :: u32)" by simp
  then have "2 ^ 32 dvd n" by (simp add: word_of_nat_eq_0_iff)
  with assms(2) show ?thesis by (auto dest: dvd_imp_le)
qed

lemma looked_again:
  assumes "writer_inv s" and "reader_inv s" and "lk_reader s = Reading a [] acc None" and "a = lk_seq s" and "few_stores s"
  shows "of_words acc = hd (lk_log s)"
proof -
  from assms(2,3) have r: "even a" "lk_seq s = a + of_nat (lk_since s)" "lk_since s \<le> lk_stores s"
    "lk_since s = 0 \<Longrightarrow> \<forall>k \<in> set WORDS. acc k = lk_snap s k" by (simp_all add: reader_inv_def)
  from r(3) assms(5) have "lk_since s < 2 ^ 32" unfolding few_stores_def by (rule le_less_trans)
  moreover have "a + of_nat (lk_since s) = a" using r(2) assms(4) by simp
  ultimately have "lk_since s = 0" by (intro since_zero)
  note words = r(4) [OF this]
  have "even (lk_seq s)" using r(1) assms(4) by simp
  with assms(1) have "holds (lk_snap s) (hd (lk_log s)) (set WORDS)"
    by (cases "lk_writer s") (simp_all add: writer_inv_def split: if_splits)
  with words have "holds acc (hd (lk_log s)) (set WORDS)" by (simp add: holds_def)
  then show ?thesis by (rule holds_whole)
qed

lemma reader_read:
  assumes "writer_inv s" and "reader_inv s" and "read_fence f"
  shows "reader_inv (read_step f t s)"
proof (cases "lk_reader s")
  case (Reading a left acc again)
  show ?thesis
  proof (cases t)
    case LoadSeqAgain
    show ?thesis
    proof (cases "again = None \<and> left = []")
      case True
      with looked_again [OF assms(1,2), of a acc] assms(2) Reading LoadSeqAgain show ?thesis
        by (simp add: reader_inv_def read_step_def few_stores_def)
    next
      case False
      with assms Reading LoadSeqAgain show ?thesis by (auto simp: read_step_def)
    qed
  next
    case (LoadWord k)
    show ?thesis
    proof (cases "again = None \<and> k \<in> set left")
      case True
      with assms(2) Reading have r: "even a" "lk_seq s = a + of_nat (lk_since s)" "lk_since s \<le> lk_stores s"
        "lk_since s = 0 \<Longrightarrow> \<forall>k \<in> set WORDS - set left. acc k = lk_snap s k" by (simp_all add: reader_inv_def)
      have "\<forall>j \<in> set WORDS - (set left - {k}). (acc(k := lk_snap s k)) j = lk_snap s j" if "lk_since s = 0"
        using r(4) [OF that] by simp blast
      with r(1-3) True LoadWord Reading show ?thesis by (simp add: reader_inv_def read_step_def)
    next
      case False
      with assms(2) Reading LoadWord have "k \<notin> set left" by (auto simp: reader_inv_def)
      with assms(2) Reading LoadWord show ?thesis by (simp add: read_step_def)
    qed
  next
    case LoadSeq
    with assms(2) Reading show ?thesis by (simp add: read_step_def)
  next
    case Compare
    with assms(2) Reading show ?thesis by (cases again) (auto simp: reader_inv_def read_step_def few_stores_def)
  qed
qed (use assms(2) in \<open>cases t; simp add: reader_inv_def read_step_def odd_and_1 few_stores_def\<close>)+

lemma run_inv:
  "writer_inv s \<Longrightarrow> reader_inv s \<Longrightarrow> write_fence f \<Longrightarrow> read_fence f \<Longrightarrow>
    writer_inv (lock_run f ts s) \<and> reader_inv (lock_run f ts s)"
  unfolding lock_run_def
  by (induction ts arbitrary: s) (auto simp: writer_write reader_write writer_read reader_read split: lock_turn.split)

lemma new_inv: "writer_inv seqlock_new" "reader_inv seqlock_new"
  by (simp_all add: writer_inv_def reader_inv_def seqlock_new_def)

subsection \<open>Without one of them\<close>

definition one_tap :: stabilizer_status where
  "one_tap = status_initial\<lparr>ss_tilt_deg := 0x3F800000, ss_taps := 1\<rparr>"

text \<open>Without the first fence the copy may begin before the number is odd; without the second the number may be looked at
  again before the copy has been read. In both schedules the reader gets the new count of taps with the old angle.\<close>

definition early_copy :: "lock_turn list" where
  "early_copy = [Write (Publish one_tap), Write (StoreWord 15), Read LoadSeq] @ map (Read \<circ> LoadWord) WORDS @
     [Read LoadSeqAgain, Read Compare]"

definition early_look :: "lock_turn list" where
  "early_look = [Read LoadSeq, Read LoadSeqAgain, Write (Publish one_tap), Write StoreOdd, Write (StoreWord 15)] @
     map (Read \<circ> LoadWord) WORDS @ [Read Compare]"

lemma torn_reads:
  "\<not> write_fence f \<Longrightarrow> lk_reader (lock_run f early_copy seqlock_new) = Returned (status_initial\<lparr>ss_taps := 1\<rparr>) \<and>
     lk_log (lock_run f early_copy seqlock_new) = [status_initial] \<and> lk_stores (lock_run f early_copy seqlock_new) = 0"
  "\<not> read_fence f \<Longrightarrow> lk_reader (lock_run f early_look seqlock_new) = Returned (status_initial\<lparr>ss_taps := 1\<rparr>) \<and>
     lk_log (lock_run f early_look seqlock_new) = [status_initial] \<and> lk_stores (lock_run f early_look seqlock_new) = 1"
  by (simp_all add: early_copy_def early_look_def lock_run_def write_step_def read_step_def seqlock_new_def store_seq_def
    WORDS_def one_tap_def status_initial_def status_words_def quat_words_def quat_identity_def of_words_def)

lemma torn_not_published: "status_initial\<lparr>ss_taps := 1\<rparr> \<noteq> status_initial"
  by (simp add: status_initial_def)

subsection \<open>A publication alone\<close>

text \<open>In program order and undisturbed, a publication is the one step \<open>publish\<close> of the stabilizer.\<close>

definition publish_turns :: "stabilizer_status \<Rightarrow> lock_turn list" where
  "publish_turns st = map Write ([Publish st, StoreOdd] @ map StoreWord WORDS @ [StoreEven])"

lemma publish_alone:
  assumes "lk_writer s = Idle"
  shows "lk_seq (lock_run f (publish_turns st) s) = lk_seq s + 2"
    and "of_words (lk_snap (lock_run f (publish_turns st) s)) = st"
    and "lk_log (lock_run f (publish_turns st) s) = st # lk_log s"
  using assms by (simp_all add: publish_turns_def lock_run_def write_step_def store_seq_def WORDS_def of_words_eq)

subsection \<open>Properties\<close>

text \<open>C8. What the sequence lock is worth depends on two fences. With one between the odd store and the copy in \<open>publish\<close> and one
  between the copy and the second load in \<open>status\<close>, every status that is returned is whole, namely the one that had been
  published last when the second load took effect, in every interleaving of the accesses, as long as the number has been stored less than
  2^32 times. If either is missing, the memory orders allow a run in which a status is returned that has never been
  published; and the code (\<open>code_fences\<close>) has neither.\<close>

theorem status_whole_iff_fenced:
  "if write_fence f \<and> read_fence f
   then \<forall>ts r. lk_reader (lock_run f ts seqlock_new) = Returned r \<and> lk_stores (lock_run f ts seqlock_new) < 2 ^ 32 \<longrightarrow>
     r = lk_last (lock_run f ts seqlock_new)
   else \<exists>ts r. lk_reader (lock_run f ts seqlock_new) = Returned r \<and> lk_stores (lock_run f ts seqlock_new) < 2 ^ 32 \<and>
     r \<notin> set (lk_log (lock_run f ts seqlock_new))"
proof (cases "write_fence f \<and> read_fence f")
  case True
  with run_inv [OF new_inv, of f] have inv: "reader_inv (lock_run f ts seqlock_new)" for ts by blast
  have "r = lk_last (lock_run f ts seqlock_new)"
    if "lk_reader (lock_run f ts seqlock_new) = Returned r" "lk_stores (lock_run f ts seqlock_new) < 2 ^ 32" for ts r
    using inv [of ts] that by (simp add: reader_inv_def few_stores_def)
  with True show ?thesis by simp
next
  case False
  then consider "\<not> write_fence f" | "\<not> read_fence f" by blast
  then show ?thesis
  proof cases
    case 1
    with torn_reads(1) [OF 1] torn_not_published show ?thesis by (auto intro!: exI [of _ early_copy])
  next
    case 2
    with torn_reads(2) [OF 2] torn_not_published show ?thesis by (auto intro!: exI [of _ early_look])
  qed
qed

text \<open>The witness: what the code allows.\<close>

lemma status_whole_iff_fenced_witness:
  "\<exists>ts r. lk_reader (lock_run code_fences ts seqlock_new) = Returned r \<and> r \<notin> set (lk_log (lock_run code_fences ts seqlock_new))"
  using status_whole_iff_fenced [of code_fences] by (auto simp: code_fences_def)

end
