(* ===== verification/Vqf_Math.thy ===== *)
theory Vqf_Math
  imports Fusion
begin

text \<open>
  The static helpers of the VQF filter, \<^verbatim>\<open>firmware/common/fusion/vqf/vqf.cpp\<close>, as the firmware and the host
  tests build it: \<^verbatim>\<open>VQF_SINGLE_PRECISION\<close>, so that \<^verbatim>\<open>vqf_real_t\<close> is \<^verbatim>\<open>float\<close> and only the low-pass filters are in
  \<^verbatim>\<open>double\<close>, with motion bias estimation. Arrays are lists, of the length of the array; an argument that the code
  both reads and writes is returned. All array accesses are at constant indices or in a loop over the length.
\<close>

subsection \<open>Arithmetic\<close>

text \<open>A \<^verbatim>\<open>double\<close> is its bit pattern as well. Comparison and NaN are fixed by the format, the operations are parameters.\<close>

type_synonym f64 = "64 word"

definition d_mag :: "f64 \<Rightarrow> int" where
  "d_mag x = uint (x AND 0x7FFFFFFFFFFFFFFF)"

definition d_nan :: "f64 \<Rightarrow> bool" where
  "d_nan x \<longleftrightarrow> d_mag x > 0x7FF0000000000000"

definition d_key :: "f64 \<Rightarrow> int" where
  "d_key x = (if bit x 63 then - d_mag x else d_mag x)"

definition d_le :: "f64 \<Rightarrow> f64 \<Rightarrow> bool" where
  "d_le x y \<longleftrightarrow> \<not> d_nan x \<and> \<not> d_nan y \<and> d_key x \<le> d_key y"

record vqf_arith = float_ops +
  v_acos :: "f32 \<Rightarrow> f32"
  v_asin :: "f32 \<Rightarrow> f32"
  v_exp :: "f32 \<Rightarrow> f32"
  d_add :: "f64 \<Rightarrow> f64 \<Rightarrow> f64"
  d_sub :: "f64 \<Rightarrow> f64 \<Rightarrow> f64"
  d_mul :: "f64 \<Rightarrow> f64 \<Rightarrow> f64"
  d_div :: "f64 \<Rightarrow> f64 \<Rightarrow> f64"
  d_tan :: "f64 \<Rightarrow> f64"
  d_of :: "f32 \<Rightarrow> f64"
  d_to :: "f64 \<Rightarrow> f32"

definition V_EPS :: f32 where "V_EPS = 0x34000000" \<comment> \<open>2^-23\<close>
definition D_NaN :: f64 where "D_NaN = 0x7FF8000000000000"
definition D_1 :: f64 where "D_1 = 0x3FF0000000000000"
definition D_2 :: f64 where "D_2 = 0x4000000000000000"
definition D_PI :: f64 where "D_PI = 0x400921FB54442D18"
definition D_SQRT2 :: f64 where "D_SQRT2 = 0x3FF6A09E667F3BCD" \<comment> \<open>std::sqrt(2)\<close>
definition D_FC :: f64 where "D_FC = 0x3FCCCF6429BE6622" \<comment> \<open>SQRT2 / (2.0*PI)\<close>

lemmas d_const_defs = D_NaN_def D_1_def D_2_def D_PI_def D_SQRT2_def D_FC_def

lemma d_nan_NaN [simp]: "d_nan D_NaN"
  by code_simp

definition square :: "vqf_arith \<Rightarrow> f32 \<Rightarrow> f32" where
  "square A x = f_mul A x x"

text \<open>\<^verbatim>\<open>std::max\<close> and \<^verbatim>\<open>std::min\<close>, which prefer their first argument.\<close>

definition std_max :: "f32 \<Rightarrow> f32 \<Rightarrow> f32" where
  "std_max a b = (if f_less a b then b else a)"

definition std_min :: "f32 \<Rightarrow> f32 \<Rightarrow> f32" where
  "std_min a b = (if f_less b a then b else a)"

subsection \<open>Quaternions and vectors\<close>

definition quatMultiply :: "vqf_arith \<Rightarrow> f32 list \<Rightarrow> f32 list \<Rightarrow> f32 list" where
  "quatMultiply A q1 q2 =
     (let t = (\<lambda>i j. f_mul A (q1 ! i) (q2 ! j)); p = f_add A; m = f_sub A in
      [m (m (m (t 0 0) (t 1 1)) (t 2 2)) (t 3 3),
       m (p (p (t 0 1) (t 1 0)) (t 2 3)) (t 3 2),
       p (p (m (t 0 2) (t 1 3)) (t 2 0)) (t 3 1),
       p (m (p (t 0 3) (t 1 2)) (t 2 1)) (t 3 0)])"

definition quatConj :: "f32 list \<Rightarrow> f32 list" where
  "quatConj q = [q ! 0, f_neg (q ! 1), f_neg (q ! 2), f_neg (q ! 3)]"

definition quatSetToIdentity :: "f32 list" where
  "quatSetToIdentity = [0x3F800000, 0, 0, 0]"

definition quatApplyDelta :: "vqf_arith \<Rightarrow> f32 list \<Rightarrow> f32 \<Rightarrow> f32 list" where
  "quatApplyDelta A q delta =
     (let h = f_div A delta 0x40000000; c = f_cos A h; s = f_sin A h; t = f_mul A; p = f_add A; m = f_sub A in
      [m (t c (q ! 0)) (t s (q ! 3)), m (t c (q ! 1)) (t s (q ! 2)), p (t c (q ! 2)) (t s (q ! 1)),
       p (t c (q ! 3)) (t s (q ! 0))])"

definition quatRotate :: "vqf_arith \<Rightarrow> f32 list \<Rightarrow> f32 list \<Rightarrow> f32 list" where
  "quatRotate A q v =
     (let t = f_mul A; p = f_add A; m = f_sub A; two = 0x40000000;
          q0 = q ! 0; q1 = q ! 1; q2 = q ! 2; q3 = q ! 3; v0 = v ! 0; v1 = v ! 1; v2 = v ! 2;
          diag = (\<lambda>a b. m (m 0x3F800000 (t (t two a) a)) (t (t two b) b)) in
      [p (p (t (diag q2 q3) v0) (t (t two v1) (m (t q2 q1) (t q0 q3)))) (t (t two v2) (p (t q0 q2) (t q3 q1))),
       p (p (t (t two v0) (p (t q0 q3) (t q2 q1))) (t v1 (diag q1 q3))) (t (t two v2) (m (t q2 q3) (t q1 q0))),
       p (p (t (t two v0) (m (t q3 q1) (t q0 q2))) (t (t two v1) (p (t q0 q1) (t q3 q2)))) (t v2 (diag q1 q2))])"

definition v_norm :: "vqf_arith \<Rightarrow> f32 list \<Rightarrow> f32" where
  "v_norm A xs = f_sqrt A (foldl (\<lambda>s x. f_add A s (f_mul A x x)) 0 xs)"

definition v_normalize :: "vqf_arith \<Rightarrow> f32 list \<Rightarrow> f32 list" where
  "v_normalize A xs = (let n = v_norm A xs in if f_less n V_EPS then xs else map (\<lambda>x. f_div A x n) xs)"

definition v_clip :: "f32 \<Rightarrow> f32 \<Rightarrow> f32 list \<Rightarrow> f32 list" where
  "v_clip lo hi xs = map (\<lambda>x. if f_less x lo then lo else if f_less hi x then hi else x) xs"

subsection \<open>Gains and low-pass filters\<close>

text \<open>The assertions that \<^verbatim>\<open>Ts\<close> and \<^verbatim>\<open>tau\<close> are positive are not part of a build with \<^verbatim>\<open>NDEBUG\<close> and are left out.\<close>

definition gainFromTau :: "vqf_arith \<Rightarrow> f32 \<Rightarrow> f32 \<Rightarrow> f32" where
  "gainFromTau A tau ts =
     (if f_less tau 0 then 0
      else if f_eq tau 0 then 0x3F800000
      else f_sub A 0x3F800000 (v_exp A (f_div A (f_neg ts) tau)))"

definition filterCoeffs :: "vqf_arith \<Rightarrow> f32 \<Rightarrow> f32 \<Rightarrow> f64 list \<times> f64 list" where
  "filterCoeffs A tau ts =
     (if f_less tau (f_div A ts 0x40000000) then ([D_1, 0, 0], [0, 0])
      else
        (let fc = d_div A D_FC (d_of A tau); C = d_tan A (d_mul A (d_mul A D_PI fc) (d_of A ts)); CC = d_mul A C C;
             D = d_add A (d_add A CC (d_mul A D_SQRT2 C)) D_1; b0 = d_div A CC D in
         ([b0, d_mul A D_2 b0, b0],
          [d_div A (d_mul A D_2 (d_sub A CC D_1)) D, d_div A (d_add A (d_sub A D_1 (d_mul A D_SQRT2 C)) CC) D])))"

definition filterInitialState :: "vqf_arith \<Rightarrow> f32 \<Rightarrow> f64 list \<Rightarrow> f64 list \<Rightarrow> f64 list" where
  "filterInitialState A x0 b a =
     [d_mul A (d_of A x0) (d_sub A D_1 (b ! 0)), d_mul A (d_of A x0) (d_sub A (b ! 2) (a ! 1))]"

text \<open>The pair of state entries that belongs to the \<open>i\<close>-th channel.\<close>

definition channel :: "f64 list \<Rightarrow> nat \<Rightarrow> f64 list" where
  "channel st i = [st ! (2 * i), st ! (2 * i + 1)]"

definition filterAdaptStateForCoeffChange ::
  "vqf_arith \<Rightarrow> f32 list \<Rightarrow> f64 list \<Rightarrow> f64 list \<Rightarrow> f64 list \<Rightarrow> f64 list \<Rightarrow> f64 list \<Rightarrow> f64 list" where
  "filterAdaptStateForCoeffChange A last_y b_old a_old b_new a_new st =
     (if d_nan (st ! 0) then st
      else concat (map (\<lambda>i.
        [d_add A (st ! (2 * i)) (d_mul A (d_sub A (b_old ! 0) (b_new ! 0)) (d_of A (last_y ! i))),
         d_add A (st ! (2 * i + 1))
           (d_mul A (d_add A (d_sub A (d_sub A (b_old ! 1) (b_new ! 1)) (a_old ! 0)) (a_new ! 0)) (d_of A (last_y ! i)))])
        [0..<length last_y]))"

definition filterStep :: "vqf_arith \<Rightarrow> f32 \<Rightarrow> f64 list \<Rightarrow> f64 list \<Rightarrow> f64 list \<Rightarrow> f32 \<times> f64 list" where
  "filterStep A x b a st =
     (let xd = d_of A x; y = d_add A (d_mul A (b ! 0) xd) (st ! 0) in
      (d_to A y,
       [d_add A (d_sub A (d_mul A (b ! 1) xd) (d_mul A (a ! 0) y)) (st ! 1), d_sub A (d_mul A (b ! 2) xd) (d_mul A (a ! 1) y)]))"

text \<open>
  \<^verbatim>\<open>filterVec\<close>: the output and the new state. While the first entry is not a number the filter averages: the
  second entry counts, the next \<open>N\<close> sum, and the rest keep what they were.
\<close>

definition filter_start :: "f64 list \<Rightarrow> nat \<Rightarrow> f64 list" where
  "filter_start st n = (if d_nan (st ! 1) then [st ! 0, 0] @ replicate n 0 @ drop (2 + n) st else st)"

definition filter_average :: "vqf_arith \<Rightarrow> f32 list \<Rightarrow> f64 list \<Rightarrow> f32 list \<times> f64 list" where
  "filter_average A xs st =
     (let n = length xs; count = d_add A (st ! 1) D_1;
          sums = map (\<lambda>i. d_add A (st ! (2 + i)) (d_of A (xs ! i))) [0..<n] in
      (map (\<lambda>s. d_to A (d_div A s count)) sums, [st ! 0, count] @ sums @ drop (2 + n) st))"

definition filterVec ::
  "vqf_arith \<Rightarrow> f32 list \<Rightarrow> f32 \<Rightarrow> f32 \<Rightarrow> f64 list \<Rightarrow> f64 list \<Rightarrow> f64 list \<Rightarrow> f32 list \<times> f64 list" where
  "filterVec A xs tau ts b a st =
     (if d_nan (st ! 0) then
        (let (out, st) = filter_average A xs (filter_start st (length xs)) in
         (out,
          if f_le tau (f_mul A (d_to A (st ! 1)) ts)
          then concat (map (\<lambda>x. filterInitialState A x b a) out) @ drop (2 * length xs) st else st))
      else
        (let steps = map (\<lambda>i. filterStep A (xs ! i) b a (channel st i)) [0..<length xs] in
         (map fst steps, concat (map snd steps))))"

subsection \<open>Three by three matrices\<close>

definition matrix3SetToScaledIdentity :: "f32 \<Rightarrow> f32 list" where
  "matrix3SetToScaledIdentity c = [c, 0, 0, 0, c, 0, 0, 0, c]"

definition row_sum :: "vqf_arith \<Rightarrow> f32 list \<Rightarrow> f32 list \<Rightarrow> nat \<times> nat \<Rightarrow> nat \<times> nat \<Rightarrow> nat \<times> nat \<Rightarrow> f32" where
  "row_sum A xs ys a b c =
     f_add A (f_add A (f_mul A (xs ! fst a) (ys ! snd a)) (f_mul A (xs ! fst b) (ys ! snd b))) (f_mul A (xs ! fst c) (ys ! snd c))"

definition matrix3Multiply :: "vqf_arith \<Rightarrow> f32 list \<Rightarrow> f32 list \<Rightarrow> f32 list" where
  "matrix3Multiply A xs ys = (let r = row_sum A xs ys in
     [r (0, 0) (1, 3) (2, 6), r (0, 1) (1, 4) (2, 7), r (0, 2) (1, 5) (2, 8),
      r (3, 0) (4, 3) (5, 6), r (3, 1) (4, 4) (5, 7), r (3, 2) (4, 5) (5, 8),
      r (6, 0) (7, 3) (8, 6), r (6, 1) (7, 4) (8, 7), r (6, 2) (7, 5) (8, 8)])"

definition matrix3MultiplyTpsFirst :: "vqf_arith \<Rightarrow> f32 list \<Rightarrow> f32 list \<Rightarrow> f32 list" where
  "matrix3MultiplyTpsFirst A xs ys = (let r = row_sum A xs ys in
     [r (0, 0) (3, 3) (6, 6), r (0, 1) (3, 4) (6, 7), r (0, 2) (3, 5) (6, 8),
      r (1, 0) (4, 3) (7, 6), r (1, 1) (4, 4) (7, 7), r (1, 2) (4, 5) (7, 8),
      r (2, 0) (5, 3) (8, 6), r (2, 1) (5, 4) (8, 7), r (2, 2) (5, 5) (8, 8)])"

definition matrix3MultiplyTpsSecond :: "vqf_arith \<Rightarrow> f32 list \<Rightarrow> f32 list \<Rightarrow> f32 list" where
  "matrix3MultiplyTpsSecond A xs ys = (let r = row_sum A xs ys in
     [r (0, 0) (1, 1) (2, 2), r (0, 3) (1, 4) (2, 5), r (0, 6) (1, 7) (2, 8),
      r (3, 0) (4, 1) (5, 2), r (3, 3) (4, 4) (5, 5), r (3, 6) (4, 7) (5, 8),
      r (6, 0) (7, 1) (8, 2), r (6, 3) (7, 4) (8, 5), r (6, 6) (7, 7) (8, 8)])"

definition matrix3Inv :: "vqf_arith \<Rightarrow> f32 list \<Rightarrow> bool \<times> f32 list" where
  "matrix3Inv X xs =
     (let d2 = (\<lambda>i j k l. d_of X (f_sub X (f_mul X (xs ! i) (xs ! j)) (f_mul X (xs ! k) (xs ! l))));
          A = d2 4 8 5 7; D = d2 2 7 1 8; G = d2 1 5 2 4;
          B = d2 5 6 3 8; E = d2 0 8 2 6; H = d2 2 3 0 5;
          C = d2 3 7 4 6; F = d2 1 6 0 7; I = d2 0 4 1 3;
          det = d_add X (d_add X (d_mul X (d_of X (xs ! 0)) A) (d_mul X (d_of X (xs ! 1)) B)) (d_mul X (d_of X (xs ! 2)) C) in
      if d_le (d_of X (f_neg V_EPS)) det \<and> d_le det (d_of X V_EPS) then (False, replicate 9 0)
      else (True, map (\<lambda>v. d_to X (d_div X v det)) [A, D, G, B, E, H, C, F, I]))"

subsection \<open>Lengths and bounds\<close>

lemma length_v_clip [simp]: "length (v_clip lo hi xs) = length xs"
  by (simp add: v_clip_def)

lemma v_clip_bounds:
  assumes "x \<in> set (v_clip (f_neg c) c xs)" and "f_le 0 c"
  shows "f_nan x \<or> f_le (f_neg c) x \<and> f_le x c"
  using assms by (auto simp: v_clip_def f_less_def f_le_def split: if_splits)

lemma length_filterVec:
  assumes "length st = 2 * length xs" and "length xs \<ge> 2"
  shows "length (fst (filterVec A xs tau ts b a st)) = length xs \<and> length (snd (filterVec A xs tau ts b a st)) = length st"
proof -
  have s: "length (filter_start st (length xs)) = length st" using assms by (simp add: filter_start_def) arith
  have a: "length (fst (filter_average A xs st')) = length xs \<and> length (snd (filter_average A xs st')) = length st"
    if "length st' = length st" for st' using assms that by (simp add: filter_average_def Let_def)
  show ?thesis using a [OF s] assms
    by (auto simp: filterVec_def Let_def case_prod_beta filterInitialState_def filterStep_def length_concat comp_def sum_list_triv)
qed

end
