(* ===== verification/Vqf.thy ===== *)
theory Vqf
  imports Vqf_Math
begin

text \<open>
  The VQF filter itself, \<^verbatim>\<open>firmware/common/fusion/vqf/vqf.cpp\<close> and \<^verbatim>\<open>vqf.hpp\<close>: parameters, coefficients, state,
  the updates for gyroscope, accelerometer and magnetometer, and the accessors. At the end it takes the place of
  the filter of the fusion wrapper.
\<close>

subsection \<open>Parameters, coefficients, state\<close>

record vqf_params =
  tauAcc :: f32
  tauMag :: f32
  motionBiasEstEnabled :: bool
  restBiasEstEnabled :: bool
  magDistRejectionEnabled :: bool
  biasSigmaInit :: f32
  biasForgettingTime :: f32
  biasClip :: f32
  biasSigmaMotion :: f32
  biasVerticalForgettingFactor :: f32
  biasSigmaRest :: f32
  restMinT :: f32
  restFilterTau :: f32
  restThGyr :: f32
  restThAcc :: f32
  magCurrentTau :: f32
  magRefTau :: f32
  magNormTh :: f32
  magDipTh :: f32
  magNewTime :: f32
  magNewFirstTime :: f32
  magNewMinGyr :: f32
  magMinUndisturbedTime :: f32
  magMaxRejectionTime :: f32
  magRejectionFactor :: f32

definition default_params :: vqf_params where
  "default_params =
     \<lparr>tauAcc = 0x40400000, tauMag = 0x41100000, motionBiasEstEnabled = True, restBiasEstEnabled = True,
      magDistRejectionEnabled = True, biasSigmaInit = 0x3F000000, biasForgettingTime = 0x42C80000, biasClip = 0x40000000,
      biasSigmaMotion = 0x3DCCCCCD, biasVerticalForgettingFactor = 0x38D1B717, biasSigmaRest = 0x3CF5C28F,
      restMinT = 0x3FC00000, restFilterTau = 0x3F000000, restThGyr = 0x40000000, restThAcc = 0x3F000000,
      magCurrentTau = 0x3D4CCCCD, magRefTau = 0x41A00000, magNormTh = 0x3DCCCCCD, magDipTh = 0x41200000,
      magNewTime = 0x41A00000, magNewFirstTime = 0x40A00000, magNewMinGyr = 0x41A00000, magMinUndisturbedTime = 0x3F000000,
      magMaxRejectionTime = 0x42700000, magRejectionFactor = 0x40000000\<rparr>"

record vqf_coeffs =
  gyrTs :: f32
  accTs :: f32
  magTs :: f32
  accLpB :: "f64 list"
  accLpA :: "f64 list"
  kMag :: f32
  biasP0 :: f32
  biasV :: f32
  biasMotionW :: f32
  biasVerticalW :: f32
  biasRestW :: f32
  restGyrLpB :: "f64 list"
  restGyrLpA :: "f64 list"
  restAccLpB :: "f64 list"
  restAccLpA :: "f64 list"
  kMagRef :: f32
  magNormDipLpB :: "f64 list"
  magNormDipLpA :: "f64 list"

record vqf_state =
  gyrQuat :: "f32 list"
  accQuat :: "f32 list"
  delta :: f32
  restDetected :: bool
  magDistDetected :: bool
  lastAccLp :: "f32 list"
  accLpState :: "f64 list"
  lastAccCorrAngularRate :: f32
  kMagInit :: f32
  lastMagDisAngle :: f32
  lastMagCorrAngularRate :: f32
  bias :: "f32 list"
  biasP :: "f32 list"
  motionBiasEstRLpState :: "f64 list"
  motionBiasEstBiasLpState :: "f64 list"
  restLastSquaredDeviations :: "f32 list"
  restT :: f32
  restLastGyrLp :: "f32 list"
  restGyrLpState :: "f64 list"
  restLastAccLp :: "f32 list"
  restAccLpState :: "f64 list"
  magRefNorm :: f32
  magRefDip :: f32
  magUndisturbedT :: f32
  magRejectT :: f32
  magCandidateNorm :: f32
  magCandidateDip :: f32
  magCandidateT :: f32
  magNormDip :: "f32 list"
  magNormDipLpState :: "f64 list"

record vqf =
  params :: vqf_params
  coeffs :: vqf_coeffs
  state :: vqf_state

definition in_rad :: "vqf_arith \<Rightarrow> f32 \<Rightarrow> f32" where
  "in_rad A x = f_mul A x kDeg2Rad"

subsection \<open>Construction\<close>

definition reset_rest :: "vqf_state \<Rightarrow> vqf_state" where
  "reset_rest s = s\<lparr>restLastSquaredDeviations := [0, 0], restT := 0, restLastGyrLp := [0, 0, 0],
     restGyrLpState := replicate 6 D_NaN, restLastAccLp := [0, 0, 0], restAccLpState := replicate 6 D_NaN\<rparr>"

definition reset_mag :: "vqf_params \<Rightarrow> vqf_state \<Rightarrow> vqf_state" where
  "reset_mag P s = s\<lparr>magRefNorm := 0, magRefDip := 0, magUndisturbedT := 0, magRejectT := magMaxRejectionTime P,
     magCandidateNorm := 0xBF800000, magCandidateDip := 0, magCandidateT := 0\<rparr>"

definition vqf_reset_fields :: "vqf_params \<Rightarrow> vqf_coeffs \<Rightarrow> vqf_state \<Rightarrow> vqf_state" where
  "vqf_reset_fields P C s =
     (let s = s\<lparr>gyrQuat := quatSetToIdentity, accQuat := quatSetToIdentity, delta := 0, restDetected := False,
          magDistDetected := True, lastAccLp := [0, 0, 0], accLpState := replicate 6 D_NaN, lastAccCorrAngularRate := 0,
          kMagInit := 0x3F800000, lastMagDisAngle := 0, lastMagCorrAngularRate := 0, bias := [0, 0, 0],
          biasP := matrix3SetToScaledIdentity (biasP0 C), motionBiasEstRLpState := replicate 18 D_NaN,
          motionBiasEstBiasLpState := replicate 4 D_NaN\<rparr>;
          s = reset_mag P (reset_rest s) in
      s\<lparr>magNormDip := [0, 0], magNormDipLpState := replicate 4 D_NaN\<rparr>)"

definition resetState :: "vqf \<Rightarrow> vqf" where
  "resetState v = v\<lparr>state := vqf_reset_fields (params v) (coeffs v) (state v)\<rparr>"

definition vqf_setup_coeffs :: "vqf_arith \<Rightarrow> vqf_params \<Rightarrow> vqf_coeffs \<Rightarrow> vqf_coeffs" where
  "vqf_setup_coeffs A P C =
     (let acc = filterCoeffs A (tauAcc P) (accTs C);
          C = C\<lparr>accLpB := fst acc, accLpA := snd acc, kMag := gainFromTau A (tauMag P) (magTs C),
            biasP0 := square A (f_mul A (biasSigmaInit P) 0x42C80000),
            biasV := f_div A (f_mul A (square A 0x41200000) (accTs C)) (biasForgettingTime P)\<rparr>;
          pMotion = square A (f_mul A (biasSigmaMotion P) 0x42C80000);
          C = C\<lparr>biasMotionW := f_add A (f_div A (square A pMotion) (biasV C)) pMotion\<rparr>;
          C = C\<lparr>biasVerticalW := f_div A (biasMotionW C) (std_max (biasVerticalForgettingFactor P) 0x2EDBE6FF)\<rparr>;
          pRest = square A (f_mul A (biasSigmaRest P) 0x42C80000);
          rg = filterCoeffs A (restFilterTau P) (gyrTs C); ra = filterCoeffs A (restFilterTau P) (accTs C);
          C = C\<lparr>biasRestW := f_add A (f_div A (square A pRest) (biasV C)) pRest, restGyrLpB := fst rg, restGyrLpA := snd rg,
            restAccLpB := fst ra, restAccLpA := snd ra, kMagRef := gainFromTau A (magRefTau P) (magTs C)\<rparr>;
          md = (if f_less 0 (magCurrentTau P) then filterCoeffs A (magCurrentTau P) (magTs C)
                else (replicate 3 D_NaN, replicate 2 D_NaN)) in
      C\<lparr>magNormDipLpB := fst md, magNormDipLpA := snd md\<rparr>)"

definition vqf_setup :: "vqf_arith \<Rightarrow> vqf \<Rightarrow> vqf" where
  "vqf_setup A v = resetState (v\<lparr>coeffs := vqf_setup_coeffs A (params v) (coeffs v)\<rparr>)"

text \<open>The constructors; \<open>mem\<close> is the memory in which the filter is built.\<close>

definition VQF_params :: "vqf_arith \<Rightarrow> vqf_params \<Rightarrow> f32 \<Rightarrow> f32 \<Rightarrow> f32 \<Rightarrow> vqf \<Rightarrow> vqf" where
  "VQF_params A P g a m mem =
     vqf_setup A (mem\<lparr>params := P, coeffs := (coeffs mem)\<lparr>gyrTs := g, accTs := (if f_less 0 a then a else g),
       magTs := (if f_less 0 m then m else g)\<rparr>\<rparr>)"

definition VQF :: "vqf_arith \<Rightarrow> f32 \<Rightarrow> f32 \<Rightarrow> f32 \<Rightarrow> vqf \<Rightarrow> vqf" where
  "VQF A g a m mem = VQF_params A default_params g a m mem"

subsection \<open>The gyroscope\<close>

definition gyr_disturbed :: "vqf_arith \<Rightarrow> vqf_params \<Rightarrow> vqf_state \<Rightarrow> bool" where
  "gyr_disturbed A P s \<longleftrightarrow>
     f_le (square A (in_rad A (restThGyr P))) (restLastSquaredDeviations s ! 0) \<or>
     f_less (in_rad A (biasClip P)) (f_abs (restLastGyrLp s ! 0)) \<or> f_less (in_rad A (biasClip P)) (f_abs (restLastGyrLp s ! 1)) \<or>
     f_less (in_rad A (biasClip P)) (f_abs (restLastGyrLp s ! 2))"

definition squared_deviation :: "vqf_arith \<Rightarrow> f32 list \<Rightarrow> f32 list \<Rightarrow> f32" where
  "squared_deviation A xs lp = (let sq = (\<lambda>i. square A (f_sub A (xs ! i) (lp ! i))) in f_add A (f_add A (sq 0) (sq 1)) (sq 2))"

definition gyr_filter :: "vqf_arith \<Rightarrow> vqf_params \<Rightarrow> vqf_coeffs \<Rightarrow> f32 list \<Rightarrow> vqf_state \<Rightarrow> vqf_state" where
  "gyr_filter A P C gyr s =
     (let (lp, st) = filterVec A gyr (restFilterTau P) (gyrTs C) (restGyrLpB C) (restGyrLpA C) (restGyrLpState s) in
      s\<lparr>restLastGyrLp := lp, restGyrLpState := st,
        restLastSquaredDeviations := (restLastSquaredDeviations s)[0 := squared_deviation A gyr lp]\<rparr>)"

definition gyr_rest :: "vqf_arith \<Rightarrow> vqf_params \<Rightarrow> vqf_coeffs \<Rightarrow> f32 list \<Rightarrow> vqf_state \<Rightarrow> vqf_state" where
  "gyr_rest A P C gyr s =
     (if restBiasEstEnabled P \<or> magDistRejectionEnabled P then
        (let s = gyr_filter A P C gyr s in
         if gyr_disturbed A P s then s\<lparr>restT := 0, restDetected := False\<rparr> else s)
      else s)"

definition gyr_predict :: "vqf_arith \<Rightarrow> vqf_coeffs \<Rightarrow> f32 list \<Rightarrow> vqf_state \<Rightarrow> vqf_state" where
  "gyr_predict A C gyr s =
     (let g = map (\<lambda>i. f_sub A (gyr ! i) (bias s ! i)) [0..<3]; n = v_norm A g; angle = f_mul A n (gyrTs C) in
      if f_less V_EPS n then
        (let c = f_cos A (f_div A angle 0x40000000); sn = f_div A (f_sin A (f_div A angle 0x40000000)) n;
             step = [c, f_mul A sn (g ! 0), f_mul A sn (g ! 1), f_mul A sn (g ! 2)] in
         s\<lparr>gyrQuat := v_normalize A (quatMultiply A (gyrQuat s) step)\<rparr>)
      else s)"

definition updateGyr :: "vqf_arith \<Rightarrow> f32 list \<Rightarrow> vqf \<Rightarrow> vqf" where
  "updateGyr A gyr v =
     v\<lparr>state := gyr_predict A (coeffs v) gyr (gyr_rest A (params v) (coeffs v) gyr (state v))\<rparr>"

subsection \<open>The accelerometer\<close>

definition zero_sample :: "f32 list \<Rightarrow> bool" where
  "zero_sample xs \<longleftrightarrow> f_eq (xs ! 0) 0 \<and> f_eq (xs ! 1) 0 \<and> f_eq (xs ! 2) 0"

definition acc_rest_filter :: "vqf_arith \<Rightarrow> vqf_params \<Rightarrow> vqf_coeffs \<Rightarrow> f32 list \<Rightarrow> vqf_state \<Rightarrow> vqf_state" where
  "acc_rest_filter A P C acc s =
     (let (lp, st) = filterVec A acc (restFilterTau P) (accTs C) (restAccLpB C) (restAccLpA C) (restAccLpState s) in
      s\<lparr>restLastAccLp := lp, restAccLpState := st,
        restLastSquaredDeviations := (restLastSquaredDeviations s)[1 := squared_deviation A acc lp]\<rparr>)"

definition acc_disturbed :: "vqf_arith \<Rightarrow> vqf_params \<Rightarrow> vqf_state \<Rightarrow> bool" where
  "acc_disturbed A P s \<longleftrightarrow> f_le (square A (restThAcc P)) (restLastSquaredDeviations s ! 1)"

definition acc_rest :: "vqf_arith \<Rightarrow> vqf_params \<Rightarrow> vqf_coeffs \<Rightarrow> f32 list \<Rightarrow> vqf_state \<Rightarrow> vqf_state" where
  "acc_rest A P C acc s =
     (if restBiasEstEnabled P then
        (let s = acc_rest_filter A P C acc s in
         if acc_disturbed A P s then s\<lparr>restT := 0, restDetected := False\<rparr>
         else
           (let s = s\<lparr>restT := f_add A (restT s) (accTs C)\<rparr> in
            if f_le (restMinT P) (restT s) then s\<lparr>restDetected := True\<rparr> else s))
      else s)"

text \<open>The filtered acceleration in the earth frame, and the inclination correction.\<close>

definition acc_earth :: "vqf_arith \<Rightarrow> vqf_params \<Rightarrow> vqf_coeffs \<Rightarrow> f32 list \<Rightarrow> vqf_state \<Rightarrow> f32 list \<times> vqf_state" where
  "acc_earth A P C acc s =
     (let (lp, st) = filterVec A (quatRotate A (gyrQuat s) acc) (tauAcc P) (accTs C) (accLpB C) (accLpA C) (accLpState s);
          s = s\<lparr>lastAccLp := lp, accLpState := st\<rparr> in
      (v_normalize A (quatRotate A (accQuat s) lp), s))"

definition acc_correction :: "vqf_arith \<Rightarrow> f32 list \<Rightarrow> f32 list" where
  "acc_correction A e =
     (let q_w = f_sqrt A (f_div A (f_add A (e ! 2) 0x3F800000) 0x40000000) in
      if f_less 0x358637BD q_w
      then [q_w, f_div A (f_mul A 0x3F000000 (e ! 1)) q_w, f_div A (f_mul A 0xBF000000 (e ! 0)) q_w, 0]
      else [0, 0x3F800000, 0, 0])"

definition acc_correct :: "vqf_arith \<Rightarrow> vqf_coeffs \<Rightarrow> f32 list \<Rightarrow> vqf_state \<Rightarrow> vqf_state" where
  "acc_correct A C e s =
     s\<lparr>accQuat := v_normalize A (quatMultiply A (acc_correction A e) (accQuat s)),
       lastAccCorrAngularRate := f_div A (v_acos A (e ! 2)) (accTs C)\<rparr>"

subsection \<open>Bias estimation\<close>

definition getQuat3D :: "vqf \<Rightarrow> f32 list" where
  "getQuat3D v = gyrQuat (state v)"

definition state_quat6D :: "vqf_arith \<Rightarrow> vqf_state \<Rightarrow> f32 list" where
  "state_quat6D A s = quatMultiply A (accQuat s) (gyrQuat s)"

definition rotation_matrix :: "vqf_arith \<Rightarrow> f32 list \<Rightarrow> f32 list" where
  "rotation_matrix A q =
     (let t = f_mul A; p = f_add A; m = f_sub A; two = 0x40000000; q0 = q ! 0; q1 = q ! 1; q2 = q ! 2; q3 = q ! 3;
          diag = (\<lambda>a b. m (m 0x3F800000 (t two (square A a))) (t two (square A b))) in
      [diag q2 q3, t two (m (t q2 q1) (t q0 q3)), t two (p (t q0 q2) (t q3 q1)),
       t two (p (t q0 q3) (t q2 q1)), diag q1 q3, t two (m (t q2 q3) (t q1 q0)),
       t two (m (t q3 q1) (t q0 q2)), t two (p (t q0 q1) (t q3 q2)), diag q1 q2])"

text \<open>\<open>x - R[i]*b[0] - R[i+1]*b[1] - R[i+2]*b[2]\<close>.\<close>

definition minus_row :: "vqf_arith \<Rightarrow> f32 list \<Rightarrow> f32 list \<Rightarrow> nat \<Rightarrow> f32 \<Rightarrow> f32" where
  "minus_row A R b i x =
     f_sub A (f_sub A (f_sub A x (f_mul A (R ! i) (b ! 0))) (f_mul A (R ! (i + 1)) (b ! 1))) (f_mul A (R ! (i + 2)) (b ! 2))"

text \<open>\<open>M[i]*x[0] + M[i+1]*x[1] + M[i+2]*x[2]\<close>.\<close>

definition row_times :: "vqf_arith \<Rightarrow> f32 list \<Rightarrow> f32 list \<Rightarrow> nat \<Rightarrow> f32" where
  "row_times A M x i = row_sum A M x (i, 0) (i + 1, 1) (i + 2, 2)"

text \<open>The low-pass filtered rotation matrix and rotated bias.\<close>

definition bias_filters :: "vqf_arith \<Rightarrow> vqf_params \<Rightarrow> vqf_coeffs \<Rightarrow> vqf_state \<Rightarrow> f32 list \<times> f32 list \<times> vqf_state" where
  "bias_filters A P C s =
     (let R = rotation_matrix A (state_quat6D A s);
          lp = [row_times A R (bias s) 0, row_times A R (bias s) 3];
          (R, rst) = filterVec A R (tauAcc P) (accTs C) (accLpB C) (accLpA C) (motionBiasEstRLpState s);
          (lp, bst) = filterVec A lp (tauAcc P) (accTs C) (accLpB C) (accLpA C) (motionBiasEstBiasLpState s) in
      (R, lp, s\<lparr>motionBiasEstRLpState := rst, motionBiasEstBiasLpState := bst\<rparr>))"

text \<open>What the Kalman filter measures: the matrix, the error and the noise, which is negative if nothing is measured.\<close>

definition bias_measure ::
  "vqf_arith \<Rightarrow> vqf_params \<Rightarrow> vqf_coeffs \<Rightarrow> f32 list \<Rightarrow> f32 list \<Rightarrow> f32 list \<Rightarrow> vqf_state \<Rightarrow> f32 list \<times> f32 list \<times> f32 list" where
  "bias_measure A P C e R lp s =
     (let b = bias s in
      if restDetected s \<and> restBiasEstEnabled P then
        (matrix3SetToScaledIdentity 0x3F800000, map (\<lambda>i. f_sub A (restLastGyrLp s ! i) (b ! i)) [0..<3],
         replicate 3 (biasRestW C))
      else if motionBiasEstEnabled P then
        (R,
         [minus_row A R b 0 (f_add A (f_div A (f_neg (e ! 1)) (accTs C)) (lp ! 0)),
          minus_row A R b 3 (f_add A (f_div A (e ! 0) (accTs C)) (lp ! 1)),
          f_sub A (f_sub A (f_mul A (f_neg (R ! 6)) (b ! 0)) (f_mul A (R ! 7) (b ! 1))) (f_mul A (R ! 8) (b ! 2))],
         [biasMotionW C, biasMotionW C, biasVerticalW C])
      else (R, replicate 3 0, replicate 3 0xBF800000))"

definition grow_covariance :: "vqf_arith \<Rightarrow> vqf_coeffs \<Rightarrow> f32 list \<Rightarrow> f32 list" where
  "grow_covariance A C M =
     (let grow = (\<lambda>i M. if f_less (M ! i) (biasP0 C) then M[i := f_add A (M ! i) (biasV C)] else M) in
      grow 8 (grow 4 (grow 0 M)))"

text \<open>The gain \<open>P R^T inv(W + R P R^T)\<close>.\<close>

definition kalman_gain :: "vqf_arith \<Rightarrow> f32 list \<Rightarrow> f32 list \<Rightarrow> f32 list \<Rightarrow> f32 list" where
  "kalman_gain A M R w =
     (let K = matrix3Multiply A R (matrix3MultiplyTpsSecond A M R);
          K = K[0 := f_add A (K ! 0) (w ! 0), 4 := f_add A (K ! 4) (w ! 1), 8 := f_add A (K ! 8) (w ! 2)];
          K = snd (matrix3Inv A K) in
      matrix3Multiply A M (matrix3MultiplyTpsFirst A R K))"

definition kalman_step ::
  "vqf_arith \<Rightarrow> f32 \<Rightarrow> f32 list \<Rightarrow> f32 list \<Rightarrow> f32 list \<Rightarrow> vqf_state \<Rightarrow> vqf_state" where
  "kalman_step A clip R e w s =
     (let e = v_clip (f_neg clip) clip e; K = kalman_gain A (biasP s) R w; b = bias s;
          b = [f_add A (b ! 0) (row_times A K e 0), f_add A (b ! 1) (row_times A K e 3), f_add A (b ! 2) (row_times A K e 6)];
          K = matrix3Multiply A (matrix3Multiply A K R) (biasP s) in
      s\<lparr>biasP := map2 (f_sub A) (biasP s) K, bias := v_clip (f_neg clip) clip b\<rparr>)"

definition bias_step :: "vqf_arith \<Rightarrow> vqf_params \<Rightarrow> vqf_coeffs \<Rightarrow> f32 list \<Rightarrow> vqf_state \<Rightarrow> vqf_state" where
  "bias_step A P C earth s =
     (if motionBiasEstEnabled P \<or> restBiasEstEnabled P then
        (let (R, lp, s) = bias_filters A P C s;
             (R, e, w) = bias_measure A P C earth R lp s;
             s = s\<lparr>biasP := grow_covariance A C (biasP s)\<rparr> in
         if f_le 0 (w ! 0) then kalman_step A (in_rad A (biasClip P)) R e w s else s)
      else s)"

definition updateAcc :: "vqf_arith \<Rightarrow> f32 list \<Rightarrow> vqf \<Rightarrow> vqf" where
  "updateAcc A acc v =
     (if zero_sample acc then v
      else
        (let P = params v; C = coeffs v; (e, s) = acc_earth A P C acc (acc_rest A P C acc (state v)) in
         v\<lparr>state := bias_step A P C e (acc_correct A C e s)\<rparr>))"

subsection \<open>The magnetometer\<close>

definition near :: "vqf_arith \<Rightarrow> vqf_params \<Rightarrow> f32 list \<Rightarrow> f32 \<Rightarrow> f32 \<Rightarrow> bool" where
  "near A P nd n d \<longleftrightarrow>
     f_less (f_abs (f_sub A (nd ! 0) n)) (f_mul A (magNormTh P) n) \<and>
     f_less (f_abs (f_sub A (nd ! 1) d)) (in_rad A (magDipTh P))"

definition towards :: "vqf_arith \<Rightarrow> f32 \<Rightarrow> f32 \<Rightarrow> f32 \<Rightarrow> f32" where
  "towards A k x y = f_add A y (f_mul A k (f_sub A x y))"

definition mag_measure :: "vqf_arith \<Rightarrow> vqf_params \<Rightarrow> vqf_coeffs \<Rightarrow> f32 list \<Rightarrow> vqf_state \<Rightarrow> vqf_state" where
  "mag_measure A P C e s =
     (let n = v_norm A e; s = s\<lparr>magNormDip := [n, f_neg (v_asin A (f_div A (e ! 2) n))]\<rparr> in
      if f_less 0 (magCurrentTau P) then
        (let (nd, st) = filterVec A (magNormDip s) (magCurrentTau P) (magTs C) (magNormDipLpB C) (magNormDipLpA C)
           (magNormDipLpState s) in s\<lparr>magNormDip := nd, magNormDipLpState := st\<rparr>)
      else s)"

text \<open>Disturbance detection against the accepted field, then the acceptance of a new one.\<close>

definition mag_disturbance :: "vqf_arith \<Rightarrow> vqf_params \<Rightarrow> vqf_coeffs \<Rightarrow> vqf_state \<Rightarrow> vqf_state" where
  "mag_disturbance A P C s =
     (if near A P (magNormDip s) (magRefNorm s) (magRefDip s) then
        (let s = s\<lparr>magUndisturbedT := f_add A (magUndisturbedT s) (magTs C)\<rparr> in
         if f_le (magMinUndisturbedTime P) (magUndisturbedT s)
         then s\<lparr>magDistDetected := False, magRefNorm := towards A (kMagRef C) (magNormDip s ! 0) (magRefNorm s),
                magRefDip := towards A (kMagRef C) (magNormDip s ! 1) (magRefDip s)\<rparr>
         else s)
      else s\<lparr>magUndisturbedT := 0, magDistDetected := True\<rparr>)"

definition mag_candidate :: "vqf_arith \<Rightarrow> vqf_params \<Rightarrow> vqf_coeffs \<Rightarrow> vqf_state \<Rightarrow> vqf_state" where
  "mag_candidate A P C s =
     (if near A P (magNormDip s) (magCandidateNorm s) (magCandidateDip s) then
        (let s = (if f_le (in_rad A (magNewMinGyr P)) (v_norm A (restLastGyrLp s))
                  then s\<lparr>magCandidateT := f_add A (magCandidateT s) (magTs C)\<rparr> else s);
             s = s\<lparr>magCandidateNorm := towards A (kMagRef C) (magNormDip s ! 0) (magCandidateNorm s),
                   magCandidateDip := towards A (kMagRef C) (magNormDip s ! 1) (magCandidateDip s)\<rparr> in
         if magDistDetected s \<and> (f_le (magNewTime P) (magCandidateT s) \<or>
            f_eq (magRefNorm s) 0 \<and> f_le (magNewFirstTime P) (magCandidateT s))
         then s\<lparr>magRefNorm := magCandidateNorm s, magRefDip := magCandidateDip s, magDistDetected := False,
                magUndisturbedT := magMinUndisturbedTime P\<rparr>
         else s)
      else s\<lparr>magCandidateT := 0, magCandidateNorm := magNormDip s ! 0, magCandidateDip := magNormDip s ! 1\<rparr>)"

definition wrap_once :: "vqf_arith \<Rightarrow> f32 \<Rightarrow> f32" where
  "wrap_once A x = (if f_less kPi x then f_sub A x kTwoPi else if f_less x (f_neg kPi) then f_add A x kTwoPi else x)"

text \<open>The gain after the rejection of a disturbance, and after the fast convergence at the start.\<close>

definition mag_reject :: "vqf_arith \<Rightarrow> vqf_params \<Rightarrow> vqf_coeffs \<Rightarrow> vqf_state \<Rightarrow> f32 \<times> vqf_state" where
  "mag_reject A P C s =
     (if \<not> magDistRejectionEnabled P then (kMag C, s)
      else if magDistDetected s then
        (if f_le (magRejectT s) (magMaxRejectionTime P) then (0, s\<lparr>magRejectT := f_add A (magRejectT s) (magTs C)\<rparr>)
         else (f_div A (kMag C) (magRejectionFactor P), s))
      else (kMag C, s\<lparr>magRejectT := std_max (f_sub A (magRejectT s) (f_mul A (magRejectionFactor P) (magTs C))) 0\<rparr>))"

definition mag_init_gain :: "vqf_arith \<Rightarrow> vqf_params \<Rightarrow> vqf_coeffs \<Rightarrow> f32 \<Rightarrow> vqf_state \<Rightarrow> f32 \<times> vqf_state" where
  "mag_init_gain A P C k s =
     (if f_eq (kMagInit s) 0 then (k, s)
      else
        (let k = (if f_less k (kMagInit s) then kMagInit s else k);
             n = f_div A (kMagInit s) (f_add A (kMagInit s) 0x3F800000) in
         (k, s\<lparr>kMagInit := (if f_less (f_mul A n (tauMag P)) (magTs C) then 0 else n)\<rparr>)))"

definition mag_heading :: "vqf_arith \<Rightarrow> vqf_params \<Rightarrow> vqf_coeffs \<Rightarrow> f32 list \<Rightarrow> vqf_state \<Rightarrow> vqf_state" where
  "mag_heading A P C e s =
     (let s = s\<lparr>lastMagDisAngle := wrap_once A (f_sub A (f_atan2 A (e ! 0) (e ! 1)) (delta s))\<rparr>;
          (k, s) = mag_reject A P C s;
          (k, s) = mag_init_gain A P C k s in
      s\<lparr>lastMagCorrAngularRate := f_div A (f_mul A k (lastMagDisAngle s)) (magTs C),
        delta := wrap_once A (f_add A (delta s) (f_mul A k (lastMagDisAngle s)))\<rparr>)"

definition updateMag :: "vqf_arith \<Rightarrow> f32 list \<Rightarrow> vqf \<Rightarrow> vqf" where
  "updateMag A mag v =
     (if zero_sample mag then v
      else
        (let P = params v; C = coeffs v; s = state v; e = quatRotate A (state_quat6D A s) mag;
             s = (if magDistRejectionEnabled P
                  then mag_candidate A P C (mag_disturbance A P C (mag_measure A P C e s)) else s) in
         v\<lparr>state := mag_heading A P C e s\<rparr>))"

subsection \<open>Updates and accessors\<close>

definition update6D :: "vqf_arith \<Rightarrow> f32 list \<times> f32 list \<Rightarrow> vqf \<Rightarrow> vqf" where
  "update6D A x v = (case x of (gyr, acc) \<Rightarrow> updateAcc A acc (updateGyr A gyr v))"

definition update9D :: "vqf_arith \<Rightarrow> f32 list \<times> f32 list \<times> f32 list \<Rightarrow> vqf \<Rightarrow> vqf" where
  "update9D A x v = (case x of (gyr, acc, mag) \<Rightarrow> updateMag A mag (updateAcc A acc (updateGyr A gyr v)))"

definition getQuat6D :: "vqf_arith \<Rightarrow> vqf \<Rightarrow> f32 list" where
  "getQuat6D A v = state_quat6D A (state v)"

definition getQuat9D :: "vqf_arith \<Rightarrow> vqf \<Rightarrow> f32 list" where
  "getQuat9D A v = quatApplyDelta A (getQuat6D A v) (delta (state v))"

definition getDelta :: "vqf \<Rightarrow> f32" where
  "getDelta v = delta (state v)"

definition getBiasEstimate :: "vqf_arith \<Rightarrow> vqf \<Rightarrow> f32 list \<times> f32" where
  "getBiasEstimate A v =
     (let M = biasP (state v); sum = (\<lambda>i. f_add A (f_add A (f_abs (M ! i)) (f_abs (M ! (i + 1)))) (f_abs (M ! (i + 2))));
          p = std_min (std_max (std_max (sum 0) (sum 3)) (sum 6)) (biasP0 (coeffs v)) in
      (bias (state v), f_mul A (f_sqrt A p) 0x393702D3))"

definition setBiasEstimate :: "vqf_arith \<Rightarrow> f32 list \<Rightarrow> f32 \<Rightarrow> vqf \<Rightarrow> vqf" where
  "setBiasEstimate A b sigma v =
     (let s = (state v)\<lparr>bias := b\<rparr> in
      v\<lparr>state := (if f_less 0 sigma
         then s\<lparr>biasP := matrix3SetToScaledIdentity (square A (f_mul A sigma 0x45B30CA0))\<rparr> else s)\<rparr>)"

definition getRestDetected :: "vqf \<Rightarrow> bool" where
  "getRestDetected v = restDetected (state v)"

definition getMagDistDetected :: "vqf \<Rightarrow> bool" where
  "getMagDistDetected v = magDistDetected (state v)"

definition getRelativeRestDeviations :: "vqf_arith \<Rightarrow> vqf \<Rightarrow> f32 list" where
  "getRelativeRestDeviations A v =
     [f_div A (f_sqrt A (restLastSquaredDeviations (state v) ! 0)) (in_rad A (restThGyr (params v))),
      f_div A (f_sqrt A (restLastSquaredDeviations (state v) ! 1)) (restThAcc (params v))]"

definition getMagRefNorm :: "vqf \<Rightarrow> f32" where
  "getMagRefNorm v = magRefNorm (state v)"

definition getMagRefDip :: "vqf \<Rightarrow> f32" where
  "getMagRefDip v = magRefDip (state v)"

definition setMagRef :: "f32 \<Rightarrow> f32 \<Rightarrow> vqf \<Rightarrow> vqf" where
  "setMagRef n d v = v\<lparr>state := (state v)\<lparr>magRefNorm := n, magRefDip := d\<rparr>\<rparr>"

definition getParams :: "vqf \<Rightarrow> vqf_params" where "getParams v = params v"
definition getCoeffs :: "vqf \<Rightarrow> vqf_coeffs" where "getCoeffs v = coeffs v"
definition getState :: "vqf \<Rightarrow> vqf_state" where "getState v = state v"

definition setState :: "vqf_state \<Rightarrow> vqf \<Rightarrow> vqf" where
  "setState s v = v\<lparr>state := s\<rparr>"

definition setMotionBiasEstEnabled :: "bool \<Rightarrow> vqf \<Rightarrow> vqf" where
  "setMotionBiasEstEnabled on v =
     (if motionBiasEstEnabled (params v) = on then v
      else v\<lparr>params := (params v)\<lparr>motionBiasEstEnabled := on\<rparr>,
        state := (state v)\<lparr>motionBiasEstRLpState := replicate 18 D_NaN, motionBiasEstBiasLpState := replicate 4 D_NaN\<rparr>\<rparr>)"

definition setRestBiasEstEnabled :: "bool \<Rightarrow> vqf \<Rightarrow> vqf" where
  "setRestBiasEstEnabled on v =
     (if restBiasEstEnabled (params v) = on then v
      else v\<lparr>params := (params v)\<lparr>restBiasEstEnabled := on\<rparr>, state := reset_rest ((state v)\<lparr>restDetected := False\<rparr>)\<rparr>)"

definition setMagDistRejectionEnabled :: "bool \<Rightarrow> vqf \<Rightarrow> vqf" where
  "setMagDistRejectionEnabled on v =
     (if magDistRejectionEnabled (params v) = on then v
      else
        (let P = (params v)\<lparr>magDistRejectionEnabled := on\<rparr> in
         v\<lparr>params := P,
           state := (reset_mag P ((state v)\<lparr>magDistDetected := True\<rparr>))\<lparr>magNormDipLpState := replicate 4 D_NaN\<rparr>\<rparr>))"

definition evens :: "f64 list \<Rightarrow> nat \<Rightarrow> f64 list" where
  "evens st n = map (\<lambda>i. st ! (2 * i)) [0..<n]"

definition setTauAcc :: "vqf_arith \<Rightarrow> f32 \<Rightarrow> vqf \<Rightarrow> vqf" where
  "setTauAcc A tau v =
     (if f_eq (tauAcc (params v)) tau then v
      else
        (let C = coeffs v; s = state v; (nb, na) = filterCoeffs A tau (accTs C);
             adapt = (\<lambda>y st. filterAdaptStateForCoeffChange A y (accLpB C) (accLpA C) nb na st);
             s = s\<lparr>accLpState := adapt (lastAccLp s) (accLpState s),
               motionBiasEstRLpState := adapt (map (d_to A) (evens (motionBiasEstRLpState s) 9)) (motionBiasEstRLpState s),
               motionBiasEstBiasLpState :=
                 adapt (map (d_to A) (evens (motionBiasEstBiasLpState s) 2)) (motionBiasEstBiasLpState s)\<rparr> in
         v\<lparr>params := (params v)\<lparr>tauAcc := tau\<rparr>, coeffs := C\<lparr>accLpB := nb, accLpA := na\<rparr>, state := s\<rparr>))"

definition setTauMag :: "vqf_arith \<Rightarrow> f32 \<Rightarrow> vqf \<Rightarrow> vqf" where
  "setTauMag A tau v =
     v\<lparr>params := (params v)\<lparr>tauMag := tau\<rparr>, coeffs := (coeffs v)\<lparr>kMag := gainFromTau A tau (magTs (coeffs v))\<rparr>\<rparr>"

definition setRestDetectionThresholds :: "f32 \<Rightarrow> f32 \<Rightarrow> vqf \<Rightarrow> vqf" where
  "setRestDetectionThresholds g a v = v\<lparr>params := (params v)\<lparr>restThGyr := g, restThAcc := a\<rparr>\<rparr>"

text \<open>\<^verbatim>\<open>updateBatch\<close>; the caller takes of each entry the arrays for which it has given a pointer.\<close>

record batch_out =
  out6D :: "f32 list"
  out9D :: "f32 list"
  outDelta :: f32
  outBias :: "f32 list"
  outBiasSigma :: f32
  outRest :: bool
  outMagDist :: bool

definition batch_entry :: "vqf_arith \<Rightarrow> vqf \<Rightarrow> batch_out" where
  "batch_entry A v =
     \<lparr>out6D = getQuat6D A v, out9D = getQuat9D A v, outDelta = delta (state v), outBias = bias (state v),
      outBiasSigma = snd (getBiasEstimate A v), outRest = restDetected (state v), outMagDist = magDistDetected (state v)\<rparr>"

fun updateBatch :: "vqf_arith \<Rightarrow> (f32 list \<times> f32 list \<times> f32 list option) list \<Rightarrow> vqf \<Rightarrow> batch_out list \<times> vqf" where
  "updateBatch A [] v = ([], v)"
| "updateBatch A ((gyr, acc, mag) # xs) v =
     (let v = (case mag of None \<Rightarrow> update6D A (gyr, acc) v | Some m \<Rightarrow> update9D A (gyr, acc, m) v);
          (out, w) = updateBatch A xs v in (batch_entry A v # out, w))"

end
