(* ===== verification/Vqf_Contract.thy ===== *)
theory Vqf_Contract
  imports Vqf
begin

text \<open>
  What the VQF filter promises: construction and reset leave nothing of what was before, the bias estimate stays
  within its clip, rest is not reported early; and its place in the fusion wrapper, whose laws it keeps.
\<close>

subsection \<open>Runs\<close>

datatype vqf_event = Gyr "f32 list" | Acc "f32 list" | Mag "f32 list" | SetBias "f32 list" f32 | Reset

fun vqf_step :: "vqf_arith \<Rightarrow> vqf_event \<Rightarrow> vqf \<Rightarrow> vqf" where
  "vqf_step A (Gyr g) = updateGyr A g"
| "vqf_step A (Acc a) = updateAcc A a"
| "vqf_step A (Mag m) = updateMag A m"
| "vqf_step A (SetBias b sg) = setBiasEstimate A b sg"
| "vqf_step A Reset = resetState"

abbreviation vqf_run :: "vqf_arith \<Rightarrow> vqf_event list \<Rightarrow> vqf \<Rightarrow> vqf" where
  "vqf_run A evs \<equiv> fold (vqf_step A) evs"

lemma step_keeps [simp]: "params (vqf_step A e v) = params v" "coeffs (vqf_step A e v) = coeffs v"
  by (cases e; simp add: updateGyr_def updateAcc_def updateMag_def setBiasEstimate_def resetState_def Let_def
    case_prod_beta)+

lemma run_keeps [simp]: "params (vqf_run A evs v) = params v" "coeffs (vqf_run A evs v) = coeffs v"
  by (induction evs arbitrary: v) simp_all

subsection \<open>Construction and reset\<close>

lemma reset_fields_memory: "vqf_reset_fields P C s = vqf_reset_fields P C s'"
  by (cases s; cases s') (simp add: vqf_reset_fields_def reset_rest_def reset_mag_def Let_def)

lemma setup_coeffs_memory:
  "gyrTs C = gyrTs C' \<Longrightarrow> accTs C = accTs C' \<Longrightarrow> magTs C = magTs C' \<Longrightarrow> vqf_setup_coeffs A P C = vqf_setup_coeffs A P C'"
  by (cases C; cases C') (simp add: vqf_setup_coeffs_def Let_def)

lemma VQF_memory: "VQF_params A P g a m mem = VQF_params A P g a m mem'"
proof -
  let ?C = "\<lambda>mem. vqf_setup_coeffs A P ((coeffs mem)\<lparr>gyrTs := g, accTs := if f_less 0 a then a else g, magTs := if f_less 0 m then m else g\<rparr>)"
  have C: "?C mem = ?C mem'" by (rule setup_coeffs_memory) simp_all
  show ?thesis unfolding VQF_params_def vqf_setup_def resetState_def
    using C reset_fields_memory [of P "?C mem" "state mem" "state mem'"] by (cases mem; cases mem') simp
qed

lemma reset_new: "resetState (v\<lparr>params := params (VQF_params A P g a m mem), coeffs := coeffs (VQF_params A P g a m mem)\<rparr>) =
    VQF_params A P g a m mem"
  unfolding VQF_params_def vqf_setup_def resetState_def
  by (simp add: reset_fields_memory [of _ _ "state v" "state mem"])

text \<open>C22. A reset filter is a new filter: whatever the memory held in which the constructor builds the filter, the result
  is the same, and after any samples, set biases and resets, \<open>resetState\<close> gives exactly a newly
  constructed filter, in all of its thirty state fields.\<close>

theorem reset_is_new:
  "VQF_params A P g a m mem = VQF_params A P g a m mem' \<and>
   resetState (vqf_run A evs (VQF_params A P g a m mem)) = VQF_params A P g a m mem'"
proof
  show m: "VQF_params A P g a m mem = VQF_params A P g a m mem'" by (rule VQF_memory)
  let ?v = "vqf_run A evs (VQF_params A P g a m mem)"
  have "?v = ?v\<lparr>params := params (VQF_params A P g a m mem), coeffs := coeffs (VQF_params A P g a m mem)\<rparr>" by simp
  then have "resetState ?v = VQF_params A P g a m mem" using reset_new by metis
  with m show "resetState ?v = VQF_params A P g a m mem'" by simp
qed

subsection \<open>What the stages keep\<close>

definition rest_view :: "vqf_state \<Rightarrow> bool \<times> f32" where
  "rest_view s = (restDetected s, restT s)"

lemma predict_view [simp]: "rest_view (gyr_predict A C g s) = rest_view s" "bias (gyr_predict A C g s) = bias s"
  by (simp_all add: gyr_predict_def rest_view_def Let_def)

lemma filter_views [simp]:
  "rest_view (gyr_filter A P C g s) = rest_view s" "bias (gyr_filter A P C g s) = bias s"
  "rest_view (acc_rest_filter A P C a s) = rest_view s" "bias (acc_rest_filter A P C a s) = bias s"
  "rest_view (snd (acc_earth A P C a s)) = rest_view s" "bias (snd (acc_earth A P C a s)) = bias s"
  "rest_view (acc_correct A C e s) = rest_view s" "bias (acc_correct A C e s) = bias s"
  "rest_view (snd (snd (bias_filters A P C s))) = rest_view s" "bias (snd (snd (bias_filters A P C s))) = bias s"
  by (simp_all add: gyr_filter_def acc_rest_filter_def acc_earth_def acc_correct_def bias_filters_def rest_view_def
    Let_def case_prod_beta)

lemma kalman_view: "rest_view (kalman_step A c R e w s) = rest_view s"
  by (simp add: kalman_step_def rest_view_def Let_def)

lemma bias_step_view [simp]: "rest_view (bias_step A P C e s) = rest_view s"
proof -
  have "rest_view (t\<lparr>biasP := M\<rparr>) = rest_view t" for t M by (simp add: rest_view_def)
  then show ?thesis by (simp add: bias_step_def kalman_view Let_def case_prod_beta)
qed

lemma mag_views [simp]:
  "rest_view (mag_measure A P C e s) = rest_view s" "bias (mag_measure A P C e s) = bias s"
  "rest_view (mag_disturbance A P C s) = rest_view s" "bias (mag_disturbance A P C s) = bias s"
  "rest_view (mag_candidate A P C s) = rest_view s" "bias (mag_candidate A P C s) = bias s"
  "rest_view (snd (mag_reject A P C s)) = rest_view s" "bias (snd (mag_reject A P C s)) = bias s"
  "rest_view (snd (mag_init_gain A P C k s)) = rest_view s" "bias (snd (mag_init_gain A P C k s)) = bias s"
  by (simp_all add: mag_measure_def mag_disturbance_def mag_candidate_def mag_reject_def mag_init_gain_def rest_view_def
    Let_def case_prod_beta)

lemma mag_heading_view [simp]: "rest_view (mag_heading A P C e s) = rest_view s" "bias (mag_heading A P C e s) = bias s"
proof -
  let ?t = "s\<lparr>lastMagDisAngle := wrap_once A (f_sub A (f_atan2 A (e ! 0) (e ! 1)) (delta s))\<rparr>"
  have t: "rest_view ?t = rest_view s" "bias ?t = bias s" by (simp_all add: rest_view_def)
  have "rest_view (u\<lparr>lastMagCorrAngularRate := x, delta := y\<rparr>) = rest_view u" for u x y by (simp add: rest_view_def)
  with t show "rest_view (mag_heading A P C e s) = rest_view s" "bias (mag_heading A P C e s) = bias s"
    by (simp_all add: mag_heading_def Let_def case_prod_beta)
qed

lemma updateMag_view: "rest_view (state (updateMag A m v)) = rest_view (state v)" "bias (state (updateMag A m v)) = bias (state v)"
  by (simp_all add: updateMag_def Let_def)

lemma updateGyr_view:
  "rest_view (state (updateGyr A g v)) = rest_view (gyr_rest A (params v) (coeffs v) g (state v))"
  "bias (state (updateGyr A g v)) = bias (state v)"
  by (simp_all add: updateGyr_def gyr_rest_def Let_def)

lemma updateAcc_view:
  "rest_view (state (updateAcc A a v)) =
     rest_view (if zero_sample a then state v else acc_rest A (params v) (coeffs v) a (state v))"
  by (simp add: updateAcc_def Let_def case_prod_beta)

subsection \<open>The bias stays within its clip\<close>

definition bias_within :: "f32 \<Rightarrow> vqf_state \<Rightarrow> bool" where
  "bias_within c s \<longleftrightarrow> (\<forall>x \<in> set (bias s). f_nan x \<or> f_le (f_neg c) x \<and> f_le x c)"

lemma kalman_within: "f_le 0 c \<Longrightarrow> bias_within c (kalman_step A c R e w s)"
  by (simp add: bias_within_def kalman_step_def Let_def) (blast dest: v_clip_bounds)

lemma bias_step_within:
  assumes "f_le 0 (in_rad A (biasClip P))" and "bias_within (in_rad A (biasClip P)) s"
  shows "bias_within (in_rad A (biasClip P)) (bias_step A P C e s)"
  using assms kalman_within [OF assms(1)] by (auto simp: bias_step_def Let_def case_prod_beta bias_within_def)

text \<open>C19. The bias estimate stays within the clip: whatever samples arrive and however often the filter is reset, no
  component of the estimate exceeds \<open>biasClip\<close> degrees per second, unless a larger one is set from outside; a
  component may be no number at all.\<close>

theorem bias_clipped:
  assumes "f_le 0 (in_rad A (biasClip P))"
    and "\<And>b sg x. SetBias b sg \<in> set evs \<Longrightarrow> x \<in> set b \<Longrightarrow> f_le (f_neg (in_rad A (biasClip P))) x \<and> f_le x (in_rad A (biasClip P))"
    and "x \<in> set (fst (getBiasEstimate A (vqf_run A evs (VQF_params A P g a m mem))))"
  shows "f_nan x \<or> f_le (f_neg (in_rad A (biasClip P))) x \<and> f_le x (in_rad A (biasClip P))"
proof -
  let ?c = "in_rad A (biasClip P)"
  have zero: "f_le (f_neg ?c) 0" using assms(1) by (simp add: f_le_def)
  have fresh: "bias_within ?c (state (resetState v))" for v
    using zero assms(1) by (simp add: resetState_def vqf_reset_fields_def reset_rest_def reset_mag_def bias_within_def Let_def)
  have P: "params (VQF_params A P g a m mem) = P" by (simp add: VQF_params_def vqf_setup_def resetState_def)
  have "bias_within ?c (state (vqf_step A e v))"
    if "params v = P" "bias_within ?c (state v)" "e \<in> set evs" for e v
  proof (cases e)
    case (Acc acc)
    have "bias (acc_rest A P C acc s) = bias s" for C s
      by (simp add: acc_rest_def Let_def)
    then have "bias_within ?c (acc_correct A C x (snd (acc_earth A P C acc (acc_rest A P C acc (state v)))))" for C x
      using that(2) by (simp add: bias_within_def)
    with that Acc show ?thesis
      using bias_step_within [OF assms(1)] by (simp add: updateAcc_def Let_def case_prod_beta)
  next
    case (SetBias b sg)
    with that assms(2) show ?thesis by (auto simp: setBiasEstimate_def bias_within_def Let_def)
  next
    case Reset
    with fresh show ?thesis by simp
  qed (use that in \<open>simp_all add: bias_within_def updateGyr_view updateMag_view\<close>)
  then have "bias_within ?c (state (vqf_run A es v))"
    if "params v = P" "bias_within ?c (state v)" "set es \<subseteq> set evs" for es v
    using that by (induction es arbitrary: v) simp_all
  then have "bias_within ?c (state (vqf_run A evs (VQF_params A P g a m mem)))"
    using P fresh by (simp add: VQF_params_def vqf_setup_def)
  with assms(3) show ?thesis by (simp add: bias_within_def getBiasEstimate_def Let_def)
qed

text \<open>A degenerate arithmetic for witnesses.\<close>

definition toy_arith :: vqf_arith where
  "toy_arith = float_ops.extend toy_ops (vqf_arith.fields (\<lambda>x. x) (\<lambda>x. x) (\<lambda>x. x) (\<lambda>x y. if x = 0 then y else x)
     (\<lambda>x y. x) (\<lambda>x y. x) (\<lambda>x y. x) (\<lambda>x. x) ucast ucast)"

definition blank_memory :: vqf where
  "blank_memory =
     \<lparr>params = default_params,
      coeffs = \<lparr>gyrTs = 0, accTs = 0, magTs = 0, accLpB = [], accLpA = [], kMag = 0, biasP0 = 0, biasV = 0, biasMotionW = 0,
        biasVerticalW = 0, biasRestW = 0, restGyrLpB = [], restGyrLpA = [], restAccLpB = [], restAccLpA = [], kMagRef = 0,
        magNormDipLpB = [], magNormDipLpA = []\<rparr>,
      state = \<lparr>gyrQuat = [], accQuat = [], delta = 0, restDetected = True, magDistDetected = False, lastAccLp = [],
        accLpState = [], lastAccCorrAngularRate = 0, kMagInit = 0, lastMagDisAngle = 0, lastMagCorrAngularRate = 0, bias = [],
        biasP = [], motionBiasEstRLpState = [], motionBiasEstBiasLpState = [], restLastSquaredDeviations = [], restT = 0,
        restLastGyrLp = [], restGyrLpState = [], restLastAccLp = [], restAccLpState = [], magRefNorm = 0, magRefDip = 0,
        magUndisturbedT = 0, magRejectT = 0, magCandidateNorm = 0, magCandidateDip = 0, magCandidateT = 0, magNormDip = [],
        magNormDipLpState = []\<rparr>\<rparr>"

definition toy_filter :: vqf where
  "toy_filter = VQF_params toy_arith default_params 0x40000000 0 0 blank_memory"

lemma bias_clipped_witness:
  "\<exists>x \<in> set (bias (state (vqf_run toy_arith [SetBias [0x3F000000, 0, 0] 0x3F000000, Acc [0x3E800000, 0, 0]] toy_filter))).
     \<not> f_eq x 0 \<and> f_le x 0x40000000"
proof -
  let ?evs = "[SetBias [0x3F000000, 0, 0] 0x3F000000, Acc [0x3E800000, 0, 0]]"
  let ?x = "bias (state (vqf_run toy_arith ?evs toy_filter)) ! 0"
  have x: "length (bias (state (vqf_run toy_arith ?evs toy_filter))) = 3" "\<not> f_eq ?x 0" "\<not> f_nan ?x" by code_simp+
  have c: "in_rad toy_arith (biasClip default_params) = 0x40000000" by code_simp
  have m: "?x \<in> set (fst (getBiasEstimate toy_arith (vqf_run toy_arith ?evs toy_filter)))"
    using x(1) by (simp add: getBiasEstimate_def Let_def)
  have in_range: "f_le (f_neg 0x40000000) y \<and> f_le y 0x40000000" if "SetBias b sg \<in> set ?evs" "y \<in> set b" for b sg y
  proof -
    from that have "y = 0x3F000000 \<or> y = 0" by auto
    moreover have "f_le (f_neg 0x40000000) 0x3F000000" "f_le 0x3F000000 0x40000000" "f_le (f_neg 0x40000000) 0" "f_le 0 0x40000000"
      by code_simp+
    ultimately show ?thesis by blast
  qed
  have "f_le 0 0x40000000" by code_simp
  with in_range m have "f_nan ?x \<or> f_le (f_neg 0x40000000) ?x \<and> f_le ?x 0x40000000"
    by (intro bias_clipped [where A = toy_arith and P = default_params and evs = ?evs and g = "0x40000000" and a = 0 and m = 0 and mem = blank_memory,
      unfolded c, folded toy_filter_def])
  with x have "f_le ?x 0x40000000" by blast
  with x m show ?thesis by (intro bexI [of _ ?x]) (simp_all add: getBiasEstimate_def Let_def)
qed

subsection \<open>Rest needs time\<close>

text \<open>Whether an event ends a rest.\<close>

fun disturbs :: "vqf_arith \<Rightarrow> vqf \<Rightarrow> vqf_event \<Rightarrow> bool" where
  "disturbs A v (Gyr g) \<longleftrightarrow> (restBiasEstEnabled (params v) \<or> magDistRejectionEnabled (params v)) \<and>
     gyr_disturbed A (params v) (gyr_filter A (params v) (coeffs v) g (state v))"
| "disturbs A v (Acc a) \<longleftrightarrow> restBiasEstEnabled (params v) \<and> \<not> zero_sample a \<and>
     acc_disturbed A (params v) (acc_rest_filter A (params v) (coeffs v) a (state v))"
| "disturbs A v Reset \<longleftrightarrow> True"
| "disturbs A v (Mag m) \<longleftrightarrow> False"
| "disturbs A v (SetBias b sg) \<longleftrightarrow> False"

primrec quiet :: "vqf_arith \<Rightarrow> vqf \<Rightarrow> vqf_event list \<Rightarrow> bool" where
  "quiet A v [] \<longleftrightarrow> True"
| "quiet A v (e # es) \<longleftrightarrow> \<not> disturbs A v e \<and> quiet A (vqf_step A e v) es"

lemma quiet_append [simp]: "quiet A v (es @ fs) \<longleftrightarrow> quiet A v es \<and> quiet A (vqf_run A es v) fs"
  by (induction es arbitrary: v) auto

text \<open>The time of the accelerometer samples in a list of events, added up as the code does.\<close>

definition counts :: "vqf_event \<Rightarrow> bool" where
  "counts e \<longleftrightarrow> (case e of Acc a \<Rightarrow> \<not> zero_sample a | _ \<Rightarrow> False)"

definition rest_time :: "vqf_arith \<Rightarrow> f32 \<Rightarrow> vqf_event list \<Rightarrow> f32" where
  "rest_time A ts es = fold (\<lambda>e t. if counts e then f_add A t ts else t) es 0"

lemma rest_time_simps [simp]:
  "rest_time A ts [] = 0" "rest_time A ts (es @ [e]) = (if counts e then f_add A (rest_time A ts es) ts else rest_time A ts es)"
  by (simp_all add: rest_time_def)

lemma step_rest:
  "rest_view (state (vqf_step A e v)) =
     (if disturbs A v e then (False, 0)
      else if counts e \<and> restBiasEstEnabled (params v) then
        (let t = f_add A (restT (state v)) (accTs (coeffs v)) in (restDetected (state v) \<or> f_le (restMinT (params v)) t, t))
      else rest_view (state v))"
proof (cases e)
  case (Gyr g)
  then show ?thesis by (simp add: updateGyr_view gyr_rest_def counts_def Let_def) (simp add: rest_view_def)
next
  case (Acc a)
  have "rest_view (acc_rest_filter A (params v) (coeffs v) a (state v)) = rest_view (state v)" by simp
  then have "restT (acc_rest_filter A (params v) (coeffs v) a (state v)) = restT (state v)"
    "restDetected (acc_rest_filter A (params v) (coeffs v) a (state v)) = restDetected (state v)" by (simp_all add: rest_view_def)
  with Acc show ?thesis
    by (simp add: updateAcc_view acc_rest_def counts_def Let_def) (simp add: rest_view_def)
next
  case Reset
  then show ?thesis
    by (simp add: resetState_def vqf_reset_fields_def reset_rest_def reset_mag_def rest_view_def counts_def Let_def)
next
  case (Mag m)
  then show ?thesis by (simp add: updateMag_view counts_def)
next
  case (SetBias b sg)
  then show ?thesis by (simp add: counts_def setBiasEstimate_def rest_view_def Let_def)
qed

text \<open>The events since the last disturbance account for the rest timer and for a reported rest.\<close>

definition rest_span :: "vqf_arith \<Rightarrow> vqf_params \<Rightarrow> f32 \<Rightarrow> vqf_event list \<Rightarrow> vqf_state \<Rightarrow> bool" where
  "rest_span A P ts ds s \<longleftrightarrow> (restBiasEstEnabled P \<longrightarrow> restT s = rest_time A ts ds) \<and>
     (restDetected s \<longrightarrow> (\<exists>fs gs. ds = fs @ gs \<and> f_le (restMinT P) (rest_time A ts fs)))"

lemma rest_span_start: "rest_view s = (False, 0) \<Longrightarrow> rest_span A P ts [] s"
  by (simp add: rest_span_def rest_view_def)

lemma rest_span_step:
  assumes "rest_span A (params v) (accTs (coeffs v)) ds (state v)" and "\<not> disturbs A v e"
  shows "rest_span A (params v) (accTs (coeffs v)) (ds @ [e]) (state (vqf_step A e v))"
proof -
  let ?ts = "accTs (coeffs v)" and ?P = "params v" and ?s = "state (vqf_step A e v)"
  have timer: "restBiasEstEnabled ?P \<longrightarrow> restT ?s = rest_time A ?ts (ds @ [e])"
    using assms step_rest [of A e v] by (auto simp: rest_span_def rest_view_def Let_def split: if_split_asm)
  have early: "\<exists>fs gs. ds @ [e] = fs @ gs \<and> f_le (restMinT ?P) (rest_time A ?ts fs)" if "restDetected (state v)"
    using assms(1) that unfolding rest_span_def by (metis append_assoc)
  have "restDetected (state v) \<or> f_le (restMinT ?P) (rest_time A ?ts (ds @ [e]))" if "restDetected ?s"
    using that assms step_rest [of A e v] by (auto simp: rest_span_def rest_view_def Let_def split: if_split_asm)
  with early have "restDetected ?s \<longrightarrow> (\<exists>fs gs. ds @ [e] = fs @ gs \<and> f_le (restMinT ?P) (rest_time A ?ts fs))"
    by (metis append_Nil2)
  with timer show ?thesis by (simp add: rest_span_def)
qed

lemma rest_span_run:
  assumes "rest_view (state v) = (False, 0)"
  shows "\<exists>es ds. evs = es @ ds \<and> quiet A (vqf_run A es v) ds \<and> rest_span A (params v) (accTs (coeffs v)) ds (state (vqf_run A evs v))"
proof (induction evs rule: rev_induct)
  case Nil
  with assms show ?case by (simp add: rest_span_start)
next
  case (snoc e evs)
  let ?w = "vqf_run A evs v"
  from snoc obtain es ds where h: "evs = es @ ds" "quiet A (vqf_run A es v) ds" "rest_span A (params v) (accTs (coeffs v)) ds (state ?w)"
    by blast
  show ?case
  proof (cases "disturbs A ?w e")
    case True
    with step_rest [of A e ?w] show ?thesis
      by (intro exI [of _ "evs @ [e]"] exI [of _ "[]"]) (simp add: rest_span_start)
  next
    case False
    with h rest_span_step [of A ?w ds e] show ?thesis
      by (intro exI [of _ es] exI [of _ "ds @ [e]"]) (simp add: run_keeps)
  qed
qed

text \<open>C18. Rest is never reported early: whatever samples arrive, when the filter reports rest, the last event that moved
  the sensor, as the thresholds see it, or reset the filter, is followed by accelerometer samples whose sampling times
  add up to at least \<open>restMinT\<close>.\<close>

theorem rest_needs_time:
  assumes "getRestDetected (vqf_run A evs (VQF_params A P g a m mem))"
  shows "\<exists>es fs gs. evs = es @ fs @ gs \<and> quiet A (vqf_run A es (VQF_params A P g a m mem)) (fs @ gs) \<and>
    f_le (restMinT P) (rest_time A (accTs (coeffs (VQF_params A P g a m mem))) fs)"
proof -
  let ?v = "VQF_params A P g a m mem"
  have P: "params ?v = P" by (simp add: VQF_params_def vqf_setup_def resetState_def)
  have "rest_view (state ?v) = (False, 0)"
    by (simp add: VQF_params_def vqf_setup_def resetState_def vqf_reset_fields_def reset_rest_def reset_mag_def rest_view_def Let_def)
  from rest_span_run [OF this, of evs A] assms show ?thesis
    unfolding getRestDetected_def rest_span_def P by blast
qed

lemma rest_needs_time_witness:
  "getRestDetected (vqf_run toy_arith [Acc [0x3E800000, 0, 0]] toy_filter) \<and>
   (\<exists>es fs gs. [Acc [0x3E800000, 0, 0]] = es @ fs @ gs \<and> f_le 0x3FC00000 (rest_time toy_arith 0x40000000 fs))"
proof -
  have r: "getRestDetected (vqf_run toy_arith [Acc [0x3E800000, 0, 0]] toy_filter)" by code_simp
  have "accTs (coeffs toy_filter) = 0x40000000" "restMinT default_params = 0x3FC00000" by code_simp+
  with rest_needs_time [OF r [unfolded toy_filter_def]] r show ?thesis unfolding toy_filter_def by metis
qed

subsection \<open>The filter in the fusion wrapper\<close>

definition vec_list :: "vec3 \<Rightarrow> f32 list" where
  "vec_list v = (case v of (x, y, z) \<Rightarrow> [x, y, z])"

definition list_vec :: "f32 list \<Rightarrow> vec3" where
  "list_vec xs = (xs ! 0, xs ! 1, xs ! 2)"

lemma list_vec_list [simp]: "list_vec (vec_list v) = v"
  by (simp add: list_vec_def vec_list_def split: prod.split)

text \<open>The methods that the wrapper calls; \<open>mem\<close> is the memory in which it constructs the filter.\<close>

definition vqf_filter :: "vqf_arith \<Rightarrow> vqf \<Rightarrow> (vqf, vqf_state) vqf_ops" where
  "vqf_filter A mem =
     \<lparr>vqf_new = (\<lambda>dt. VQF A dt 0xBF800000 0xBF800000 mem), vqf_updateGyr = (\<lambda>g. updateGyr A (vec_list g)),
      vqf_updateAcc = (\<lambda>a. updateAcc A (vec_list a)),
      vqf_getQuat6D = (\<lambda>v. let q = getQuat6D A v in (q ! 0, q ! 1, q ! 2, q ! 3)),
      vqf_getBiasEstimate = (\<lambda>v. apfst list_vec (getBiasEstimate A v)),
      vqf_setBiasEstimate = (\<lambda>b. setBiasEstimate A (vec_list b)),
      vqf_getRelativeRestDeviations = (\<lambda>v. let d = getRelativeRestDeviations A v in (d ! 0, d ! 1)),
      vqf_getRestDetected = getRestDetected, vqf_getState = getState, vqf_setState = setState, vqf_resetState = resetState\<rparr>"

interpretation vqf_laws: gyro_filter "vqf_filter A mem" for A mem
  by unfold_locales (simp_all add: vqf_filter_def getBiasEstimate_def setBiasEstimate_def getState_def setState_def
    getQuat6D_def state_quat6D_def Let_def)

text \<open>C21. Standby and a change of the sample rate keep the gyroscope bias: after a suspension and the resumption that ends it
  the VQF filter has the bias it had before, the slew clamp takes it as the trusted one, the yaw offset is kept and
  the rest gate starts afresh; a resumption without a suspension changes nothing; and the filter that is
  constructed for another rate has the bias and the attitude of the old one.\<close>

theorem standby_keeps_bias:
  fixes s :: "vqf htk_fusion" and A :: vqf_arith and mem :: vqf and F :: float_ops and hz :: f32
  defines "V \<equiv> vqf_filter A mem"
  defines "r \<equiv> htk_fusion_resume V (htk_fusion_suspend V s)" and "h \<equiv> htk_fusion_set_sample_rate F V hz s"
  shows "fst (vqf_getBiasEstimate V (filt r)) = fst (vqf_getBiasEstimate V (filt s)) \<and>
    g_bias_prev r = fst (vqf_getBiasEstimate V (filt s)) \<and> g_bias_latched r = g_bias_latched s \<and>
    g_psi_hold r = g_psi_hold s \<and> \<not> htk_fusion_rest r \<and> g_reseed r \<and> htk_fusion_resume V r = r \<and>
    fst (vqf_getBiasEstimate V (filt h)) = fst (vqf_getBiasEstimate V (filt s)) \<and>
    vqf_getQuat6D V (filt h) = vqf_getQuat6D V (filt s)"
  unfolding V_def r_def h_def by (intro conjI vqf_laws.standby vqf_laws.rate_change)

end
