(* ===== verification/Htgen.thy ===== *)
theory Htgen
  imports Parser Floats
begin

text \<open>
  The stream generator \<^verbatim>\<open>host/tools/htgen/htgen.cpp\<close>: options, random numbers, and the bytes that a dongle with
  \<open>K\<close> synthetic trackers would send, on demand with damaged frames in between. The bytes that the program
  writes are a list; \<^verbatim>\<open>fopen\<close> is a parameter that says which files can be opened, \<^verbatim>\<open>unsigned long\<close> has 64 bits.
\<close>

subsection \<open>Random numbers\<close>

definition rng_new :: "u64 \<Rightarrow> u64" where
  "rng_new seed = (if seed \<noteq> 0 then seed else 1)"

definition rng_next :: "u64 \<Rightarrow> u64 \<times> u64" where
  "rng_next s =
     (let s = s XOR drop_bit 12 s; s = s XOR push_bit 25 s; s = s XOR drop_bit 27 s in (s * 0x2545F4914F6CDD1D, s))"

definition rng_below :: "u32 \<Rightarrow> u64 \<Rightarrow> u32 \<times> u64" where
  "rng_below n s = (case rng_next s of (v, s) \<Rightarrow> (ucast (v mod ucast n), s))"

subsection \<open>Options\<close>

record gen_options =
  go_frames :: u32
  go_rate :: u32
  go_trackers :: u32
  go_garbage_pct :: u32
  go_seed :: u64
  go_out :: string
  go_hello :: bool

definition gen_defaults :: gen_options where
  "gen_defaults = \<lparr>go_frames = 2080, go_rate = 208, go_trackers = 1, go_garbage_pct = 0, go_seed = 42, go_out = [], go_hello = True\<rparr>"

text \<open>\<^verbatim>\<open>std::stoul\<close> and \<^verbatim>\<open>std::stoull\<close>: \<open>None\<close> is an exception, which nobody catches.\<close>

definition digit_of :: "char \<Rightarrow> nat option" where
  "digit_of c = (let n = of_char c :: nat in if 48 \<le> n \<and> n \<le> 57 then Some (n - 48) else None)"

fun read_digits :: "string \<Rightarrow> nat \<Rightarrow> nat" where
  "read_digits [] acc = acc"
| "read_digits (c # cs) acc = (case digit_of c of None \<Rightarrow> acc | Some d \<Rightarrow> read_digits cs (10 * acc + d))"

definition stoul :: "string \<Rightarrow> u64 option" where
  "stoul str =
     (let cs = dropWhile (\<lambda>c. of_char c \<in> {32, 9, 10, 11, 12, 13 :: nat}) str;
          (minus, cs) = (case cs of [] \<Rightarrow> (False, []) | c # cs' \<Rightarrow>
             if c = CHR ''-'' then (True, cs') else if c = CHR ''+'' then (False, cs') else (False, cs));
          n = read_digits cs 0 in
      if cs = [] \<or> digit_of (hd cs) = None \<or> n \<ge> 2 ^ 64 then None
      else Some (if minus then - of_nat n else of_nat n))"

datatype gen_parse = GenOptions gen_options | GenUsage | GenThrew

text \<open>The next argument as the value of an option; \<open>0\<close> if there is none.\<close>

definition arg_val :: "string list \<Rightarrow> string" where
  "arg_val args = (case args of [] \<Rightarrow> ''0'' | v # _ \<Rightarrow> v)"

definition with_number :: "string list \<Rightarrow> (u64 \<Rightarrow> gen_options) \<Rightarrow> (gen_options \<Rightarrow> gen_parse) \<Rightarrow> gen_parse" where
  "with_number args set_opt go = (case stoul (arg_val args) of None \<Rightarrow> GenThrew | Some n \<Rightarrow> go (set_opt n))"

fun gen_args :: "string list \<Rightarrow> gen_options \<Rightarrow> gen_parse" where
  "gen_args [] opt = GenOptions opt"
| "gen_args (a # args) opt =
     (let go = gen_args (drop 1 args) in
      if a = ''--frames'' then with_number args (\<lambda>n. opt\<lparr>go_frames := ucast n\<rparr>) go
      else if a = ''--rate'' then with_number args (\<lambda>n. opt\<lparr>go_rate := ucast n\<rparr>) go
      else if a = ''--trackers'' then with_number args (\<lambda>n. opt\<lparr>go_trackers := ucast n\<rparr>) go
      else if a = ''--garbage'' then with_number args (\<lambda>n. opt\<lparr>go_garbage_pct := ucast n\<rparr>) go
      else if a = ''--seed'' then with_number args (\<lambda>n. opt\<lparr>go_seed := n\<rparr>) go
      else if a = ''--out'' then go (opt\<lparr>go_out := arg_val args\<rparr>)
      else if a = ''--no-hello'' then gen_args args (opt\<lparr>go_hello := False\<rparr>)
      else GenUsage)"

subsection \<open>Output\<close>

record gen_state =
  gs_rng :: u64
  gs_seq :: "u16 list"
  gs_out :: bytes

definition fwrite :: "bytes \<Rightarrow> gen_state \<Rightarrow> gen_state" where
  "fwrite bs s = s\<lparr>gs_out := gs_out s @ bs\<rparr>"

text \<open>The three ways to damage a frame: a byte flip (the right operand of \<^verbatim>\<open>^=\<close> is evaluated first), truncation, noise.\<close>

definition damage_flip :: "bytes \<Rightarrow> gen_state \<Rightarrow> gen_state" where
  "damage_flip frame s =
     (let (x, r) = rng_below 255 (gs_rng s); (i, r) = rng_below (of_nat (length frame)) r in
      fwrite (frame[unat i := frame ! unat i XOR ucast (1 + x)]) (s\<lparr>gs_rng := r\<rparr>))"

definition damage_cut :: "bytes \<Rightarrow> gen_state \<Rightarrow> gen_state" where
  "damage_cut frame s =
     (let (k, r) = rng_below (of_nat (length frame - 1)) (gs_rng s) in fwrite (take (unat (1 + k)) frame) (s\<lparr>gs_rng := r\<rparr>))"

primrec junk_bytes :: "nat \<Rightarrow> u64 \<Rightarrow> bytes \<times> u64" where
  "junk_bytes 0 r = ([], r)"
| "junk_bytes (Suc k) r = (let (v, r) = rng_next r; (bs, r) = junk_bytes k r in (ucast v # bs, r))"

definition damage_noise :: "bytes \<Rightarrow> gen_state \<Rightarrow> gen_state" where
  "damage_noise frame s = (let (junk, r) = junk_bytes 16 (gs_rng s) in fwrite frame (fwrite junk (s\<lparr>gs_rng := r\<rparr>)))"

definition gen_emit :: "gen_options \<Rightarrow> bytes \<Rightarrow> gen_state \<Rightarrow> gen_state" where
  "gen_emit opt payload s =
     (let frame = htk_frame_encode payload HTK_MAX_FRAME in
      if frame = [] then s
      else
        (let (hit, s) = (if go_garbage_pct opt > 0
               then (let (x, r) = rng_below 100 (gs_rng s) in (x < go_garbage_pct opt, s\<lparr>gs_rng := r\<rparr>)) else (False, s)) in
         if hit then
           (let (kind, r) = rng_below 3 (gs_rng s); s = s\<lparr>gs_rng := r\<rparr> in
            if kind = 0 then damage_flip frame s else if kind = 1 then damage_cut frame s else damage_noise frame s)
         else fwrite frame s))"

subsection \<open>The stream\<close>

definition gen_hello :: htk_hello_resp where
  "gen_hello = \<lparr>hr_type = HTK_PKT_HELLO_RESP, hr_proto_ver = HTK_PROTO_VERSION, hr_fw_major = HTK_FW_MAJOR,
     hr_fw_minor = HTK_FW_MINOR, hr_fw_patch = HTK_FW_PATCH, hr_device = 1,
     hr_caps = HTK_CAP_QUAT OR HTK_CAP_RAW OR HTK_CAP_SIM OR HTK_CAP_MULTI\<rparr>"

definition gen_angle :: "float_ops \<Rightarrow> u32 \<Rightarrow> u32 \<Rightarrow> f32" where
  "gen_angle F t_us k =
     f_add F (f_mul F (f_div F (f_mul F 0x41200000 0x40490FDB) 0x43340000) (f_mul F (f_of_u32 F t_us) 0x358637BD))
       (f_mul F (f_of_u32 F k) 0x3F000000)"

definition gen_orient :: "float_ops \<Rightarrow> u32 \<Rightarrow> u32 \<Rightarrow> u16 \<Rightarrow> htk_orient" where
  "gen_orient F t_us k sq = (let h = f_div F (gen_angle F t_us k) 0x40000000 in
     \<lparr>or_type = HTK_PKT_ORIENT, or_id = ucast (0x1000 + k), or_seq = sq, or_t_us = t_us, or_q_w = f_cos F h, or_q_x = 0,
      or_q_y = 0, or_q_z = f_sin F h, or_flags = HTK_ORIENT_BIAS_OK OR HTK_ORIENT_SIM\<rparr>)"

definition gen_status :: "gen_options \<Rightarrow> u32 \<Rightarrow> htk_status" where
  "gen_status opt t_us = \<lparr>st_type = HTK_PKT_STATUS, st_uptime_ms = t_us div 1000, st_rx_rate = ucast (go_rate opt * go_trackers opt),
     st_n_trackers = ucast (go_trackers opt), st_flags = 0\<rparr>"

definition gen_tracker_stat :: "gen_options \<Rightarrow> u32 \<Rightarrow> htk_tracker_stat" where
  "gen_tracker_stat opt k = \<lparr>ts_type = HTK_PKT_TRACKER_STAT, ts_id = ucast (0x1000 + k), ts_age_ms = 0, ts_rate = ucast (go_rate opt),
     ts_seq_lost = 0, ts_vbat_mV = 4100, ts_fw_major = HTK_FW_MAJOR, ts_fw_minor = HTK_FW_MINOR, ts_fw_patch = HTK_FW_PATCH,
     ts_mode = HTK_MODE_QUAT, ts_flags = HTK_TSTAT_LINK_UP\<rparr>"

definition gen_period_us :: "gen_options \<Rightarrow> u32" where
  "gen_period_us opt = 1000000 div go_rate opt"

definition gen_sample :: "float_ops \<Rightarrow> gen_options \<Rightarrow> u32 \<Rightarrow> nat \<Rightarrow> gen_state \<Rightarrow> gen_state" where
  "gen_sample F opt t_us k s =
     (let p = gen_orient F t_us (of_nat k) (gs_seq s ! k); s = s\<lparr>gs_seq := (gs_seq s)[k := gs_seq s ! k + 1]\<rparr> in
      gen_emit opt (enc_orient p) s)"

definition gen_housekeeping :: "gen_options \<Rightarrow> u32 \<Rightarrow> gen_state \<Rightarrow> gen_state" where
  "gen_housekeeping opt t_us s =
     fold (\<lambda>k. gen_emit opt (enc_tracker_stat (gen_tracker_stat opt (of_nat k)))) [0..<unat (go_trackers opt)]
       (gen_emit opt (enc_status (gen_status opt t_us)) s)"

definition gen_round :: "float_ops \<Rightarrow> gen_options \<Rightarrow> nat \<Rightarrow> gen_state \<Rightarrow> gen_state" where
  "gen_round F opt n s =
     (let t_us = of_nat n * gen_period_us opt;
          s = fold (gen_sample F opt t_us) [0..<unat (go_trackers opt)] s in
      if of_nat n mod go_rate opt = 0 then gen_housekeeping opt t_us s else s)"

definition gen_stream :: "float_ops \<Rightarrow> gen_options \<Rightarrow> bytes" where
  "gen_stream F opt =
     (let s = \<lparr>gs_rng = rng_new (go_seed opt), gs_seq = replicate 8 0, gs_out = []\<rparr>;
          s = (if go_hello opt then fwrite (htk_frame_encode (enc_hello_resp gen_hello) HTK_MAX_FRAME) s else s) in
      gs_out (fold (gen_round F opt) [0..<unat (go_frames opt)] s))"

text \<open>The program: its exit code (\<open>None\<close>: an exception ends it) and what it writes, with the file's name (empty: standard output).\<close>

definition htgen_main :: "float_ops \<Rightarrow> (string \<Rightarrow> bool) \<Rightarrow> string list \<Rightarrow> nat option \<times> (string \<times> bytes) option" where
  "htgen_main F can_open args =
     (case gen_args args gen_defaults of
        GenThrew \<Rightarrow> (None, None)
      | GenUsage \<Rightarrow> (Some 2, None)
      | GenOptions opt \<Rightarrow>
          if go_rate opt = 0 \<or> go_trackers opt = 0 \<or> go_trackers opt > 8 then (Some 2, None)
          else if go_out opt \<noteq> [] \<and> \<not> can_open (go_out opt) then (Some 1, None)
          else (Some 0, Some (go_out opt, gen_stream F opt)))"

subsection \<open>What the stream says\<close>

definition round_packets :: "float_ops \<Rightarrow> gen_options \<Rightarrow> nat \<Rightarrow> packet list" where
  "round_packets F opt n =
     (let t_us = of_nat n * gen_period_us opt; ks = [0..<unat (go_trackers opt)] in
      map (\<lambda>k. POrient (gen_orient F t_us (of_nat k) (of_nat n))) ks @
      (if of_nat n mod go_rate opt = 0
       then PStatus (gen_status opt t_us) # map (\<lambda>k. PTrackerStat (gen_tracker_stat opt (of_nat k))) ks else []))"

definition gen_packets :: "float_ops \<Rightarrow> gen_options \<Rightarrow> packet list" where
  "gen_packets F opt =
     (if go_hello opt then [PHelloResp gen_hello] else []) @ concat (map (round_packets F opt) [0..<unat (go_frames opt)])"

abbreviation frames_of_packets :: "packet list \<Rightarrow> bytes" where
  "frames_of_packets ps \<equiv> concat (map (\<lambda>p. htk_frame_encode (packet_bytes p) HTK_MAX_FRAME) ps)"

lemma emit_clean: "go_garbage_pct opt = 0 \<Longrightarrow> gen_emit opt (packet_bytes p) s = fwrite (frames_of_packets [p]) s"
  by (simp add: gen_emit_def fwrite_def Let_def)

lemma emits_clean:
  "go_garbage_pct opt = 0 \<Longrightarrow> fold (\<lambda>k. gen_emit opt (packet_bytes (p k))) ks s = fwrite (frames_of_packets (map p ks)) s"
  by (induction ks arbitrary: s) (simp_all add: emit_clean, simp_all add: fwrite_def comp_def)

text \<open>After \<open>n\<close> rounds every tracker is at sequence number \<open>n\<close>.\<close>

definition seqs_at :: "gen_options \<Rightarrow> nat \<Rightarrow> nat \<Rightarrow> u16 list \<Rightarrow> bool" where
  "seqs_at opt n j sq \<longleftrightarrow> length sq = 8 \<and> (\<forall>k < unat (go_trackers opt). sq ! k = (if k < j then of_nat n + 1 else of_nat n))"

lemma samples_clean:
  assumes "go_garbage_pct opt = 0" and "unat (go_trackers opt) \<le> 8" and "seqs_at opt n 0 (gs_seq s)" and "j \<le> unat (go_trackers opt)"
  shows "\<exists>sq. fold (gen_sample F opt t) [0..<j] s =
      (fwrite (frames_of_packets (map (\<lambda>k. POrient (gen_orient F t (of_nat k) (of_nat n))) [0..<j])) s)\<lparr>gs_seq := sq\<rparr> \<and> seqs_at opt n j sq"
  using assms(4)
proof (induction j)
  case 0
  with assms(3) show ?case by (intro exI [of _ "gs_seq s"]) (simp add: fwrite_def)
next
  case (Suc j)
  then obtain sq where IH: "fold (gen_sample F opt t) [0..<j] s =
      (fwrite (frames_of_packets (map (\<lambda>k. POrient (gen_orient F t (of_nat k) (of_nat n))) [0..<j])) s)\<lparr>gs_seq := sq\<rparr>"
    and sq: "seqs_at opt n j sq" by auto
  have j: "sq ! j = of_nat n" "j < length sq" using sq Suc.prems assms(2) by (auto simp: seqs_at_def)
  have e: "gen_sample F opt t j u = fwrite (frames_of_packets [POrient (gen_orient F t (of_nat j) (gs_seq u ! j))])
      (u\<lparr>gs_seq := (gs_seq u)[j := gs_seq u ! j + 1]\<rparr>)" for u
    using emit_clean [OF assms(1), of "POrient (gen_orient F t (of_nat j) (gs_seq u ! j))"] by (simp add: gen_sample_def Let_def)
  have "seqs_at opt n (Suc j) (sq[j := of_nat n + 1])"
    using sq j by (auto simp: seqs_at_def nth_list_update less_Suc_eq)
  with IH j show ?case by (intro exI [of _ "sq[j := of_nat n + 1]"]) (simp add: e, simp add: fwrite_def)
qed

lemma housekeeping_clean:
  assumes "go_garbage_pct opt = 0"
  shows "gen_housekeeping opt t s = fwrite (frames_of_packets
    (PStatus (gen_status opt t) # map (\<lambda>k. PTrackerStat (gen_tracker_stat opt (of_nat k))) [0..<unat (go_trackers opt)])) s"
  using emit_clean [OF assms, of "PStatus (gen_status opt t)"]
    emits_clean [OF assms, of "\<lambda>k. PTrackerStat (gen_tracker_stat opt (of_nat k))"]
  by (simp add: gen_housekeeping_def, simp add: fwrite_def)

lemma round_clean:
  assumes "go_garbage_pct opt = 0" and "unat (go_trackers opt) \<le> 8" and "seqs_at opt n 0 (gs_seq s)"
  shows "\<exists>sq. gen_round F opt n s = (fwrite (frames_of_packets (round_packets F opt n)) s)\<lparr>gs_seq := sq\<rparr> \<and> seqs_at opt (Suc n) 0 sq"
proof -
  let ?t = "of_nat n * gen_period_us opt" and ?j = "unat (go_trackers opt)"
  obtain sq where a: "fold (gen_sample F opt ?t) [0..<?j] s =
      (fwrite (frames_of_packets (map (\<lambda>k. POrient (gen_orient F ?t (of_nat k) (of_nat n))) [0..<?j])) s)\<lparr>gs_seq := sq\<rparr>"
    and sq: "seqs_at opt n ?j sq" using samples_clean [OF assms order_refl, of F ?t] by blast
  have "seqs_at opt (Suc n) 0 sq" using sq by (simp add: seqs_at_def add.commute)
  moreover have "gen_round F opt n s = (fwrite (frames_of_packets (round_packets F opt n)) s)\<lparr>gs_seq := sq\<rparr>"
    unfolding gen_round_def round_packets_def Let_def a housekeeping_clean [OF assms(1)] by (simp add: fwrite_def)
  ultimately show ?thesis by blast
qed

lemma rounds_clean:
  assumes "go_garbage_pct opt = 0" and "unat (go_trackers opt) \<le> 8" and "seqs_at opt 0 0 (gs_seq s)"
  shows "\<exists>sq. fold (gen_round F opt) [0..<m] s =
      (fwrite (frames_of_packets (concat (map (round_packets F opt) [0..<m]))) s)\<lparr>gs_seq := sq\<rparr> \<and> seqs_at opt m 0 sq"
proof (induction m)
  case 0
  with assms(3) show ?case by (intro exI [of _ "gs_seq s"]) (simp add: fwrite_def)
next
  case (Suc m)
  then obtain sq where IH: "fold (gen_round F opt) [0..<m] s =
      (fwrite (frames_of_packets (concat (map (round_packets F opt) [0..<m]))) s)\<lparr>gs_seq := sq\<rparr>" and sq: "seqs_at opt m 0 sq" by blast
  let ?s = "(fwrite (frames_of_packets (concat (map (round_packets F opt) [0..<m]))) s)\<lparr>gs_seq := sq\<rparr>"
  obtain sq' where r: "gen_round F opt m ?s = (fwrite (frames_of_packets (round_packets F opt m)) ?s)\<lparr>gs_seq := sq'\<rparr>"
    and "seqs_at opt (Suc m) 0 sq'" using round_clean [OF assms(1,2), of m ?s F] sq by auto
  then show ?case using IH by (intro exI [of _ sq']) (simp add: fwrite_def)
qed

lemma stream_clean:
  assumes "go_garbage_pct opt = 0" and "unat (go_trackers opt) \<le> 8"
  shows "gen_stream F opt = frames_of_packets (gen_packets F opt)"
proof -
  let ?s0 = "\<lparr>gs_rng = rng_new (go_seed opt), gs_seq = replicate 8 0, gs_out = []\<rparr>"
  let ?hello = "htk_frame_encode (enc_hello_resp gen_hello) HTK_MAX_FRAME"
  let ?s = "if go_hello opt then fwrite ?hello ?s0 else ?s0"
  have "seqs_at opt 0 0 (gs_seq ?s)" using assms(2) by (simp add: seqs_at_def fwrite_def)
  from rounds_clean [OF assms this, of F "unat (go_frames opt)"] show ?thesis
    unfolding gen_stream_def Let_def by (auto simp: gen_packets_def fwrite_def)
qed

lemma gen_packets_wf: "pkt \<in> set (gen_packets F opt) \<Longrightarrow> packet_wf pkt"
  by (auto simp: gen_packets_def gen_hello_def round_packets_def gen_orient_def gen_status_def gen_tracker_stat_def Let_def
    split: if_split_asm)

text \<open>A fresh parser that is fed frames back to back delivers their packets and nothing else.\<close>

lemma feed_frames:
  assumes "\<And>pkt. pkt \<in> set pkts \<Longrightarrow> packet_wf pkt" and "fold (feed cbs) chunks (parser_init, env) = (p, env')"
    and "concat chunks = frames_of_packets pkts"
  shows "env' = fold (deliver cbs) pkts env \<and> stats p = (stats parser_init)\<lparr>frames_ok := of_nat (length pkts)\<rparr> \<and>
    buf p = [] \<and> \<not> discarding p"
proof -
  let ?ps = "map packet_bytes pkts"
  have ok: "\<forall>p \<in> set ?ps. payload_ok p" and wf: "\<forall>pkt \<in> set pkts. packet_wf pkt" using assms(1) packet_bytes_ok by auto
  have run: "fold (feed_byte cbs) (concat (map (\<lambda>p. htk_frame_encode p 64) ?ps)) (parser_init, env) = (p, env')"
    using assms(2,3) by (simp add: feed_chunks feed_def comp_def)
  have fresh: "parser_view (parser_init, env) = Some []" by (simp add: parser_view_def parser_init_def)
  from host.delivers [OF fresh ok, of cbs] process_packets [OF wf, of cbs "stats parser_init" env]
  have "(stats p, env') = ((stats parser_init)\<lparr>frames_ok := of_nat (length pkts)\<rparr>, fold (deliver cbs) pkts env)"
    "parser_view (p, env') = Some []" unfolding run by (simp_all add: parser_obs_def) (simp add: parser_init_def)
  then show ?thesis by (auto simp: parser_view_def split: if_split_asm)
qed

text \<open>C39. A capture that the generator writes without garbage is a complete session: fed to a fresh host parser, in any
  chunks, it delivers exactly the HELLO_RESP, for every round one ORIENT for each tracker with consecutive
  sequence numbers, and every second a STATUS and the TRACKER_STATs, with no decode error and nothing left over.\<close>

theorem capture_replays:
  assumes "gen_args args gen_defaults = GenOptions opt" and "go_garbage_pct opt = 0"
    and "htgen_main F can_open args = (Some 0, Some (name, concat chunks))"
    and "fold (feed cbs) chunks (parser_init, env) = (p, env')"
  shows "env' = fold (deliver cbs) (gen_packets F opt) env \<and>
    stats p = (stats parser_init)\<lparr>frames_ok := of_nat (length (gen_packets F opt))\<rparr> \<and> buf p = [] \<and> \<not> discarding p"
proof -
  from assms(1,3) have "go_trackers opt \<le> 8" and s: "concat chunks = gen_stream F opt"
    by (auto simp: htgen_main_def split: if_split_asm)
  then have "unat (go_trackers opt) \<le> 8" by (simp add: word_le_nat_alt)
  from feed_frames [OF gen_packets_wf assms(4)] s stream_clean [OF assms(2) this] show ?thesis by simp
qed

lemma capture_replays_witness:
  "\<exists>env. snd (feed logging (gen_stream toy_ops (gen_defaults\<lparr>go_frames := 1, go_trackers := 2\<rparr>)) (parser_init, [])) = env \<and>
     length env = 6 \<and> hd env = PHelloResp gen_hello"
proof -
  let ?args = "[''--frames'', ''1'', ''--trackers'', ''2'']" and ?opt = "gen_defaults\<lparr>go_frames := 1, go_trackers := 2\<rparr>"
  let ?bs = "gen_stream toy_ops ?opt"
  have a: "gen_args ?args gen_defaults = GenOptions ?opt"
    by (simp add: with_number_def arg_val_def stoul_def digit_of_def gen_defaults_def Let_def)
  have b: "htgen_main toy_ops (\<lambda>_. True) ?args = (Some 0, Some ([], concat [?bs]))"
    unfolding htgen_main_def a by (simp add: gen_defaults_def)
  obtain p env where r: "fold (feed logging) [?bs] (parser_init, []) = (p, env)" by fastforce
  have "go_garbage_pct ?opt = 0" by (simp add: gen_defaults_def)
  from capture_replays [OF a this b r] have "env = fold (deliver logging) (gen_packets toy_ops ?opt) []" by blast
  moreover have "length (fold (deliver logging) (gen_packets toy_ops ?opt) []) = 6"
    "hd (fold (deliver logging) (gen_packets toy_ops ?opt) []) = PHelloResp gen_hello" by code_simp+
  ultimately show ?thesis using r by simp
qed

end
