(* ===== verification/Htmon.thy ===== *)
theory Htmon
  imports Client Stabilizer
begin

text \<open>
  The monitor \<^verbatim>\<open>host/tools/htmon/htmon.cpp\<close>: its options, the choice of the transport, what the reader thread hands to
  the display and to the stabilizer, and the decisions of the display loop: one-shot commands, keys, when it ends
  and with which exit code. What it prints is not modelled, nor the terminal settings. \<^verbatim>\<open>unsigned long\<close> has 64 bits.
\<close>

subsection \<open>Options\<close>

record mon_options =
  mo_port :: string
  mo_replay :: string
  mo_record :: string
  mo_list :: bool
  mo_fast :: bool
  mo_loop :: bool
  mo_once :: bool
  mo_json :: bool
  mo_have_select :: bool
  mo_select :: u16
  mo_identify :: int
  mo_reset_fusion :: int
  mo_set_rate_id :: int
  mo_set_rate_hz :: int
  mo_set_mode_id :: int
  mo_set_mode_val :: int
  mo_sim :: int

definition mon_defaults :: mon_options where
  "mon_defaults = \<lparr>mo_port = [], mo_replay = [], mo_record = [], mo_list = False, mo_fast = False, mo_loop = False,
     mo_once = False, mo_json = False, mo_have_select = False, mo_select = 0, mo_identify = -1, mo_reset_fusion = -1,
     mo_set_rate_id = -1, mo_set_rate_hz = 0, mo_set_mode_id = -1, mo_set_mode_val = 0, mo_sim = -1\<rparr>"

text \<open>\<^verbatim>\<open>strtoul(s, nullptr, 0)\<close>: white space, a sign, hexadecimal after \<open>0x\<close>, octal after \<open>0\<close>; 0 if there is no
  number, the greatest number if it is too large.\<close>

definition digit_in :: "nat \<Rightarrow> char \<Rightarrow> nat option" where
  "digit_in b c =
     (let n = of_char c :: nat;
          v = (if 48 \<le> n \<and> n \<le> 57 then n - 48 else if 65 \<le> n \<and> n \<le> 90 then n - 55
               else if 97 \<le> n \<and> n \<le> 122 then n - 87 else b) in
      if v < b then Some v else None)"

fun read_base :: "nat \<Rightarrow> string \<Rightarrow> nat \<Rightarrow> nat" where
  "read_base b [] acc = acc"
| "read_base b (c # cs) acc = (case digit_in b c of None \<Rightarrow> acc | Some d \<Rightarrow> read_base b cs (b * acc + d))"

definition strtoul_auto :: "string \<Rightarrow> u64" where
  "strtoul_auto str =
     (let cs = dropWhile (\<lambda>c. of_char c \<in> {32, 9, 10, 11, 12, 13 :: nat}) str;
          minus = (cs \<noteq> [] \<and> hd cs = CHR ''-''); cs = (if cs \<noteq> [] \<and> hd cs \<in> {CHR ''-'', CHR ''+''} then tl cs else cs);
          n = (if take 1 cs = ''0'' then
                 (if length cs > 2 \<and> cs ! 1 \<in> {CHR ''x'', CHR ''X''} \<and> digit_in 16 (cs ! 2) \<noteq> None
                  then read_base 16 (drop 2 cs) 0 else read_base 8 cs 0)
               else read_base 10 cs 0) in
      if n \<ge> 2 ^ 64 then - 1 else if minus then - of_nat n else of_nat n)"

definition parse_id :: "string \<Rightarrow> u16" where
  "parse_id str = ucast (strtoul_auto str)"

datatype mon_parse = MonOptions mon_options | MonExit nat

definition id_of :: "string \<Rightarrow> int" where
  "id_of v = uint (parse_id v)"

fun mon_args :: "string list \<Rightarrow> mon_options \<Rightarrow> mon_parse" where
  "mon_args [] opt = MonOptions opt"
| "mon_args (a # args) opt =
     (let val = (\<lambda>set_opt. if args = [] then MonExit 2 else mon_args (drop 1 args) (set_opt (hd args)));
          val2 = (\<lambda>set_opt. if length args < 2 then MonExit 2 else mon_args (drop 2 args) (set_opt (args ! 0) (args ! 1))) in
      if a = ''--help'' \<or> a = ''-h'' then MonExit 0
      else if a = ''--list'' then mon_args args (opt\<lparr>mo_list := True\<rparr>)
      else if a = ''--fast'' then mon_args args (opt\<lparr>mo_fast := True\<rparr>)
      else if a = ''--loop'' then mon_args args (opt\<lparr>mo_loop := True\<rparr>)
      else if a = ''--once'' then mon_args args (opt\<lparr>mo_once := True\<rparr>)
      else if a = ''--json'' then mon_args args (opt\<lparr>mo_json := True\<rparr>)
      else if a = ''--port'' then val (\<lambda>v. opt\<lparr>mo_port := v\<rparr>)
      else if a = ''--replay'' then val (\<lambda>v. opt\<lparr>mo_replay := v\<rparr>)
      else if a = ''--record'' then val (\<lambda>v. opt\<lparr>mo_record := v\<rparr>)
      else if a = ''--tracker'' then val (\<lambda>v. opt\<lparr>mo_select := parse_id v, mo_have_select := True\<rparr>)
      else if a = ''--identify'' then val (\<lambda>v. opt\<lparr>mo_identify := id_of v\<rparr>)
      else if a = ''--reset'' then val (\<lambda>v. opt\<lparr>mo_reset_fusion := id_of v\<rparr>)
      else if a = ''--sim'' then val (\<lambda>v. opt\<lparr>mo_sim := (if v = ''on'' then 1 else 0)\<rparr>)
      else if a = ''--set-rate'' then val2 (\<lambda>v w. opt\<lparr>mo_set_rate_id := id_of v, mo_set_rate_hz := id_of w\<rparr>)
      else if a = ''--set-mode'' then val2 (\<lambda>v w. opt\<lparr>mo_set_mode_id := id_of v, mo_set_mode_val := id_of w\<rparr>)
      else MonExit 2)"

subsection \<open>The transport\<close>

text \<open>A capture is paced to 208 times 31 bytes per second, unless \<open>--fast\<close>; the rate is a \<^verbatim>\<open>double\<close>.\<close>

datatype mon_source = Replay u64 bool | Serial

record mon_setup =
  su_source :: mon_source
  su_target :: string
  su_tee :: "string option"
  su_stdin_free :: bool
  su_opts :: client_options

definition mon_setup_of :: "mon_options \<Rightarrow> mon_setup" where
  "mon_setup_of opt =
     (let replay = (mo_replay opt \<noteq> []) in
      \<lparr>su_source = (if replay then Replay (if mo_fast opt then 0 else 0x40B9300000000000) (mo_loop opt) else Serial),
       su_target = (if replay then mo_replay opt else mo_port opt),
       su_tee = (if mo_record opt = [] then None else Some (mo_record opt)),
       su_stdin_free = (\<not> replay \<or> mo_replay opt \<noteq> ''-''),
       su_opts = (let o1 = default_options\<lparr>auto_reconnect := \<not> replay\<rparr> in
         if replay then o1\<lparr>no_data_watchdog_ms := 0\<rparr> else o1)\<rparr>)"

definition keys_enabled :: "mon_options \<Rightarrow> bool" where
  "keys_enabled opt \<longleftrightarrow> su_stdin_free (mon_setup_of opt) \<and> \<not> mo_once opt \<and> \<not> mo_json opt"

subsection \<open>The reader thread\<close>

record latest =
  la_have :: bool
  la_id :: u16
  la_seq :: u32
  la_flags :: u8
  la_count :: u64

record mon_shared =
  ms_selected :: u16
  ms_stab :: stabilizer
  ms_latest :: latest

definition mon_shared_new :: mon_shared where
  "mon_shared_new = \<lparr>ms_selected = 0, ms_stab = stabilizer_new stabilizer_config_default,
     ms_latest = \<lparr>la_have = False, la_id = 0, la_seq = 0, la_flags = 0, la_count = 0\<rparr>\<rparr>"

text \<open>
  The selection is shared with the display thread, which may store another id before each of the three accesses: the load,
  the compare-and-exchange, the second load. \<open>mon_adopt\<close> gives the id that feeds the stabilizer and the selection after it.
\<close>

type_synonym stores = "u16 option \<times> u16 option \<times> u16 option"

definition stored :: "u16 option \<Rightarrow> u16 \<Rightarrow> u16" where
  "stored st sel = (case st of None \<Rightarrow> sel | Some v \<Rightarrow> v)"

definition mon_adopt :: "stores \<Rightarrow> u16 \<Rightarrow> u16 \<Rightarrow> u16 \<times> u16" where
  "mon_adopt sts oid sel = (case sts of (s0, s1, s2) \<Rightarrow>
     let sel = stored s0 sel; want = sel in
     if want = 0 then
       (let sel = stored s1 sel; sel = (if sel = want then oid else sel); sel = stored s2 sel in (sel, sel))
     else (want, sel))"

definition mon_on_orient :: "host_floats \<Rightarrow> stores \<Rightarrow> htk_orient \<Rightarrow> mon_shared \<Rightarrow> mon_shared option" where
  "mon_on_orient F sts p m =
     (let (want, sel) = mon_adopt sts (or_id p) (ms_selected m); m = m\<lparr>ms_selected := sel\<rparr>; l = ms_latest m;
          m = m\<lparr>ms_latest := l\<lparr>la_have := True, la_id := or_id p, la_seq := ucast (or_seq p), la_flags := or_flags p,
            la_count := la_count l + 1\<rparr>\<rparr> in
      if or_id p = want then
        (case stab_update F None p (ms_stab m, ()) of None \<Rightarrow> None | Some (_, s, _) \<Rightarrow> Some (m\<lparr>ms_stab := s\<rparr>))
      else Some m)"

subsection \<open>The display loop\<close>

definition mode_name :: "u8 \<Rightarrow> string" where
  "mode_name m = (if m = HTK_MODE_QUAT then ''quat'' else if m = HTK_MODE_RAW then ''raw''
     else if m = HTK_MODE_BOTH then ''both'' else ''?'')"

text \<open>What one turn sees, and what it does besides printing.\<close>

record mon_obs =
  ob_state :: conn_state
  ob_late :: bool
  ob_trackers :: "tracker_info list"
  ob_frames_ok :: u64
  ob_key :: "char option"

datatype mon_action = AIdentify u16 | AResetFusion u16 | ASetRate u16 u16 | ASetMode u16 u8 | ASimMode bool | ASelect u16 | ARequest u32

definition one_shots :: "mon_options \<Rightarrow> mon_action list" where
  "one_shots opt =
     (if mo_identify opt \<ge> 0 then [AIdentify (word_of_int (mo_identify opt))] else []) @
     (if mo_reset_fusion opt \<ge> 0 then [AResetFusion (word_of_int (mo_reset_fusion opt))] else []) @
     (if mo_set_rate_id opt \<ge> 0 then [ASetRate (word_of_int (mo_set_rate_id opt)) (word_of_int (mo_set_rate_hz opt))] else []) @
     (if mo_set_mode_id opt \<ge> 0 then [ASetMode (word_of_int (mo_set_mode_id opt)) (word_of_int (mo_set_mode_val opt))] else []) @
     (if mo_sim opt \<ge> 0 then [ASimMode (mo_sim opt \<noteq> 0)] else [])"

definition mon_shown :: "mon_options \<Rightarrow> mon_obs \<Rightarrow> u16" where
  "mon_shown opt ob =
     (if mo_have_select opt then mo_select opt else case ob_trackers ob of [] \<Rightarrow> mo_select opt | t # _ \<Rightarrow> ti_id t)"

text \<open>The action of a key; \<open>None\<close> for a key that ends the program.\<close>

definition mon_key :: "u16 \<Rightarrow> char option \<Rightarrow> mon_action list option" where
  "mon_key shown key = (case key of None \<Rightarrow> Some [] | Some c \<Rightarrow>
     if c = CHR ''r'' then Some [ARequest kReqRecenter] else if c = CHR ''b'' then Some [ARequest kReqBoresight]
     else if c = CHR ''z'' then Some [ARequest kReqClear] else if c = CHR ''i'' then Some [AIdentify shown]
     else if c = CHR ''q'' \<or> c = CHR 0x03 then None else Some [])"

definition once_ends :: "mon_options \<Rightarrow> mon_obs \<Rightarrow> bool" where
  "once_ends opt ob \<longleftrightarrow> mo_once opt \<and> (ob_state ob = Lost \<or> ob_state ob = Closed \<or> ob_late ob)"

definition once_code :: "mon_obs \<Rightarrow> nat" where
  "once_code ob = (if ob_frames_ok ob = 0 \<or> ob_trackers ob = [] then 1 else 0)"

text \<open>One turn of the loop: the actions, the exit code if it is the last, whether the commands have been sent.\<close>

definition mon_turn :: "mon_options \<Rightarrow> mon_obs \<Rightarrow> bool \<Rightarrow> mon_action list \<times> nat option \<times> bool" where
  "mon_turn opt ob sent =
     (let now = (ob_state ob = Ready \<and> \<not> sent); sent = (sent \<or> now); cmds = (if now then one_shots opt else []) in
      if ob_state ob = Incompatible then (cmds, Some 1, sent)
      else
        (let shown = mon_shown opt ob; cmds = cmds @ (if mo_have_select opt then [ASelect shown] else []) in
         case mon_key shown (if keys_enabled opt then ob_key ob else None) of
           None \<Rightarrow> (cmds, Some 0, sent)
         | Some acts \<Rightarrow> (cmds @ acts, if once_ends opt ob then Some (once_code ob) else None, sent)))"

fun mon_loop :: "mon_options \<Rightarrow> mon_obs list \<Rightarrow> bool \<Rightarrow> mon_action list \<times> nat option" where
  "mon_loop opt [] sent = ([], None)"
| "mon_loop opt (ob # obs) sent =
     (case mon_turn opt ob sent of
        (acts, Some code, sent) \<Rightarrow> (acts, Some code)
      | (acts, None, sent) \<Rightarrow> apfst (\<lambda>more. acts @ more) (mon_loop opt obs sent))"

subsection \<open>Properties\<close>

definition is_select :: "mon_action \<Rightarrow> bool" where
  "is_select a \<longleftrightarrow> (case a of ASelect _ \<Rightarrow> True | _ \<Rightarrow> False)"

lemma is_select_ASelect [simp]: "is_select (ASelect x)"
  by (simp add: is_select_def)

lemma one_shots_not_select [simp]: "filter (\<lambda>a. \<not> is_select a) (one_shots opt) = one_shots opt"
  by (auto simp: one_shots_def is_select_def)

lemma once_turn:
  assumes "mo_once opt" and "mon_turn opt ob sent = (acts, code, sent')"
  shows "filter (\<lambda>a. \<not> is_select a) acts = (if ob_state ob = Ready \<and> \<not> sent then one_shots opt else [])"
    and "sent' = (sent \<or> ob_state ob = Ready)"
    and "code = (if ob_state ob = Incompatible then Some 1 else if once_ends opt ob then Some (once_code ob) else None)"
  using assms by (auto simp: mon_turn_def Let_def keys_enabled_def mon_key_def split: if_split_asm)

lemma once_loop:
  assumes "mo_once opt" and "mon_loop opt obs sent = (acts, Some code)"
  shows "\<exists>pre ob post. obs = pre @ ob # post \<and> (\<forall>o1 \<in> set pre. ob_state o1 \<noteq> Incompatible \<and> \<not> once_ends opt o1) \<and>
    (if ob_state ob = Incompatible then code = 1 else once_ends opt ob \<and> code = once_code ob) \<and>
    filter (\<lambda>a. \<not> is_select a) acts = (if \<not> sent \<and> Ready \<in> ob_state ` set (pre @ [ob]) then one_shots opt else [])"
  using assms(2)
proof (induction obs arbitrary: sent acts)
  case (Cons ob obs)
  obtain a c s where t: "mon_turn opt ob sent = (a, c, s)" by (metis surj_pair)
  note turn = once_turn [OF assms(1) t]
  show ?case
  proof (cases c)
    case (Some d)
    with Cons.prems t turn show ?thesis
      by (intro exI [of _ "[]"] exI [of _ ob] exI [of _ obs]) (auto split: if_split_asm)
  next
    case None
    with Cons.prems t obtain more where more: "mon_loop opt obs s = (more, Some code)" "acts = a @ more"
      by (cases "mon_loop opt obs s") auto
    from Cons.IH [OF more(1)] obtain pre o1 post where h: "obs = pre @ o1 # post"
      "\<forall>o2 \<in> set pre. ob_state o2 \<noteq> Incompatible \<and> \<not> once_ends opt o2"
      "if ob_state o1 = Incompatible then code = 1 else once_ends opt o1 \<and> code = once_code o1"
      "filter (\<lambda>a. \<not> is_select a) more = (if \<not> s \<and> Ready \<in> ob_state ` set (pre @ [o1]) then one_shots opt else [])" by blast
    have "ob_state ob \<noteq> Incompatible \<and> \<not> once_ends opt ob" using turn(3) None by (auto split: if_split_asm)
    with h turn(1,2) more(2) show ?thesis
      by (intro exI [of _ "ob # pre"] exI [of _ o1] exI [of _ post]) auto
  qed
qed simp

text \<open>In \<open>--once\<close> mode the monitor gives a verdict: it ends at the first turn that finds the dongle incompatible, with code 1,
  or the stream over or ten seconds gone, with code 0 exactly if frames have been decoded and trackers seen; and the
  one-shot commands of the command line are sent once, all of them in order, if the link was ever ready by then, and never before.\<close>

theorem monitor_verdict:
  assumes "mo_once opt" and "mon_loop opt obs False = (acts, Some code)"
  shows "\<exists>pre ob post. obs = pre @ ob # post \<and> (\<forall>o1 \<in> set pre. ob_state o1 \<noteq> Incompatible \<and> \<not> once_ends opt o1) \<and>
    (if ob_state ob = Incompatible then code = 1
     else once_ends opt ob \<and> (code = 0 \<longleftrightarrow> ob_frames_ok ob \<noteq> 0 \<and> ob_trackers ob \<noteq> [])) \<and>
    filter (\<lambda>a. \<not> is_select a) acts = (if Ready \<in> ob_state ` set (pre @ [ob]) then one_shots opt else [])"
proof -
  from once_loop [OF assms] obtain pre ob post where h: "obs = pre @ ob # post"
    "\<forall>o1 \<in> set pre. ob_state o1 \<noteq> Incompatible \<and> \<not> once_ends opt o1"
    "if ob_state ob = Incompatible then code = 1 else once_ends opt ob \<and> code = once_code ob"
    "filter (\<lambda>a. \<not> is_select a) acts = (if \<not> False \<and> Ready \<in> ob_state ` set (pre @ [ob]) then one_shots opt else [])" by blast
  have c: "once_code ob = 0 \<longleftrightarrow> ob_frames_ok ob \<noteq> 0 \<and> ob_trackers ob \<noteq> []" by (simp add: once_code_def)
  from h c show ?thesis by (intro exI [of _ pre] exI [of _ ob] exI [of _ post]) (simp split: if_split_asm)
qed

lemma monitor_verdict_witness:
  "let opt = mon_defaults\<lparr>mo_once := True, mo_identify := 0x1234\<rparr>;
       ob = \<lparr>ob_state = Ready, ob_late = False, ob_trackers = [fresh_tracker_info 0x1234], ob_frames_ok = 9, ob_key = None\<rparr>;
       run = mon_loop opt [ob, ob\<lparr>ob_state := Lost\<rparr>] False in
   snd run = Some 0 \<and> filter (\<lambda>a. \<not> is_select a) (fst run) = [AIdentify 0x1234]"
proof -
  let ?opt = "mon_defaults\<lparr>mo_once := True, mo_identify := 0x1234\<rparr>"
  let ?ob = "\<lparr>ob_state = Ready, ob_late = False, ob_trackers = [fresh_tracker_info 0x1234], ob_frames_ok = 9, ob_key = None\<rparr> :: mon_obs"
  let ?obs = "[?ob, ?ob\<lparr>ob_state := Lost\<rparr>]"
  have on: "mo_once ?opt" by simp
  have r: "mon_loop ?opt ?obs False = (fst (mon_loop ?opt ?obs False), Some 0)" by code_simp
  from monitor_verdict [OF on r] obtain pre ob post where h: "?obs = pre @ ob # post"
    "filter (\<lambda>a. \<not> is_select a) (fst (mon_loop ?opt ?obs False)) = (if Ready \<in> ob_state ` set (pre @ [ob]) then one_shots ?opt else [])"
    by blast
  have "Ready \<in> ob_state ` set (pre @ [ob])" using h(1) by (cases pre) auto
  with h(2) have "filter (\<lambda>a. \<not> is_select a) (fst (mon_loop ?opt ?obs False)) = one_shots ?opt" by simp
  moreover have "one_shots ?opt = [AIdentify 0x1234]" by code_simp
  ultimately have "filter (\<lambda>a. \<not> is_select a) (fst (mon_loop ?opt ?obs False)) = [AIdentify 0x1234]" by simp
  moreover have "snd (mon_loop ?opt ?obs False) = Some 0" by code_simp
  ultimately show ?thesis unfolding Let_def by (intro conjI)
qed

text \<open>
  Two weaknesses of the selection. Without \<open>--tracker\<close> the id shown beside the pose is the first of the list of trackers,
  while the pose is that of the tracker whose sample came first. With it, a sample that comes before the first
  turn of the display is adopted all the same, and feeds the stabilizer with another tracker.
\<close>

lemma label_of_another_tracker:
  "mon_adopt (None, None, None) 0x1000 0 = (0x1000, 0x1000) \<and>
   mon_shown mon_defaults \<lparr>ob_state = Ready, ob_late = False, ob_trackers = [fresh_tracker_info 0x2000, fresh_tracker_info 0x1000],
     ob_frames_ok = 9, ob_key = None\<rparr> = 0x2000 \<and>
   mon_shown (mon_defaults\<lparr>mo_have_select := True, mo_select := 0x2000\<rparr>) \<lparr>ob_state = Opening, ob_late = False, ob_trackers = [],
     ob_frames_ok = 0, ob_key = None\<rparr> = 0x2000"
  by (simp add: mon_adopt_def stored_def mon_shown_def fresh_tracker_info_def mon_defaults_def)

end
