(* ===== verification/Spec2Isabelle.thy ===== *)
theory Spec2Isabelle
  imports Fabric Session Client_List Seqlock Vqf_Contract Htgen Htmon
begin

text \<open>
  Verification of the headtracker: the firmware of the head unit, the firmware of the USB dongle, the wire protocol that
  both share with the host library, the host library and its two tools. This theory loads everything; each theory
  opens with what it holds. Paths are relative to \<^verbatim>\<open>src/\<close>.

  \<^bold>\<open>The program.\<close> Head units measure orientation and send samples by radio (Enhanced ShockBurst, uplink pipe). The dongle
  collects them, keeps a table of trackers, and passes the samples on as frames over USB CDC-ACM. The host library
  opens the port, performs a handshake, parses the byte stream and gives the packets to the application. Commands
  take the way back: the host encodes a frame, the dongle assembles and dispatches it, and what is meant for a tracker
  rides on the beacons (downlink pipe) that the dongle sends ten times a second and for which each head listens from time to time.

      head: IMU queue, fusion thread, VQF, taps, LEDs      Head_Main, Fusion, Vqf, Tapdet, Head_Leds
       |  ^    radio, samples up and beacons down            Head_Radio, Dongle_Radio, Drivers
       v  |
      dongle: tracker table, simulator, USB pipe            Trackers, Usb_Io, Usb_Rx, Dongle
       |  ^    USB, frames up and commands down              Protocol, Crc16, Cobs, Frame, Deframe
       v  |
      host: transport, parser, client, stabilizer           Transport, Parser, Commands, Client, Session,
                                                            Client_List, Orientation, Stabilizer, Seqlock
      tools                                                 Htgen, Htmon

  \<^bold>\<open>Theories and code.\<close>

  \<^item> \<open>Prelude\<close>: names of the machine integers, little-endian bytes, generic list lemmas, and the collections
    \<open>wire_simps\<close> and \<open>code_defs\<close>.
  \<^item> \<open>Protocol\<close> (\<^verbatim>\<open>firmware/common/protocol/htk_protocol.h\<close>): constants and one record per packed struct, with its
    memory image \<open>enc_\<dots>\<close> and its reading \<open>dec_\<dots>\<close>. Locale \<open>wire_struct\<close>, interpreted on all thirteen structs.
  \<^item> \<open>Crc16\<close>, \<open>Cobs\<close>, \<open>Frame\<close> (\<^verbatim>\<open>htk_crc16.c\<close>, \<^verbatim>\<open>htk_cobs.c\<close>, \<^verbatim>\<open>htk_frame.c\<close>): the loops of the code; the checksum is linear and
    injective, the one-pass encoder equals the textbook description, frames round-trip and damage is found.
  \<^item> \<open>Deframe\<close>: the contract of a receiver, as locales \<open>deframer\<close>, \<open>framing\<close> and \<open>link\<close>. Both receivers of the program
    are interpretations: \<open>host\<close> in \<open>Parser\<close> (\<^verbatim>\<open>host/libheadtracker/src/parser.cpp\<close>) and \<open>dongle_rx\<close> in \<open>Usb_Rx\<close>.
  \<^item> \<open>Commands\<close> (\<^verbatim>\<open>commands.cpp\<close>): the encoders, and a datatype of commands as their specification.
  \<^item> \<open>Drivers\<close> (\<^verbatim>\<open>firmware/common/radio/htk_radio.h\<close>): radio constants; the message queue with its law \<open>msgq_law\<close>, and the
    radio driver, a function from calls to error codes. \<open>tap\<close> wraps a driver and records its calls.
  \<^item> \<open>Floats\<close>: single-precision numbers as bit patterns; see below.
  \<^item> \<open>Usb_Io\<close>, \<open>Usb_Rx\<close> (\<^verbatim>\<open>firmware/app_dongle/src/usb_io.c\<close>): the frame ring and its interrupt handler; assembly of blocks and
    dispatch of commands. \<open>Trackers\<close> (\<^verbatim>\<open>trackers.c\<close>): the table, claims of slots, loss and rate counters.
    \<open>Dongle_Radio\<close> (\<^verbatim>\<open>radio.c\<close>, \<^verbatim>\<open>leds.c\<close>): beacons, pending command, receive queue and thread.
  \<^item> \<open>Dongle\<close> (\<^verbatim>\<open>main.c\<close>, \<^verbatim>\<open>sim.c\<close>): the 1 Hz tick, the simulator, and \<open>dongle_step\<close>, the step relation in which each
    interrupt, timer, work item and thread round is one step; \<open>dongle_reachable\<close> is its closure from reset.
  \<^item> \<open>Tapdet\<close> (\<^verbatim>\<open>firmware/common/imu/htk_tapdet.c\<close>), \<open>Head_Leds\<close>, \<open>Head_Radio\<close> (\<^verbatim>\<open>leds.c\<close>, \<^verbatim>\<open>radio.c\<close> of \<^verbatim>\<open>firmware/app_head/src\<close>): the double-tap
    detector, the LED patterns, sending and the listen window, in two parts because it sleeps under its lock.
  \<^item> \<open>Fusion\<close> (\<^verbatim>\<open>firmware/common/fusion/htk_fusion.cpp\<close>): the wrapper around the filter, over any filter \<open>V\<close>. The locale
    \<open>gyro_filter\<close> holds what the wrapper relies on when it saves and restores the bias.
  \<^item> \<open>Vqf_Math\<close>, \<open>Vqf\<close>, \<open>Vqf_Contract\<close> (\<^verbatim>\<open>firmware/common/fusion/vqf/\<close>): the filter, every method of it; that a reset
    filter is a new one, that the bias is clipped, that rest needs time; and that this filter is a \<open>gyro_filter\<close> (interpretation \<open>vqf_laws\<close>), so that the wrapper's lemmas hold of
    the two together.
  \<^item> \<open>Head_Main\<close> (\<^verbatim>\<open>firmware/app_head/src/main.c\<close>): start of the sensor, the fusion thread, commands, self-report, power
    states, and the step relation \<open>head_step\<close>.
  \<^item> \<open>Transport\<close> (\<^verbatim>\<open>host/libheadtracker/src/transport.cpp\<close>): five byte pipes, enumeration of ports, the search for a dongle.
    Locale \<open>byte_pipe\<close> is what a client of a transport relies on, \<open>byte_source\<close> adds that reading neither loses nor
    invents bytes; interpreted on the memory and the replay transport.
  \<^item> \<open>Client\<close>, \<open>Session\<close>, \<open>Client_List\<close> (\<^verbatim>\<open>client.cpp\<close>): the connection, the reader thread, the list of trackers. Locale
    \<open>session\<close> extends \<open>byte_pipe\<close>; everything about the life of a connection is proved in it for any transport.
  \<^item> \<open>Orientation\<close>, \<open>Stabilizer\<close>, \<open>Seqlock\<close> (\<^verbatim>\<open>orientation.cpp\<close>, \<^verbatim>\<open>stabilizer.cpp\<close>): quaternions, the reference automation, and the
    sequence lock through which other threads read its status: every interleaving of the single accesses of the two
    threads, out of the order of the program wherever the memory orders of the code allow it.
  \<^item> \<open>Htgen\<close>, \<open>Htmon\<close> (\<^verbatim>\<open>host/tools/\<close>): the generator of captures, and the decisions of the monitor.
  \<^item> \<open>Fabric\<close>: what the parts do together, from head to application and back.

  \<^bold>\<open>What is proved.\<close> The properties are numbered in the texts before them, in the order of their importance.
  \<^item> End to end: every packet that arrives at the dongle's radio is accounted for, and the samples among them reach the application
    unchanged, in order, at most once (C1; what is lost on the air shows in the sequence numbers, C33); a command reaches the tracker that it names and no other (C2); what a host reads at any
    instant of any run of the dongle is a prefix of well-formed packets (C3).
  \<^item> Whole units: the invariants of dongle and head over every order of their steps (C4, C5); the parser is the
    specification of a stream of frames, and recovers after noise (C6, C11); a client session ends when it is
    told to, if the calls of its transport return (C7, and C40 for the POSIX serial port); a status that other threads read is
    whole if two fences are added that the code lacks, and can be torn without either (C8).
  \<^item> Components: conservation, refinement and progress of the USB pipe (C9, C28, C29); the commands that the dongle
    performs (C10); power states and termination of the control loop (C12); the tracker tables of dongle and host as
    maps (C13, C15, C33, C37); the handshake (C14) and the search for a dongle (C34); taps (C16, C17); rest, bias and yaw
    of filter and wrapper (C18 to C22, C24); the stabilizer (C23); frames, checksum and stuffing (C25 to C27); beacons,
    listening, decimation (C30 to C32); writing and recording (C35, C36); LEDs (C38); generated captures (C39).

  Many lemmas that are not numbered state the behaviour of one operation on each of its branches; they stand behind
  the definitions that they are about.

  \<^bold>\<open>Parameters.\<close> Code outside the repository is an argument. Zephyr's byte ring and message queue come with the laws
  \<open>ring_law\<close> and \<open>msgq_law\<close>, which say what their documentation promises; each holds of a list-backed instance
  (\<open>list_ring\<close>, \<open>list_msgq\<close>), on which the witnesses run. Drivers, clocks, files and system calls answer
  arbitrarily, with an error or not, and move a state of their own; no law is assumed of them unless a theorem names it
  (\<open>uart_law\<close>, \<open>write_law\<close>, \<open>takes_bytes\<close> of the POSIX \<^verbatim>\<open>write\<close>, \<open>stdio_law\<close> of the buffered record file, with the instance \<open>list_stdio\<close>).

  \<^bold>\<open>Numbers.\<close> Integers of the code are words of their width and wrap as they do in C; the clock in milliseconds is
  an integer. A \<^verbatim>\<open>float\<close> or \<^verbatim>\<open>double\<close> is its bit pattern: classification, comparison, sign and conversion are defined
  on it exactly, NaN and signed zeros included; sums, products, roots and the functions of \<^verbatim>\<open>libm\<close> are the parameter
  records \<open>float_ops\<close>, \<open>host_floats\<close>, \<open>vqf_arith\<close>, of which nothing is assumed, because compilers contract and libraries differ.
  So what is proved of the filter and the wrapper is what their comparisons, clips, counters and state machines
  guarantee for any arithmetic. \<open>ieee_ops\<close> computes correctly rounded results, for witnesses.

  \<^bold>\<open>Loops and bounds.\<close> A loop over data is structural recursion or has a \<open>termination\<close> proof. A loop that need not end is a
  \<open>partial_function (option)\<close>, where \<open>None\<close> is a call that does not return: waiting for a clock, the two \<^verbatim>\<open>wrap_pi\<close>, draining
  of queues, reads and writes of a transport, and the loops of the client. That they return is stated as such: a round
  of the head's control loop (C12), the receive work of the dongle (\<open>rx_work_processes_ring\<close>), the client's reader thread (C7, C40).
  The flag \<^verbatim>\<open>quit_\<close>, which another thread sets, is a sequence of readings. No definition has fuel, apart from lists that say
  how often an environment answers (iterations of an interrupt, turns of a thread). The sequence lock with its fences is right as
  long as the number has been stored fewer than \<open>2 ^ 32\<close> times, which C8 states.

  \<^bold>\<open>Not modelled.\<close>
  \<^item> Drivers, kernel, USB and radio stacks and \<^verbatim>\<open>libm\<close>: not in the repository. Board overlays, configuration and build files
    are data.
  \<^item> What \<^verbatim>\<open>htmon\<close> prints, and its terminal mode: pure output. Log messages of the firmware: the same.
  \<^item> VQF in double precision or without motion bias estimation: configurations that nothing in the repository builds.
  \<^item> Preemption inside a handler: handlers run to completion, which the spinlocks and priorities of the
    firmware justify; where the code has no lock (the reset of the fusion from the control loop) the manifest says so.
  \<^item> The memory model of C++ beyond \<open>Seqlock\<close>: there every access takes effect at one moment for both threads, though not in
    program order; that a race on plain data has no defined result at all is a finding, not a model. The threads of the
    client are one sequence of the reader's steps with the flag as an oracle; calls from other threads are operations
    between them.
  \<^item> Tests, the fuzz target and the vendored test framework.
\<close>

end
